(* ===== verification/Prelude.thy ===== *)
theory Prelude
  imports Main "HOL-Library.Word"
begin

text \<open>
  The vocabulary every component shares: bytes, addresses, the outcome of C code that may
  run into undefined behaviour, and the few functions of the C library the program calls
  (\<open>memchr\<close>, \<open>strncasecmp\<close>, \<open>atoi\<close>) as the standard describes them.

  \<^item> a C string or a block of memory is a list of characters (8-bit values);
  \<^item> a \<open>BufferPtr\<close> or \<open>Buffer\<close> that owns its memory is an optional list
    (\<open>None\<close> is the null pointer; \<open>Some []\<close> is an empty block that is not null);
  \<^item> a \<open>BufferPtr\<close> that points into another block is a pair of offsets into it.
\<close>

type_synonym bytes = "char list"
type_synonym addr = nat

subsection \<open>Runs that may fault\<close>

text \<open>
  A function of the program whose execution may dereference a null pointer, touch memory
  outside the block it works on, or use a pointer converted to an unrelated type returns a
  \<open>run\<close>: \<open>Ret\<close> of its result, or the \<open>Fault\<close> that ends the process.
\<close>

datatype fault =
    NullDereference    \<comment> \<open>a null pointer is dereferenced\<close>
  | OutOfBounds        \<comment> \<open>an access outside the allocated block\<close>
  | UseAfterFree       \<comment> \<open>an object is used after it was freed\<close>
  | TypePunning        \<comment> \<open>an object is read through a pointer of another type\<close>
  | Unbounded          \<comment> \<open>a loop went on beyond the number of steps its model allows\<close>

datatype 'a run = Ret 'a | Fault fault

primrec bind_run :: "'a run \<Rightarrow> ('a \<Rightarrow> 'b run) \<Rightarrow> 'b run" where
  "bind_run (Ret x) f = f x"
| "bind_run (Fault e) f = Fault e"

definition faults :: "'a run \<Rightarrow> bool" where
  "faults r \<longleftrightarrow> (case r of Ret _ \<Rightarrow> False | Fault _ \<Rightarrow> True)"

lemma faults_simps [simp]: "faults (Fault e)" "\<not> faults (Ret x)"
  by (simp_all add: faults_def)

lemma bind_run_eq_Ret [simp]:
  "bind_run m f = Ret y \<longleftrightarrow> (\<exists>x. m = Ret x \<and> f x = Ret y)"
  by (cases m) auto

lemma bind_run_assoc: "bind_run (bind_run m f) g = bind_run m (\<lambda>x. bind_run (f x) g)"
  by (cases m) auto

lemma bind_run_cong [fundef_cong]:
  "m = m' \<Longrightarrow> (\<And>x. m' = Ret x \<Longrightarrow> f x = f' x) \<Longrightarrow> bind_run m f = bind_run m' f'"
  by (cases m') auto

subsection \<open>Collections the components extend\<close>

named_theorems jid_simps "facts about JID parts, printing and comparison"
named_theorems codec_simps "encodings of base values and buffers"
named_theorems xml_steps "one step of the XML scanner over a printed piece"
named_theorems dls_simps "the effect of the list macros under the laws of utlist"

subsection \<open>Lists\<close>

lemma nth_append_middle [simp]: "(xs @ y # ys) ! length xs = y"
  by (simp add: nth_append)

lemma take_append_middle [simp]: "take (length ys) (drop (length xs) (xs @ ys @ zs)) = ys"
  by simp

lemma find_append:
  "find P (xs @ ys) = (case find P xs of Some x \<Rightarrow> Some x | None \<Rightarrow> find P ys)"
  by (induction xs) auto

lemma find_map_comp: "find P (map f xs) = map_option f (find (P \<circ> f) xs)"
  by (induction xs) auto

lemma find_Some_mem: "find P xs = Some x \<Longrightarrow> x \<in> set xs \<and> P x"
  by (induction xs) (auto split: if_splits)

lemma find_None_iff_all: "find P xs = None \<longleftrightarrow> (\<forall>x \<in> set xs. \<not> P x)"
  by (induction xs) auto

lemma map_fun_upd_notin: "a \<notin> set xs \<Longrightarrow> map (f(a := v)) xs = map f xs"
  by (induction xs) auto

lemma option_eqI: "(\<And>v. x = Some v \<longleftrightarrow> y = Some v) \<Longrightarrow> x = y"
  by (metis option.exhaust)

lemma distinct_remove1_last:
  "distinct xs \<Longrightarrow> xs \<noteq> [] \<Longrightarrow> remove1 (hd xs) xs = tl xs"
  by (cases xs) auto

subsection \<open>The C library: characters and comparison\<close>

text \<open>
  \<open>tolower\<close> in the C locale. \<open>strncasecmp\<close> compares at most \<open>n\<close> characters and stops at
  a null character that both strings have; it is 0 exactly when the compared parts agree up
  to case. The code only tests its result against 0, so it is modelled as that test. A null
  pointer is passed with length 0 only, which compares nothing.
\<close>

definition tolower :: "char \<Rightarrow> char" where
  "tolower c = (let n = of_char c :: nat in if 65 \<le> n \<and> n \<le> 90 then char_of (n + 32) else c)"

fun strncasecmp_eq :: "bytes \<Rightarrow> bytes \<Rightarrow> nat \<Rightarrow> bool" where
  "strncasecmp_eq xs ys 0 = True"
| "strncasecmp_eq (x # xs) (y # ys) (Suc n) =
     (if tolower x \<noteq> tolower y then False
      else if x = CHR 0x00 then True
      else strncasecmp_eq xs ys n)"
| "strncasecmp_eq [] [] (Suc n) = True"
| "strncasecmp_eq [] (y # ys) (Suc n) = (y = CHR 0x00)"
| "strncasecmp_eq (x # xs) [] (Suc n) = (x = CHR 0x00)"

definition nul_free :: "bytes \<Rightarrow> bool" where
  "nul_free xs \<longleftrightarrow> CHR 0x00 \<notin> set xs"

lemma tolower_nul [simp]: "tolower CHR 0x00 = CHR 0x00"
  by (simp add: tolower_def)

lemma strncasecmp_eq_refl [simp]: "strncasecmp_eq xs xs n"
proof (induction n arbitrary: xs)
  case 0
  show ?case by simp
next
  case (Suc n)
  then show ?case by (cases xs) auto
qed

text \<open>On strings without null characters of the same length, it is equality up to case.\<close>

lemma strncasecmp_eq_lower:
  "length xs = length ys \<Longrightarrow> nul_free xs \<Longrightarrow>
   strncasecmp_eq xs ys (length xs) \<longleftrightarrow> map tolower xs = map tolower ys"
proof (induction xs arbitrary: ys)
  case Nil
  then show ?case by simp
next
  case (Cons x xs)
  then obtain y ys' where "ys = y # ys'" by (cases ys) auto
  with Cons show ?case by (auto simp: nul_free_def)
qed

text \<open>A string ends at the first null character of its memory.\<close>

definition c_string :: "bytes \<Rightarrow> bytes" where
  "c_string = takeWhile (\<lambda>c. c \<noteq> CHR 0x00)"

lemma c_string_id: "nul_free bs \<Longrightarrow> c_string bs = bs"
  by (auto simp: c_string_def nul_free_def takeWhile_eq_all_conv)

lemma c_string_length: "length (c_string bs) \<le> length bs"
  by (simp add: c_string_def length_takeWhile_le)

text \<open>
  \<open>atoi\<close> of a string without its terminator: white space, an optional sign, digits; the
  GNU library computes the value as a saturating 64-bit \<open>long\<close> and truncates it to the
  32-bit \<open>int\<close>.
\<close>

definition is_space :: "char \<Rightarrow> bool" where
  "is_space c \<longleftrightarrow> c = CHR '' '' \<or> (9 \<le> (of_char c :: nat) \<and> (of_char c :: nat) \<le> 13)"

definition is_digit :: "char \<Rightarrow> bool" where
  "is_digit c \<longleftrightarrow> 48 \<le> (of_char c :: nat) \<and> (of_char c :: nat) \<le> 57"

fun digits_value :: "int \<Rightarrow> bytes \<Rightarrow> int" where
  "digits_value acc [] = acc"
| "digits_value acc (c # cs) =
     (if is_digit c then digits_value (10 * acc + (of_char c - 48)) cs else acc)"

definition strtol :: "bytes \<Rightarrow> int" where
  "strtol s =
     (let v = (case dropWhile is_space s of
                 [] \<Rightarrow> 0
               | c # cs \<Rightarrow>
                   if c = CHR ''-'' then - digits_value 0 cs
                   else if c = CHR ''+'' then digits_value 0 cs
                   else digits_value 0 (c # cs))
      in max (- (2 ^ 63)) (min (2 ^ 63 - 1) v))"

definition to_int32 :: "int \<Rightarrow> int" where
  "to_int32 v = (v + 2 ^ 31) mod 2 ^ 32 - 2 ^ 31"

definition atoi :: "bytes \<Rightarrow> int" where
  "atoi s = to_int32 (strtol s)"

lemma to_int32_bounds: "- (2 ^ 31) \<le> to_int32 v \<and> to_int32 v < 2 ^ 31"
  by (simp add: to_int32_def)

lemma to_int32_id: "- (2 ^ 31) \<le> v \<Longrightarrow> v < 2 ^ 31 \<Longrightarrow> to_int32 v = v"
  by (simp add: to_int32_def)

subsection \<open>Literals\<close>

text \<open>
  The literals of the source, where a back quote stands for the single quote of XML attributes
  (no literal of the source has a back quote).
\<close>

definition lit :: "bytes \<Rightarrow> bytes" where
  "lit s = map (\<lambda>c. if c = CHR 0x60 then CHR 0x27 else c) s"

end
