(* ===== verification/Buffer.thy ===== *)
theory Buffer
  imports Prelude
begin

text \<open>
  \<^verbatim>\<open>xmcomp/src/buffer.h\<close>, \<^verbatim>\<open>xmcomp/src/buffer.c\<close> and \<^verbatim>\<open>src/serializer.h\<close>: owned buffers, the files
  they are written to and read from, and the contract (a locale) of every
  \<open>serialize\<close>/\<open>deserialize\<close> pair of the program.

  A file open for writing is what has been written and the space left on the device; a
  write that does not fit stores what fits and reports failure. A file open for reading is
  the bytes that are left.
\<close>

subsection \<open>Files\<close>

record ofile =
  of_written :: bytes
  of_space :: nat

type_synonym put = "ofile \<Rightarrow> ofile \<times> bool"
type_synonym 'a get = "bytes \<Rightarrow> ('a \<times> bytes) option"

definition fwrite :: "bytes \<Rightarrow> put" where
  "fwrite bs f =
     (f\<lparr>of_written := of_written f @ take (of_space f) bs,
        of_space := of_space f - length bs\<rparr>,
      length bs \<le> of_space f)"

definition fread :: "nat \<Rightarrow> bytes get" where
  "fread n f = (if n \<le> length f then Some (take n f, drop n f) else None)"

text \<open>\<open>a && b\<close> over writes: the second is done only when the first succeeded.\<close>

definition put_and :: "put \<Rightarrow> put \<Rightarrow> put" where
  "put_and p q f = (case p f of (f', ok) \<Rightarrow> if ok then q f' else (f', False))"

definition get_and :: "'a get \<Rightarrow> ('a \<Rightarrow> 'b get) \<Rightarrow> 'b get" where
  "get_and p q f = (case p f of None \<Rightarrow> None | Some (x, f') \<Rightarrow> q x f')"

definition get_return :: "'a \<Rightarrow> 'a get" where
  "get_return x f = Some (x, f)"

text \<open>Two writes in a row do what one write of both does, failures included.\<close>

lemma put_and_fwrite [codec_simps]: "put_and (fwrite a) (fwrite b) = fwrite (a @ b)"
  by (rule ext) (auto simp: put_and_def fwrite_def)

lemma fread_append [codec_simps]: "n = length a \<Longrightarrow> fread n (a @ b) = Some (a, b)"
  by (simp add: fread_def)

lemma get_and_Some [codec_simps]: "p f = Some (x, f') \<Longrightarrow> get_and p q f = q x f'"
  by (simp add: get_and_def)

subsection \<open>The serialization contract\<close>

text \<open>
  What every \<open>x_serialize\<close>/\<open>x_deserialize\<close> pair promises its callers: the writer writes
  one block \<open>enc x\<close>, and the reader, given that block and anything after it, returns the
  value and leaves the rest. \<open>canon\<close> is what reading makes of a value: a block of length 0
  comes back as the null pointer.
\<close>

locale codec =
  fixes put :: "'a \<Rightarrow> put"
    and get :: "'a get"
    and enc :: "'a \<Rightarrow> bytes"
    and valid :: "'a \<Rightarrow> bool"
    and canon :: "'a \<Rightarrow> 'a"
  assumes put_enc: "put x = fwrite (enc x)"
    and get_enc: "valid x \<Longrightarrow> get (enc x @ rest) = Some (canon x, rest)"
begin

lemma put_and_put: "put_and (put x) (fwrite b) = fwrite (enc x @ b)"
  by (simp add: put_enc put_and_fwrite)

lemma get_and_enc: "valid x \<Longrightarrow> get_and get q (enc x @ rest) = q (canon x) rest"
  by (simp add: get_and_def get_enc)

text \<open>On a device with enough space, what was written is read back.\<close>

lemma put_get:
  assumes "valid x" and "length (enc x) \<le> of_space f"
  shows "\<exists>f'. put x f = (f', True) \<and>
    get (drop (length (of_written f)) (of_written f') @ rest) = Some (canon x, rest)"
  using assms by (simp add: put_enc fwrite_def get_enc)

text \<open>A full device is reported, never hidden.\<close>

lemma put_fails_iff: "\<not> snd (put x f) \<longleftrightarrow> of_space f < length (enc x)"
  by (auto simp: put_enc fwrite_def)

end

subsection \<open>Base values: little-endian two's complement\<close>

text \<open>
  \<open>SERIALIZE_BASE\<close> writes the \<open>sizeof(value)\<close> bytes of the value as they stand in memory;
  on the supported machines that is little-endian: 4 bytes for \<open>int\<close>, 8 for \<open>time_t\<close> and
  for the pointer used as presence mark.
\<close>

fun enc_nat :: "nat \<Rightarrow> nat \<Rightarrow> bytes" where
  "enc_nat 0 v = []"
| "enc_nat (Suc k) v = char_of (v mod 256) # enc_nat k (v div 256)"

fun dec_nat :: "bytes \<Rightarrow> nat" where
  "dec_nat [] = 0"
| "dec_nat (c # cs) = of_char c + 256 * dec_nat cs"

definition enc_int :: "nat \<Rightarrow> int \<Rightarrow> bytes" where
  "enc_int k v = enc_nat k (nat (v mod 256 ^ k))"

definition dec_int :: "nat \<Rightarrow> bytes \<Rightarrow> int" where
  "dec_int k bs = (let v = int (dec_nat bs) in if 2 * v < 256 ^ k then v else v - 256 ^ k)"

definition serialize_base :: "nat \<Rightarrow> int \<Rightarrow> put" where
  "serialize_base k v = fwrite (enc_int k v)"

definition deserialize_base :: "nat \<Rightarrow> int get" where
  "deserialize_base k = get_and (fread k) (\<lambda>bs. get_return (dec_int k bs))"

definition fits :: "nat \<Rightarrow> int \<Rightarrow> bool" where
  "fits k v \<longleftrightarrow> - (256 ^ k) \<le> 2 * v \<and> 2 * v < 256 ^ k"

lemma length_enc_nat [simp]: "length (enc_nat k v) = k"
  by (induction k arbitrary: v) auto

lemma length_enc_int [simp]: "length (enc_int k v) = k"
  by (simp add: enc_int_def)

lemma dec_enc_nat: "v < 256 ^ k \<Longrightarrow> dec_nat (enc_nat k v) = v"
proof (induction k arbitrary: v)
  case 0
  then show ?case by simp
next
  case (Suc k)
  then have "v div 256 < 256 ^ k" by (simp add: less_mult_imp_div_less mult.commute)
  with Suc.IH show ?case by simp
qed

lemma dec_enc_int: 
  assumes "fits k v"
  shows "dec_int k (enc_int k v) = v"
proof -
  let ?M = "256 ^ k :: int"
  have M: "0 < ?M" by simp
  have "nat (v mod ?M) < 256 ^ k" by (simp add: nat_less_iff)
  then have d: "int (dec_nat (enc_int k v)) = v mod ?M"
    by (simp add: enc_int_def dec_enc_nat)
  show ?thesis
  proof (cases "0 \<le> v")
    case True
    with assms have "v mod ?M = v" by (intro mod_pos_pos_trivial) (auto simp: fits_def)
    with assms d show ?thesis by (simp add: dec_int_def fits_def)
  next
    case False
    with assms have "v mod ?M = v + ?M"
      using mod_add_self2 [of v ?M] by (subst mod_add_self2 [symmetric], intro mod_pos_pos_trivial) (auto simp: fits_def)
    with assms d False show ?thesis by (simp add: dec_int_def fits_def)
  qed
qed

interpretation base: codec "serialize_base k" "deserialize_base k" "enc_int k" "fits k" "\<lambda>v. v"
  by unfold_locales
    (auto simp: serialize_base_def deserialize_base_def get_return_def codec_simps dec_enc_int)

subsection \<open>Buffers\<close>

definition buffer_size :: "bytes option \<Rightarrow> nat" where
  "buffer_size b = (case b of None \<Rightarrow> 0 | Some bs \<Rightarrow> length bs)"

definition buffer_bytes :: "bytes option \<Rightarrow> bytes" where
  "buffer_bytes b = (case b of None \<Rightarrow> [] | Some bs \<Rightarrow> bs)"

definition buffer_serialize :: "bytes option \<Rightarrow> put" where
  "buffer_serialize b =
     put_and (fwrite (enc_int 4 (int (buffer_size b))))
       (\<lambda>f. if buffer_size b = 0 then (f, True) else fwrite (buffer_bytes b) f)"

definition buffer_deserialize :: "int \<Rightarrow> bytes option get" where
  "buffer_deserialize limit =
     get_and (deserialize_base 4) (\<lambda>size f.
       if size < 0 \<or> size > limit then None
       else if size = 0 then Some (None, f)
       else get_and (fread (nat size)) (\<lambda>bs. get_return (Some bs)) f)"

definition buffer_ptr_serialize :: "bytes option \<Rightarrow> put" where
  "buffer_ptr_serialize b = buffer_serialize b"

definition buffer_ptr_deserialize :: "int \<Rightarrow> bytes option get" where
  "buffer_ptr_deserialize limit = get_and (buffer_deserialize limit) get_return"

text \<open>What reading makes of a buffer, and the block that is written for it.\<close>

definition canon_buffer :: "bytes option \<Rightarrow> bytes option" where
  "canon_buffer b = (if buffer_size b = 0 then None else b)"

definition enc_buffer :: "bytes option \<Rightarrow> bytes" where
  "enc_buffer b = enc_int 4 (int (buffer_size b)) @ buffer_bytes b"

definition valid_buffer :: "int \<Rightarrow> bytes option \<Rightarrow> bool" where
  "valid_buffer limit b \<longleftrightarrow> int (buffer_size b) \<le> limit \<and> int (buffer_size b) < 2 ^ 31"

lemma buffer_size_simps [simp]: "buffer_size None = 0" "buffer_size (Some bs) = length bs"
  by (simp_all add: buffer_size_def)

lemma buffer_bytes_simps [simp]: "buffer_bytes None = []" "buffer_bytes (Some bs) = bs"
  by (simp_all add: buffer_bytes_def)

lemma length_buffer_bytes [simp]: "length (buffer_bytes b) = buffer_size b"
  by (cases b) simp_all

lemma buffer_bytes_empty_iff [simp]: "buffer_bytes b = [] \<longleftrightarrow> buffer_size b = 0"
  by (cases b) simp_all

lemma canon_buffer_bytes [simp]: "buffer_bytes (canon_buffer b) = buffer_bytes b"
  by (cases b) (auto simp: canon_buffer_def)

lemma buffer_serialize_enc: "buffer_serialize b = fwrite (enc_buffer b)"
proof (cases "buffer_size b = 0")
  case True
  then show ?thesis
    by (intro ext) (auto simp: buffer_serialize_def enc_buffer_def put_and_def fwrite_def)
next
  case False
  then show ?thesis
    by (simp add: buffer_serialize_def enc_buffer_def put_and_fwrite)
qed

lemma buffer_deserialize_enc:
  assumes "valid_buffer limit b"
  shows "buffer_deserialize limit (enc_buffer b @ rest) = Some (canon_buffer b, rest)"
proof -
  have "fits 4 (int (buffer_size b))" using assms by (simp add: fits_def valid_buffer_def)
  then have "buffer_deserialize limit (enc_buffer b @ rest) =
      (if buffer_size b = 0 then Some (None, rest)
       else get_and (fread (buffer_size b)) (\<lambda>bs. get_return (Some bs)) (buffer_bytes b @ rest))"
    using assms by (simp add: buffer_deserialize_def enc_buffer_def base.get_and_enc valid_buffer_def)
  then show ?thesis
    by (cases b) (simp_all add: canon_buffer_def codec_simps get_return_def)
qed

interpretation buffer: codec buffer_serialize "buffer_deserialize limit" enc_buffer
    "valid_buffer limit" canon_buffer
  by unfold_locales (simp_all add: buffer_serialize_enc buffer_deserialize_enc)

interpretation buffer_ptr: codec buffer_ptr_serialize "buffer_ptr_deserialize limit" enc_buffer
    "valid_buffer limit" canon_buffer
  by unfold_locales
    (simp_all add: buffer_ptr_serialize_def buffer_ptr_deserialize_def buffer_serialize_enc
      buffer.get_and_enc get_return_def)

subsection \<open>Copying and setting\<close>

text \<open>
  \<open>BPT_SETTER(target, new_buffer, limit)\<close>: a null pointer (or a pointer to a null buffer)
  clears the target, a value over the limit is refused, anything else is copied. The GNU
  library's \<open>realloc(p, 0)\<close> frees a non-null \<open>p\<close> and returns null, and allocates when \<open>p\<close>
  is null.
\<close>

definition bpt_setter :: "bytes option \<Rightarrow> bytes option \<Rightarrow> nat \<Rightarrow> bytes option \<times> bool" where
  "bpt_setter target new_buffer limit =
     (case new_buffer of
        None \<Rightarrow> (None, True)
      | Some bs \<Rightarrow>
          if length bs > limit then (target, False)
          else if bs = [] \<and> target \<noteq> None then (None, True)
          else (Some bs, True))"

text \<open>\<open>buffer_ptr_cpy\<close>, \<open>buffer_ptr__cpy\<close>, \<open>buffer__ptr_cpy\<close>: \<open>malloc\<close> and copy.\<close>

definition buffer_ptr_cpy :: "bytes option \<Rightarrow> bytes option" where
  "buffer_ptr_cpy from = Some (buffer_bytes from)"

definition btoi :: "bytes \<Rightarrow> int" where
  "btoi s = (if length s \<ge> 21 then 0 else atoi (takeWhile (\<lambda>c. c \<noteq> CHR 0x00) s))"

lemma bpt_setter_bound:
  "buffer_size target \<le> limit \<Longrightarrow> buffer_size (fst (bpt_setter target b limit)) \<le> limit"
  by (auto simp: bpt_setter_def split: option.splits)

lemma bpt_setter_bytes:
  "snd (bpt_setter target b limit) \<Longrightarrow>
   buffer_bytes (fst (bpt_setter target b limit)) = buffer_bytes b"
  by (auto simp: bpt_setter_def split: option.splits if_splits)

lemma bpt_setter_refuses: 
  "snd (bpt_setter target b limit) \<longleftrightarrow> buffer_size b \<le> limit"
  by (auto simp: bpt_setter_def split: option.splits)

end
