(* ===== verification/Utss.thy ===== *)
theory Utss
  imports Buffer
begin

text \<open>
  \<^verbatim>\<open>src/utss.h\<close>: linked lists with a size and their serialization. The list macros themselves
  (\<open>DL_PREPEND\<close>, \<open>DL_APPEND\<close>, \<open>DL_DELETE\<close>) come from the \<open>uthash\<close> submodule, which is not part
  of the repository: they are a parameter \<open>U\<close> of every definition that uses them, and the
  locale \<open>utlist_laws\<close> states their documented behaviour.

  A list is the sequence of the addresses of its nodes in the order their \<open>next\<close> pointers
  link them (the order \<open>DL_FOREACH\<close> visits), with the contents of each node, so that a
  node keeps its identity when it is changed in place or moved to another list.
\<close>

subsection \<open>The interface of utlist\<close>

record utlist =
  dl_prepend :: "addr list \<Rightarrow> addr \<Rightarrow> addr list"
  dl_append :: "addr list \<Rightarrow> addr \<Rightarrow> addr list"
  dl_delete :: "addr list \<Rightarrow> addr \<Rightarrow> addr list"

locale utlist_laws =
  fixes U :: utlist
  assumes prepend: "a \<notin> set xs \<Longrightarrow> dl_prepend U xs a = a # xs"
    and append: "a \<notin> set xs \<Longrightarrow> dl_append U xs a = xs @ [a]"
    and delete: "distinct xs \<Longrightarrow> a \<in> set xs \<Longrightarrow> dl_delete U xs a = remove1 a xs"

definition utlist_ref :: utlist where
  "utlist_ref = \<lparr>dl_prepend = (\<lambda>xs a. a # xs), dl_append = (\<lambda>xs a. xs @ [a]),
                 dl_delete = (\<lambda>xs a. remove1 a xs)\<rparr>"

interpretation utlist_ref: utlist_laws utlist_ref
  by unfold_locales (simp_all add: utlist_ref_def)

subsection \<open>Lists with a size\<close>

record 'e dls =
  dls_head :: "addr list"
  dls_cell :: "addr \<Rightarrow> 'e"
  dls_size :: int
  dls_max_size :: int

text \<open>\<open>malloc\<close> returns an address that is not in use; 0 is the null pointer.\<close>

definition malloc_addr :: "addr list \<Rightarrow> addr" where
  "malloc_addr in_use = Suc (fold max in_use 0)"

definition dls_init :: "int \<Rightarrow> 'e \<Rightarrow> 'e dls" where
  "dls_init limit zeroed =
     \<lparr>dls_head = [], dls_cell = (\<lambda>_. zeroed), dls_size = 0, dls_max_size = limit\<rparr>"

definition dls_prepend :: "utlist \<Rightarrow> 'e dls \<Rightarrow> addr \<Rightarrow> 'e \<Rightarrow> 'e dls" where
  "dls_prepend U l a e =
     l\<lparr>dls_head := dl_prepend U (dls_head l) a, dls_cell := (dls_cell l)(a := e),
       dls_size := dls_size l + 1\<rparr>"

definition dls_append :: "utlist \<Rightarrow> 'e dls \<Rightarrow> addr \<Rightarrow> 'e \<Rightarrow> 'e dls" where
  "dls_append U l a e =
     l\<lparr>dls_head := dl_append U (dls_head l) a, dls_cell := (dls_cell l)(a := e),
       dls_size := dls_size l + 1\<rparr>"

definition dls_delete :: "utlist \<Rightarrow> 'e dls \<Rightarrow> addr \<Rightarrow> 'e dls" where
  "dls_delete U l a = l\<lparr>dls_head := dl_delete U (dls_head l) a, dls_size := dls_size l - 1\<rparr>"

definition dls_clear :: "utlist \<Rightarrow> 'e dls \<Rightarrow> 'e dls" where
  "dls_clear U l = fold (\<lambda>a l. dls_delete U l a) (dls_head l) l"

text \<open>A write through a pointer to a node, and a search in list order.\<close>

definition dls_update :: "'e dls \<Rightarrow> addr \<Rightarrow> ('e \<Rightarrow> 'e) \<Rightarrow> 'e dls" where
  "dls_update l a f = l\<lparr>dls_cell := (dls_cell l)(a := f (dls_cell l a))\<rparr>"

definition dls_find :: "('e \<Rightarrow> bool) \<Rightarrow> 'e dls \<Rightarrow> addr option" where
  "dls_find P l = find (\<lambda>a. P (dls_cell l a)) (dls_head l)"

definition dls_values :: "'e dls \<Rightarrow> 'e list" where
  "dls_values l = map (dls_cell l) (dls_head l)"

text \<open>The representation invariant, and the stronger one in which the size is exact.\<close>

definition dls_linked :: "'e dls \<Rightarrow> bool" where
  "dls_linked l \<longleftrightarrow> distinct (dls_head l)"

definition dls_wf :: "'e dls \<Rightarrow> bool" where
  "dls_wf l \<longleftrightarrow> distinct (dls_head l) \<and> dls_size l = int (length (dls_head l))"

lemma dls_wf_linked: "dls_wf l \<Longrightarrow> dls_linked l"
  by (simp add: dls_wf_def dls_linked_def)

lemma fold_max_ge: "a \<in> set xs \<Longrightarrow> a \<le> fold max xs (n::nat)"
proof (induction xs arbitrary: n)
  case Nil
  then show ?case by simp
next
  case (Cons x xs)
  have mono: "m \<le> fold max xs m" for m :: nat
  proof (induction xs arbitrary: m)
    case (Cons z zs)
    then have "max z m \<le> fold max zs (max z m)" by blast
    then show ?case by simp
  qed simp
  show ?case
  proof (cases "a = x")
    case True
    then show ?thesis using mono [of "max x n"] by simp
  next
    case False
    with Cons show ?thesis by simp
  qed
qed

lemma malloc_addr_fresh [simp]: "malloc_addr xs \<notin> set xs"
  using fold_max_ge [of "malloc_addr xs" xs 0] by (auto simp: malloc_addr_def)

lemma malloc_addr_not_null [simp]: "malloc_addr xs \<noteq> 0"
  by (simp add: malloc_addr_def)

lemma malloc_addr_fresh_append [simp]:
  "malloc_addr (xs @ ys) \<notin> set xs" "malloc_addr (xs @ ys) \<notin> set ys"
  using malloc_addr_fresh [of "xs @ ys"] by (auto simp del: malloc_addr_fresh)

lemma dls_init_simps [simp]:
  "dls_head (dls_init n z) = []" "dls_size (dls_init n z) = 0"
  "dls_max_size (dls_init n z) = n" "dls_values (dls_init n z) = []" "dls_wf (dls_init n z)"
  by (simp_all add: dls_init_def dls_values_def dls_wf_def)

lemma dls_update_simps [simp]:
  "dls_head (dls_update l a f) = dls_head l" "dls_size (dls_update l a f) = dls_size l"
  "dls_max_size (dls_update l a f) = dls_max_size l"
  "dls_cell (dls_update l a f) = (dls_cell l)(a := f (dls_cell l a))"
  "dls_wf (dls_update l a f) = dls_wf l" "dls_linked (dls_update l a f) = dls_linked l"
  by (simp_all add: dls_update_def dls_wf_def dls_linked_def)

lemma dls_size_simps [simp]:
  "dls_size (dls_prepend U l a e) = dls_size l + 1"
  "dls_size (dls_append U l a e) = dls_size l + 1"
  "dls_size (dls_delete U l a) = dls_size l - 1"
  "dls_max_size (dls_prepend U l a e) = dls_max_size l"
  "dls_max_size (dls_append U l a e) = dls_max_size l"
  "dls_max_size (dls_delete U l a) = dls_max_size l"
  by (simp_all add: dls_prepend_def dls_append_def dls_delete_def)

lemma dls_cell_simps [simp]:
  "dls_cell (dls_prepend U l a e) = (dls_cell l)(a := e)"
  "dls_cell (dls_append U l a e) = (dls_cell l)(a := e)"
  "dls_cell (dls_delete U l a) = dls_cell l"
  by (simp_all add: dls_prepend_def dls_append_def dls_delete_def)

lemma dls_find_Some:
  "dls_find P l = Some a \<Longrightarrow> a \<in> set (dls_head l) \<and> P (dls_cell l a)"
  unfolding dls_find_def by (drule find_Some_mem) simp

lemma dls_find_None: "dls_find P l = None \<longleftrightarrow> (\<forall>a \<in> set (dls_head l). \<not> P (dls_cell l a))"
  by (simp add: dls_find_def find_None_iff_all)

lemma length_dls_values [simp]: "length (dls_values l) = length (dls_head l)"
  by (simp add: dls_values_def)

lemma set_dls_values: "set (dls_values l) = dls_cell l ` set (dls_head l)"
  by (simp add: dls_values_def)

lemma dls_values_update_notin:
  "a \<notin> set (dls_head l) \<Longrightarrow> dls_values (dls_update l a f) = dls_values l"
  by (simp add: dls_values_def dls_update_def map_fun_upd_notin)

context utlist_laws
begin

lemma head_prepend [dls_simps]:
  "a \<notin> set (dls_head l) \<Longrightarrow> dls_head (dls_prepend U l a e) = a # dls_head l"
  by (simp add: dls_prepend_def prepend)

lemma head_append [dls_simps]:
  "a \<notin> set (dls_head l) \<Longrightarrow> dls_head (dls_append U l a e) = dls_head l @ [a]"
  by (simp add: dls_append_def append)

lemma head_delete [dls_simps]:
  "dls_linked l \<Longrightarrow> a \<in> set (dls_head l) \<Longrightarrow> dls_head (dls_delete U l a) = remove1 a (dls_head l)"
  by (simp add: dls_delete_def dls_linked_def delete)

lemma values_prepend:
  "a \<notin> set (dls_head l) \<Longrightarrow> dls_values (dls_prepend U l a e) = e # dls_values l"
  by (simp add: dls_values_def head_prepend map_fun_upd_notin)

lemma values_append:
  "a \<notin> set (dls_head l) \<Longrightarrow> dls_values (dls_append U l a e) = dls_values l @ [e]"
  by (simp add: dls_values_def head_append map_fun_upd_notin)

lemma values_delete_head:
  "dls_linked l \<Longrightarrow> dls_head l = a # as \<Longrightarrow> dls_values (dls_delete U l a) = tl (dls_values l)"
  by (simp add: dls_values_def head_delete)

lemma set_head_delete:
  "dls_linked l \<Longrightarrow> a \<in> set (dls_head l) \<Longrightarrow>
   set (dls_head (dls_delete U l a)) = set (dls_head l) - {a}"
  by (simp add: head_delete dls_linked_def)

lemma wf_prepend: "dls_wf l \<Longrightarrow> a \<notin> set (dls_head l) \<Longrightarrow> dls_wf (dls_prepend U l a e)"
  by (simp add: dls_wf_def head_prepend)

lemma wf_append: "dls_wf l \<Longrightarrow> a \<notin> set (dls_head l) \<Longrightarrow> dls_wf (dls_append U l a e)"
  by (simp add: dls_wf_def head_append)

lemma wf_delete:
  assumes "dls_wf l" and "a \<in> set (dls_head l)"
  shows "dls_wf (dls_delete U l a)"
proof -
  from assms(2) have "1 \<le> length (dls_head l)" by (cases "dls_head l") auto
  with assms show ?thesis
    by (simp add: dls_wf_def dls_linked_def head_delete length_remove1 of_nat_diff)
qed

lemma fold_delete:
  "distinct xs \<Longrightarrow> dls_head l = xs \<Longrightarrow>
   dls_head (fold (\<lambda>a l. dls_delete U l a) xs l) = [] \<and>
   dls_size (fold (\<lambda>a l. dls_delete U l a) xs l) = dls_size l - int (length xs)"
  by (induction xs arbitrary: l) (simp_all add: head_delete dls_linked_def)

lemma clear_empties:
  "dls_linked l \<Longrightarrow> dls_head (dls_clear U l) = [] \<and>
   dls_size (dls_clear U l) = dls_size l - int (length (dls_head l))"
  by (simp add: dls_clear_def fold_delete dls_linked_def)

lemma linked_append: "dls_linked l \<Longrightarrow> a \<notin> set (dls_head l) \<Longrightarrow> dls_linked (dls_append U l a e)"
  by (simp add: dls_linked_def head_append)

lemma linked_prepend: "dls_linked l \<Longrightarrow> a \<notin> set (dls_head l) \<Longrightarrow> dls_linked (dls_prepend U l a e)"
  by (simp add: dls_linked_def head_prepend)

lemma linked_delete: "dls_linked l \<Longrightarrow> a \<in> set (dls_head l) \<Longrightarrow> dls_linked (dls_delete U l a)"
  by (simp add: dls_linked_def head_delete)

end

subsection \<open>Serialization of a container\<close>

definition mark_put :: "bool \<Rightarrow> put" where
  "mark_put present = serialize_base 8 (if present then 1 else 0)"

fun container_serialize_from :: "('e \<Rightarrow> put) \<Rightarrow> int \<Rightarrow> int \<Rightarrow> 'e list \<Rightarrow> put" where
  "container_serialize_from entry max_size n [] = mark_put False"
| "container_serialize_from entry max_size n (x # xs) =
     (if n + 1 > max_size then mark_put False
      else put_and (put_and (mark_put True) (entry x))
             (container_serialize_from entry max_size (n + 1) xs))"

definition container_serialize :: "('e \<Rightarrow> put) \<Rightarrow> 'e dls \<Rightarrow> put" where
  "container_serialize entry l = container_serialize_from entry (dls_max_size l) 0 (dls_values l)"

text \<open>
  The reader's loop. The size is incremented twice for each item: once by the loop's own
  guard and once by the setter (\<open>DLS_APPEND\<close>); the guard compares it with twice the limit.
\<close>

function container_deserialize_loop ::
  "utlist \<Rightarrow> 'e get \<Rightarrow> 'e dls \<Rightarrow> bytes \<Rightarrow> ('e dls \<times> bytes) option" where
  "container_deserialize_loop U entry l f =
     (let l1 = l\<lparr>dls_size := dls_size l + 1\<rparr> in
      if dls_size l1 > dls_max_size l1 * 2 then None
      else case entry f of
          None \<Rightarrow> None
        | Some (x, f1) \<Rightarrow>
            (case deserialize_base 8 f1 of
               None \<Rightarrow> None
             | Some (mark, f2) \<Rightarrow>
                 (let l2 = dls_append U l1 (malloc_addr (dls_head l1)) x in
                  if mark \<noteq> 0 then container_deserialize_loop U entry l2 f2
                  else Some (l2, f2))))"
  by pat_completeness auto
termination
  by (relation "measure (\<lambda>(U, entry, l, f). nat (dls_max_size l * 2 + 1 - dls_size l))") auto

declare container_deserialize_loop.simps [simp del]

definition container_deserialize ::
  "utlist \<Rightarrow> 'e get \<Rightarrow> 'e dls \<Rightarrow> bytes \<Rightarrow> ('e dls \<times> bytes) option" where
  "container_deserialize U entry l =
     get_and (deserialize_base 8) (\<lambda>mark f.
       if mark = 0 then Some (l, f)
       else container_deserialize_loop U entry (l\<lparr>dls_head := [], dls_size := 0\<rparr>) f)"

definition enc_mark :: "bool \<Rightarrow> bytes" where
  "enc_mark present = enc_int 8 (if present then 1 else 0)"

definition enc_container :: "('e \<Rightarrow> bytes) \<Rightarrow> 'e list \<Rightarrow> bytes" where
  "enc_container enc xs = concat (map (\<lambda>x. enc_mark True @ enc x) xs) @ enc_mark False"

lemma enc_container_simps [simp]:
  "enc_container enc [] = enc_mark False"
  "enc_container enc (x # xs) = enc_mark True @ enc x @ enc_container enc xs"
  by (simp_all add: enc_container_def)

lemma mark_put_enc: "mark_put p = fwrite (enc_mark p)"
  by (simp add: mark_put_def enc_mark_def serialize_base_def)

lemma get_mark: "deserialize_base 8 (enc_mark p @ rest) = Some (if p then 1 else 0, rest)"
  by (simp add: enc_mark_def base.get_enc fits_def)

text \<open>
  What reading makes of a container: the items appended one by one, each counted twice; a
  container that was empty is left as it is.
\<close>

primrec dls_load :: "utlist \<Rightarrow> 'e list \<Rightarrow> 'e dls \<Rightarrow> 'e dls" where
  "dls_load U [] l = l"
| "dls_load U (x # xs) l =
     dls_load U xs (dls_append U (l\<lparr>dls_size := dls_size l + 1\<rparr>) (malloc_addr (dls_head l)) x)"

definition container_load :: "utlist \<Rightarrow> 'e list \<Rightarrow> 'e dls \<Rightarrow> 'e dls" where
  "container_load U xs l =
     (if xs = [] then l else dls_load U xs (l\<lparr>dls_head := [], dls_size := 0\<rparr>))"

lemma dls_load_sizes [simp]:
  "dls_size (dls_load U xs l) = dls_size l + 2 * int (length xs)"
  "dls_max_size (dls_load U xs l) = dls_max_size l"
  by (induction xs arbitrary: l) simp_all

lemma container_load_max_size [simp]: "dls_max_size (container_load U xs l) = dls_max_size l"
  by (simp add: container_load_def)

lemma container_load_size:
  "dls_size l = 0 \<Longrightarrow> dls_size (container_load U xs l) = 2 * int (length xs)"
  by (simp add: container_load_def)

context utlist_laws
begin

lemma dls_load_values:
  "dls_linked l \<Longrightarrow>
   dls_values (dls_load U xs l) = dls_values l @ xs \<and> dls_linked (dls_load U xs l)"
proof (induction xs arbitrary: l)
  case Nil
  then show ?case by simp
next
  case (Cons x xs)
  let ?l1 = "l\<lparr>dls_size := dls_size l + 1\<rparr>"
  let ?l2 = "dls_append U ?l1 (malloc_addr (dls_head l)) x"
  have "dls_values ?l1 = dls_values l" by (simp add: dls_values_def)
  then have "dls_values ?l2 = dls_values l @ [x]" by (simp add: values_append)
  moreover have "dls_linked ?l2"
    using Cons.prems by (intro linked_append) (simp_all add: dls_linked_def)
  ultimately show ?case using Cons.IH [of ?l2] by simp
qed

lemma container_load_values:
  "dls_head l = [] \<Longrightarrow> dls_values (container_load U xs l) = xs \<and> dls_linked (container_load U xs l)"
  using dls_load_values [of "l\<lparr>dls_head := [], dls_size := 0\<rparr>" xs]
  by (auto simp: container_load_def dls_linked_def dls_values_def)

end

definition dls_saved :: "'e dls \<Rightarrow> 'e list" where
  "dls_saved l = take (nat (dls_max_size l)) (dls_values l)"

lemma dls_saved_length: "dls_saved l \<noteq> [] \<Longrightarrow> int (length (dls_saved l)) \<le> dls_max_size l"
  by (cases "0 < dls_max_size l") (auto simp: dls_saved_def)

context codec
begin

lemma container_serialize_from_enc:
  "container_serialize_from put m n xs = fwrite (enc_container enc (take (nat (m - n)) xs))"
proof (induction xs arbitrary: n)
  case Nil
  show ?case by (simp add: mark_put_enc)
next
  case (Cons x xs)
  show ?case
  proof (cases "n + 1 > m")
    case True
    then show ?thesis by (simp add: mark_put_enc)
  next
    case False
    then have "nat (m - n) = Suc (nat (m - (n + 1)))" by simp
    with False Cons.IH show ?thesis by (simp add: mark_put_enc put_enc put_and_fwrite)
  qed
qed

lemma container_serialize_enc:
  "container_serialize put l = fwrite (enc_container enc (take (nat (dls_max_size l)) (dls_values l)))"
  by (simp add: container_serialize_def container_serialize_from_enc)

text \<open>The loop appends what was written, and counts every item twice.\<close>

lemma container_deserialize_loop_enc:
  "\<forall>y \<in> set (x # xs). valid y \<Longrightarrow>
    dls_size l + 2 * int (length (x # xs)) \<le> 2 * dls_max_size l \<Longrightarrow>
    container_deserialize_loop U get l (enc x @ enc_container enc xs @ rest) =
      Some (dls_load U (map canon (x # xs)) l, rest)"
proof (induction xs arbitrary: l x)
  case Nil
  then show ?case by (subst container_deserialize_loop.simps) (simp add: get_enc get_mark)
next
  case (Cons y ys)
  let ?l2 = "dls_append U (l\<lparr>dls_size := dls_size l + 1\<rparr>) (malloc_addr (dls_head l)) (canon x)"
  have "container_deserialize_loop U get ?l2 (enc y @ enc_container enc ys @ rest) =
      Some (dls_load U (map canon (y # ys)) ?l2, rest)"
    using Cons.prems by (intro Cons.IH) auto
  moreover have "container_deserialize_loop U get l (enc x @ enc_container enc (y # ys) @ rest) =
      container_deserialize_loop U get ?l2 (enc y @ enc_container enc ys @ rest)"
    using Cons.prems
    by (subst container_deserialize_loop.simps) (simp add: get_enc get_mark)
  ultimately show ?case by simp
qed

lemma container_deserialize_enc:
  assumes "\<forall>y \<in> set xs. valid y" and "xs \<noteq> [] \<Longrightarrow> int (length xs) \<le> dls_max_size l"
  shows "container_deserialize U get l (enc_container enc xs @ rest) =
    Some (container_load U (map canon xs) l, rest)"
proof (cases xs)
  case Nil
  then show ?thesis
    by (simp add: container_deserialize_def get_and_def get_mark container_load_def)
next
  case (Cons y ys)
  let ?l = "l\<lparr>dls_head := [], dls_size := 0\<rparr>"
  have "container_deserialize U get l (enc_container enc xs @ rest) =
      container_deserialize_loop U get ?l (enc y @ enc_container enc ys @ rest)"
    by (simp add: container_deserialize_def get_and_def get_mark Cons)
  also have "\<dots> = Some (dls_load U (map canon (y # ys)) ?l, rest)"
    using assms by (intro container_deserialize_loop_enc) (simp_all add: Cons)
  finally show ?thesis by (simp add: container_load_def Cons)
qed

text \<open>The items that are written, and the reading of a container inside a larger record.\<close>

lemma container_serialize_saved:
  "container_serialize put l = fwrite (enc_container enc (dls_saved l))"
  by (simp add: container_serialize_enc dls_saved_def)

lemma get_and_container:
  assumes "\<forall>y \<in> set xs. valid y" and "xs \<noteq> [] \<Longrightarrow> int (length xs) \<le> dls_max_size l"
  shows "get_and (container_deserialize U get l) q (enc_container enc xs @ rest) =
    q (container_load U (map canon xs) l) rest"
  by (simp add: get_and_def container_deserialize_enc [OF assms])

end

end
