(* ===== verification/Jid.thy ===== *)
theory Jid
  imports Buffer
begin

unbundle bit_operations_syntax

text \<open>
  \<^verbatim>\<open>src/jid.h\<close> and \<^verbatim>\<open>src/jid.c\<close>: parsing, comparing, copying and serializing addresses.

  The three parts of a \<open>Jid\<close> are pointers into one block \<open>[node@]host[/resource]\<close>; every
  address is laid out so, because it is made by \<open>jid_struct\<close> from such a block or by
  \<open>jid_set\<close>. The model keeps the contents of each part (\<open>None\<close> for a null pointer).
\<close>

record jid =
  jid_node :: "bytes option"
  jid_host :: "bytes option"
  jid_resource :: "bytes option"

abbreviation MAX_JID_PART_SIZE :: nat where "MAX_JID_PART_SIZE \<equiv> 1023"
abbreviation MAX_JID_SIZE :: nat where "MAX_JID_SIZE \<equiv> MAX_JID_PART_SIZE * 3 + 2"

abbreviation JID_NODE :: nat where "JID_NODE \<equiv> 1"
abbreviation JID_HOST :: nat where "JID_HOST \<equiv> 2"
abbreviation JID_RESOURCE :: nat where "JID_RESOURCE \<equiv> 4"
abbreviation JID_FULL :: nat where "JID_FULL \<equiv> 7"
abbreviation JID_BARE :: nat where "JID_BARE \<equiv> 3"       \<comment> \<open>\<open>JID_NODE | JID_HOST\<close>\<close>
abbreviation JID_CMP_NULLWC :: nat where "JID_CMP_NULLWC \<equiv> 8"
abbreviation JID_FULL_NULLWC :: nat where "JID_FULL_NULLWC \<equiv> 15"

definition jid_init :: jid where
  "jid_init = \<lparr>jid_node = None, jid_host = None, jid_resource = None\<rparr>"

definition jid_empty :: "jid \<Rightarrow> bool" where
  "jid_empty j \<longleftrightarrow> jid_host j = None"

subsection \<open>Parsing\<close>

text \<open>
  The loop of \<open>jid_struct\<close>: the characters left, whether the node part is still possible
  (\<open>part == JID_NODE\<close>), the characters since \<open>part_start\<close>, and the parts set so far.
\<close>

fun jid_scan :: "bytes \<Rightarrow> bool \<Rightarrow> bytes \<Rightarrow> jid \<Rightarrow> jid" where
  "jid_scan [] in_node acc j = j\<lparr>jid_host := Some acc\<rparr>"
| "jid_scan (c # cs) in_node acc j =
     (if in_node \<and> c = CHR ''@'' then jid_scan cs False [] (j\<lparr>jid_node := Some acc\<rparr>)
      else if c = CHR ''/'' then j\<lparr>jid_host := Some acc, jid_resource := Some cs\<rparr>
      else jid_scan cs in_node (acc @ [c]) j)"

definition jid_struct :: "bytes option \<Rightarrow> bool \<times> jid" where
  "jid_struct s =
     (let j = (case s of None \<Rightarrow> jid_init | Some cs \<Rightarrow> jid_scan cs True [] jid_init)
      in (\<not> (buffer_size (jid_host j) = 0 \<or>
             buffer_size (jid_host j) > MAX_JID_PART_SIZE \<or>
             buffer_size (jid_node j) > MAX_JID_PART_SIZE \<or>
             buffer_size (jid_resource j) > MAX_JID_PART_SIZE), j))"

text \<open>The text of an address, from \<open>JID_STR\<close> of length \<open>JID_LEN\<close>.\<close>

definition jid_str :: "jid \<Rightarrow> bytes" where
  "jid_str j =
     (case jid_node j of None \<Rightarrow> [] | Some n \<Rightarrow> n @ ''@'') @ buffer_bytes (jid_host j) @
     (if buffer_size (jid_resource j) = 0 then [] else ''/'' @ buffer_bytes (jid_resource j))"

subsection \<open>Comparing\<close>

definition jid_cmp :: "jid \<Rightarrow> jid \<Rightarrow> nat \<Rightarrow> int" where
  "jid_cmp j1 j2 mode =
     (if mode AND JID_NODE \<noteq> 0 \<and> (jid_node j1 \<noteq> None \<or> mode AND JID_CMP_NULLWC = 0) \<and>
         ((jid_node j1 = None) \<noteq> (jid_node j2 = None) \<or>
          buffer_size (jid_node j1) \<noteq> buffer_size (jid_node j2) \<or>
          \<not> strncasecmp_eq (buffer_bytes (jid_node j1)) (buffer_bytes (jid_node j2))
              (buffer_size (jid_node j1))) then 1
      else if mode AND JID_HOST \<noteq> 0 \<and>
         (buffer_size (jid_host j1) \<noteq> buffer_size (jid_host j2) \<or>
          \<not> strncasecmp_eq (buffer_bytes (jid_host j1)) (buffer_bytes (jid_host j2))
              (buffer_size (jid_host j1))) then 1
      else if mode AND JID_RESOURCE \<noteq> 0 \<and> (jid_resource j1 \<noteq> None \<or> mode AND JID_CMP_NULLWC = 0) \<and>
         ((jid_resource j1 = None) \<noteq> (jid_resource j2 = None) \<or>
          buffer_size (jid_resource j1) \<noteq> buffer_size (jid_resource j2) \<or>
          buffer_bytes (jid_resource j1) \<noteq> buffer_bytes (jid_resource j2)) then 1
      else 0)"

definition jid_strcmp :: "jid \<Rightarrow> bytes option \<Rightarrow> nat \<Rightarrow> bool" where
  \<comment> \<open>whether the result is not 0\<close>
  "jid_strcmp j str part =
     (if part \<noteq> JID_NODE \<and> part \<noteq> JID_HOST \<and> part \<noteq> JID_RESOURCE then True
      else let local = (if part = JID_NODE then jid_node j
                        else if part = JID_HOST then jid_host j else jid_resource j)
        in case str of
             None \<Rightarrow> local = None
           | Some s \<Rightarrow>
               if buffer_size local = length s
               then \<not> strncasecmp_eq (buffer_bytes local) s (length s)
               else True)"

subsection \<open>Copying and serializing\<close>

definition jid_set :: "jid \<Rightarrow> jid \<Rightarrow> nat \<Rightarrow> jid" where
  "jid_set dst src parts =
     (let node_on = (parts AND JID_NODE \<noteq> 0 \<and> buffer_size (jid_node src) \<noteq> 0);
          resource_on = (parts AND JID_RESOURCE \<noteq> 0 \<and> buffer_size (jid_resource src) \<noteq> 0);
          empty = (\<not> node_on \<and> buffer_size (jid_host src) = 0 \<and> \<not> resource_on);
          dst_null = (jid_node dst = None \<and> jid_host dst = None)
      in \<lparr>jid_node = (if node_on then Some (buffer_bytes (jid_node src)) else None),
          jid_host = (if empty \<and> \<not> dst_null then None else Some (buffer_bytes (jid_host src))),
          jid_resource = (if resource_on then Some (buffer_bytes (jid_resource src)) else None)\<rparr>)"

definition jid_buffer :: "jid \<Rightarrow> bytes option" where
  "jid_buffer j = (if jid_node j = None \<and> jid_host j = None then None else Some (jid_str j))"

definition jid_serialize :: "jid \<Rightarrow> put" where
  "jid_serialize j = buffer_ptr_serialize (jid_buffer j)"

definition jid_deserialize :: "jid get" where
  "jid_deserialize =
     get_and (buffer_ptr_deserialize (int MAX_JID_SIZE))
       (\<lambda>b f. case jid_struct b of (ok, j) \<Rightarrow> if ok then Some (j, f) else None)"

subsection \<open>Well-formed addresses\<close>

text \<open>
  What \<open>jid_struct\<close> accepts: a host that is not empty, every part within the limit, and the
  separators where the text can be split only in one way.
\<close>

definition jid_wf :: "jid \<Rightarrow> bool" where
  "jid_wf j \<longleftrightarrow>
     (\<exists>h. jid_host j = Some h \<and> h \<noteq> [] \<and> length h \<le> MAX_JID_PART_SIZE \<and> CHR ''/'' \<notin> set h \<and>
          (jid_node j = None \<longrightarrow> CHR ''@'' \<notin> set h)) \<and>
     (\<forall>n. jid_node j = Some n \<longrightarrow> length n \<le> MAX_JID_PART_SIZE \<and> CHR ''@'' \<notin> set n \<and> CHR ''/'' \<notin> set n) \<and>
     buffer_size (jid_resource j) \<le> MAX_JID_PART_SIZE"

definition jid_canon :: "jid \<Rightarrow> jid" where
  "jid_canon j = j\<lparr>jid_resource := canon_buffer (jid_resource j)\<rparr>"

lemma jid_scan_plain:
  "CHR ''/'' \<notin> set cs \<Longrightarrow> (in_node \<Longrightarrow> CHR ''@'' \<notin> set cs) \<Longrightarrow>
   jid_scan (cs @ rest) in_node acc j = jid_scan rest in_node (acc @ cs) j"
proof (induction cs arbitrary: acc)
  case Nil
  show ?case by simp
next
  case (Cons c cs)
  have "c \<noteq> CHR ''/''" and "\<not> (in_node \<and> c = CHR ''@'')" using Cons.prems by auto
  then have "jid_scan ((c # cs) @ rest) in_node acc j = jid_scan (cs @ rest) in_node (acc @ [c]) j"
    by (simp only: append_Cons jid_scan.simps if_False if_not_P)
  also have "\<dots> = jid_scan rest in_node ((acc @ [c]) @ cs) j"
    using Cons.prems by (intro Cons.IH) auto
  finally show ?case by simp
qed

lemma jid_scan_all_plain:
  "CHR ''/'' \<notin> set cs \<Longrightarrow> (in_node \<Longrightarrow> CHR ''@'' \<notin> set cs) \<Longrightarrow>
   jid_scan cs in_node acc j = j\<lparr>jid_host := Some (acc @ cs)\<rparr>"
  using jid_scan_plain [of cs in_node "[]" acc j] by simp

lemma jid_scan_str:
  assumes "jid_wf j"
  shows "jid_scan (jid_str j) True [] jid_init = jid_canon j"
proof -
  obtain h where h: "jid_host j = Some h" "CHR ''/'' \<notin> set h"
    "jid_node j = None \<longrightarrow> CHR ''@'' \<notin> set h"
    using assms by (auto simp: jid_wf_def)
  define r where "r = (if buffer_size (jid_resource j) = 0 then [] else ''/'' @ buffer_bytes (jid_resource j))"
  have host: "jid_scan (h @ r) in_node [] i = i\<lparr>jid_host := Some h,
      jid_resource := (if r = [] then jid_resource i else Some (buffer_bytes (jid_resource j)))\<rparr>"
    if "in_node \<Longrightarrow> CHR ''@'' \<notin> set h" for in_node i
    using that h by (simp add: jid_scan_plain jid_scan_all_plain r_def)
  show ?thesis
  proof (cases "jid_node j")
    case None
    then have "jid_str j = h @ r" by (simp add: jid_str_def h r_def)
    with None h host [of True jid_init] show ?thesis
      by (cases j; cases "jid_resource j") (auto simp: jid_init_def jid_canon_def canon_buffer_def r_def)
  next
    case (Some n)
    then have "CHR ''@'' \<notin> set n" "CHR ''/'' \<notin> set n" using assms by (auto simp: jid_wf_def)
    then have "jid_scan (jid_str j) True [] jid_init =
        jid_scan (h @ r) False [] (jid_init\<lparr>jid_node := Some n\<rparr>)"
      by (simp add: jid_str_def Some h r_def jid_scan_plain)
    with Some h host [of False "jid_init\<lparr>jid_node := Some n\<rparr>"] show ?thesis
      by (cases j; cases "jid_resource j") (auto simp: jid_init_def jid_canon_def canon_buffer_def r_def)
  qed
qed

lemma jid_scan_spec:
  assumes "CHR ''/'' \<notin> set acc" and "in_node \<Longrightarrow> CHR ''@'' \<notin> set acc"
    and "jid_node j0 = None \<longleftrightarrow> in_node" and "jid_resource j0 = None"
    and "\<forall>n. jid_node j0 = Some n \<longrightarrow> CHR ''@'' \<notin> set n \<and> CHR ''/'' \<notin> set n"
    and "jid_scan cs in_node acc j0 = j"
  shows "(\<exists>h. jid_host j = Some h \<and> CHR ''/'' \<notin> set h \<and> (jid_node j = None \<longrightarrow> CHR ''@'' \<notin> set h)) \<and>
    (\<forall>n. jid_node j = Some n \<longrightarrow> CHR ''@'' \<notin> set n \<and> CHR ''/'' \<notin> set n) \<and>
    (case jid_node j0 of None \<Rightarrow> [] | Some n \<Rightarrow> n @ ''@'') @ acc @ cs =
      (case jid_node j of None \<Rightarrow> [] | Some n \<Rightarrow> n @ ''@'') @ buffer_bytes (jid_host j) @
      (case jid_resource j of None \<Rightarrow> [] | Some r \<Rightarrow> ''/'' @ r)"
  using assms
proof (induction cs in_node acc j0 rule: jid_scan.induct)
  case (1 in_node acc j0)
  then show ?case by auto
next
  case (2 c cs in_node acc j0)
  consider (at) "in_node" "c = CHR ''@''" | (slash) "\<not> (in_node \<and> c = CHR ''@'')" "c = CHR ''/''"
    | (plain) "\<not> (in_node \<and> c = CHR ''@'')" "c \<noteq> CHR ''/''" by blast
  then show ?case
  proof cases
    case at
    then have eq: "jid_scan (c # cs) in_node acc j0 = jid_scan cs False [] (j0\<lparr>jid_node := Some acc\<rparr>)"
      by simp
    have node: "jid_node j0 = None" using at(1) 2(5) by simp
    have "jid_scan cs False [] (j0\<lparr>jid_node := Some acc\<rparr>) = j" using 2(8) eq by simp
    from 2(1) [OF conjI [OF at] _ _ _ _ _ this] at node 2(3,4,6) show ?thesis by simp
  next
    case slash
    have "jid_scan (c # cs) in_node acc j0 = j0\<lparr>jid_host := Some acc, jid_resource := Some cs\<rparr>"
      using slash by (simp only: jid_scan.simps if_not_P if_P if_False if_True)
    then have "j = j0\<lparr>jid_host := Some acc, jid_resource := Some cs\<rparr>" using 2(8) by simp
    then show ?thesis using slash(2) 2(3-7) by simp
  next
    case plain
    have eq: "jid_scan (c # cs) in_node acc j0 = jid_scan cs in_node (acc @ [c]) j0"
      using plain by (simp only: jid_scan.simps if_not_P if_False)
    have "CHR ''/'' \<notin> set (acc @ [c])" "in_node \<Longrightarrow> CHR ''@'' \<notin> set (acc @ [c])"
      using plain 2(3,4) by auto
    from 2(2) [OF plain this 2(5-7)] 2(8) eq show ?thesis by simp
  qed
qed

lemma jid_struct_wf: 
  assumes "jid_struct s = (True, j)"
  shows "jid_wf j"
proof -
  from assms obtain cs where s: "s = Some cs" and j: "j = jid_scan cs True [] jid_init"
    by (cases s) (auto simp: jid_struct_def jid_init_def Let_def)
  have "(\<exists>h. jid_host j = Some h \<and> CHR ''/'' \<notin> set h \<and> (jid_node j = None \<longrightarrow> CHR ''@'' \<notin> set h)) \<and>
    (\<forall>n. jid_node j = Some n \<longrightarrow> CHR ''@'' \<notin> set n \<and> CHR ''/'' \<notin> set n)"
    using jid_scan_spec [of "[]" True jid_init cs j] by (simp add: jid_init_def j)
  then show ?thesis
    using assms s j by (auto simp: jid_wf_def jid_struct_def Let_def not_less)
qed

lemma jid_wf_canon: "jid_wf j \<Longrightarrow> jid_wf (jid_canon j)"
  by (cases "jid_resource j") (auto simp: jid_wf_def jid_canon_def canon_buffer_def)

lemma jid_struct_text:
  assumes "jid_struct (Some cs) = (True, j)"
  shows "jid_str j = (if jid_resource j = Some [] then butlast cs else cs)"
proof -
  have j: "j = jid_scan cs True [] jid_init" using assms by (simp add: jid_struct_def Let_def)
  have "cs = (case jid_node j of None \<Rightarrow> [] | Some n \<Rightarrow> n @ ''@'') @ buffer_bytes (jid_host j) @
      (case jid_resource j of None \<Rightarrow> [] | Some r \<Rightarrow> ''/'' @ r)"
    using jid_scan_spec [of "[]" True jid_init cs j] by (simp add: jid_init_def j)
  then show ?thesis
    by (cases "jid_resource j"; cases "jid_node j") (auto simp: jid_str_def butlast_append)
qed

lemma length_jid_str: "jid_wf j \<Longrightarrow> length (jid_str j) \<le> MAX_JID_SIZE"
  by (cases "jid_node j") (auto simp: jid_wf_def jid_str_def)

lemma jid_wf_canon_sizes:
  assumes "jid_wf j"
  shows "fst (jid_struct (Some (jid_str j)))"
  using jid_wf_canon [OF assms]
  by (cases "jid_node j")
    (auto simp: jid_struct_def jid_scan_str [OF assms] jid_wf_def jid_canon_def not_less)

lemma jid_struct_str: "jid_wf j \<Longrightarrow> jid_struct (Some (jid_str j)) = (True, jid_canon j)"
  using jid_wf_canon_sizes [of j] by (simp add: jid_struct_def jid_scan_str Let_def)

interpretation jid_codec: codec jid_serialize jid_deserialize
    "\<lambda>j. enc_buffer (jid_buffer j)" jid_wf jid_canon
proof
  show "jid_serialize x = fwrite (enc_buffer (jid_buffer x))" for x
    by (simp add: jid_serialize_def buffer_ptr.put_enc)
  fix x rest
  assume wf: "jid_wf x"
  then have b: "jid_buffer x = Some (jid_str x)" by (auto simp: jid_buffer_def jid_wf_def)
  have ne: "jid_str x \<noteq> []" using wf by (auto simp: jid_wf_def jid_str_def)
  have "valid_buffer (int MAX_JID_SIZE) (Some (jid_str x))"
    using length_jid_str [OF wf] by (simp add: valid_buffer_def)
  then show "jid_deserialize (enc_buffer (jid_buffer x) @ rest) = Some (jid_canon x, rest)"
    unfolding jid_deserialize_def b
    by (subst buffer_ptr.get_and_enc) (simp_all add: jid_struct_str [OF wf] ne canon_buffer_def)
qed

subsection \<open>Comparison is equality of keys\<close>

definition lower :: "bytes \<Rightarrow> bytes" where
  "lower = map tolower"

definition jid_nul_free :: "jid \<Rightarrow> bool" where
  "jid_nul_free j \<longleftrightarrow> nul_free (buffer_bytes (jid_node j)) \<and> nul_free (buffer_bytes (jid_host j))"

definition same_node :: "jid \<Rightarrow> jid \<Rightarrow> bool" where
  "same_node j1 j2 \<longleftrightarrow> map_option lower (jid_node j1) = map_option lower (jid_node j2)"

definition same_host :: "jid \<Rightarrow> jid \<Rightarrow> bool" where
  "same_host j1 j2 \<longleftrightarrow> lower (buffer_bytes (jid_host j1)) = lower (buffer_bytes (jid_host j2))"

lemma lower_length: "lower xs = lower ys \<Longrightarrow> length xs = length ys"
  unfolding lower_def by (rule map_eq_imp_length_eq)

lemma strncasecmp_eq_iff_lower:
  "nul_free xs \<Longrightarrow>
   length xs = length ys \<and> strncasecmp_eq xs ys (length xs) \<longleftrightarrow> lower xs = lower ys"
  using strncasecmp_eq_lower [of xs ys] lower_length [of xs ys] by (auto simp: lower_def)

lemma ci_differs:
  "nul_free (buffer_bytes a) \<Longrightarrow>
   (buffer_size a \<noteq> buffer_size b \<or> \<not> strncasecmp_eq (buffer_bytes a) (buffer_bytes b) (buffer_size a))
    \<longleftrightarrow> lower (buffer_bytes a) \<noteq> lower (buffer_bytes b)"
  using strncasecmp_eq_iff_lower [of "buffer_bytes a" "buffer_bytes b"] by auto

lemma node_differs:
  "nul_free (buffer_bytes (jid_node j1)) \<Longrightarrow>
   ((jid_node j1 = None) \<noteq> (jid_node j2 = None) \<or>
    buffer_size (jid_node j1) \<noteq> buffer_size (jid_node j2) \<or>
    \<not> strncasecmp_eq (buffer_bytes (jid_node j1)) (buffer_bytes (jid_node j2)) (buffer_size (jid_node j1)))
    \<longleftrightarrow> \<not> same_node j1 j2"
  using ci_differs [of "jid_node j1" "jid_node j2"]
  by (cases "jid_node j1"; cases "jid_node j2") (auto simp: same_node_def)

lemma resource_differs:
  "((jid_resource j1 = None) \<noteq> (jid_resource j2 = None) \<or>
    buffer_size (jid_resource j1) \<noteq> buffer_size (jid_resource j2) \<or>
    buffer_bytes (jid_resource j1) \<noteq> buffer_bytes (jid_resource j2))
    \<longleftrightarrow> jid_resource j1 \<noteq> jid_resource j2"
  by (cases "jid_resource j1"; cases "jid_resource j2") auto

lemma jid_cmp_cases:
  assumes "jid_nul_free j1"
  shows "jid_cmp j1 j2 mode =
    (if (mode AND JID_NODE \<noteq> 0 \<longrightarrow> (jid_node j1 = None \<and> mode AND JID_CMP_NULLWC \<noteq> 0) \<or> same_node j1 j2) \<and>
        (mode AND JID_HOST \<noteq> 0 \<longrightarrow> same_host j1 j2) \<and>
        (mode AND JID_RESOURCE \<noteq> 0 \<longrightarrow>
          (jid_resource j1 = None \<and> mode AND JID_CMP_NULLWC \<noteq> 0) \<or> jid_resource j1 = jid_resource j2)
     then 0 else 1)"
proof -
  have n: "nul_free (buffer_bytes (jid_node j1))" and h: "nul_free (buffer_bytes (jid_host j1))"
    using assms by (simp_all add: jid_nul_free_def)
  show ?thesis
    unfolding jid_cmp_def node_differs [OF n] ci_differs [OF h] resource_differs same_host_def by auto
qed

lemma jid_cmp_full:
  "jid_nul_free j1 \<Longrightarrow>
   jid_cmp j1 j2 JID_FULL = 0 \<longleftrightarrow> same_node j1 j2 \<and> same_host j1 j2 \<and> jid_resource j1 = jid_resource j2"
  by (simp add: jid_cmp_cases)

lemma jid_cmp_bare:
  "jid_nul_free j1 \<Longrightarrow> jid_cmp j1 j2 JID_BARE = 0 \<longleftrightarrow> same_node j1 j2 \<and> same_host j1 j2"
  by (simp add: jid_cmp_cases)

lemma jid_cmp_host: "jid_nul_free j1 \<Longrightarrow> jid_cmp j1 j2 JID_HOST = 0 \<longleftrightarrow> same_host j1 j2"
  by (simp add: jid_cmp_cases)

lemma jid_cmp_wildcard:
  "jid_nul_free j1 \<Longrightarrow>
   jid_cmp j1 j2 JID_FULL_NULLWC = 0 \<longleftrightarrow>
     (jid_node j1 = None \<or> same_node j1 j2) \<and> same_host j1 j2 \<and>
     (jid_resource j1 = None \<or> jid_resource j1 = jid_resource j2)"
  by (simp add: jid_cmp_cases)

lemma jid_cmp_refl [simp]: "jid_cmp j j mode = 0"
  by (simp add: jid_cmp_def)

lemma same_node_refl [simp]: "same_node j j" and same_host_refl [simp]: "same_host j j"
  by (simp_all add: same_node_def same_host_def)

text \<open>A copy of an address names the same address.\<close>

lemma jid_set_full:
  "jid_wf src \<Longrightarrow> jid_set dst src JID_FULL =
    \<lparr>jid_node = canon_buffer (jid_node src), jid_host = jid_host src,
     jid_resource = canon_buffer (jid_resource src)\<rparr>"
  by (cases "jid_node src"; cases "jid_resource src")
    (auto simp: jid_set_def jid_wf_def canon_buffer_def)

lemma jid_set_bare:
  "jid_wf src \<Longrightarrow> jid_set dst src JID_BARE =
    \<lparr>jid_node = canon_buffer (jid_node src), jid_host = jid_host src, jid_resource = None\<rparr>"
  by (cases "jid_node src") (auto simp: jid_set_def jid_wf_def canon_buffer_def)

end
