(* ===== verification/Participants.thy ===== *)
theory Participants
  imports Utss Jid
begin

text \<open>
  \<^verbatim>\<open>src/participant/participant.c\<close> and \<^verbatim>\<open>src/participant/participants.c\<close>: the occupants of a room.
  An occupant is a node of the room's list; the affected list that administrative queries
  build is threaded through the occupants by their addresses (0 is the null pointer).
\<close>

abbreviation MAX_PRESENCE_SIZE :: nat where "MAX_PRESENCE_SIZE \<equiv> 65000"

record participant =
  p_jid :: jid
  p_nick :: "bytes option"
  p_affiliation :: int
  p_role :: int
  p_presence :: "bytes option"
  p_last_message_time :: int
  p_last_presence_time :: int
  p_included :: bool                    \<comment> \<open>\<open>affected_list.included\<close>\<close>
  p_reason_node :: "bytes option"       \<comment> \<open>\<open>affected_list.reason_node\<close>\<close>
  p_next_affected :: addr               \<comment> \<open>\<open>affected_list.next\<close>\<close>

definition participant_zero :: participant where
  "participant_zero =
     \<lparr>p_jid = jid_init, p_nick = None, p_affiliation = 0, p_role = 0, p_presence = None,
      p_last_message_time = 0, p_last_presence_time = 0, p_included = False,
      p_reason_node = None, p_next_affected = 0\<rparr>"

definition participant_init :: "jid \<Rightarrow> participant" where
  "participant_init j = participant_zero\<lparr>p_jid := jid_set jid_init j JID_FULL\<rparr>"

definition participant_set_nick :: "participant \<Rightarrow> bytes option \<Rightarrow> participant \<times> bool" where
  "participant_set_nick p nick =
     (case bpt_setter (p_nick p) nick MAX_JID_PART_SIZE of (b, ok) \<Rightarrow> (p\<lparr>p_nick := b\<rparr>, ok))"

definition participant_set_presence :: "participant \<Rightarrow> bytes option \<Rightarrow> participant \<times> bool" where
  "participant_set_presence p presence =
     (case bpt_setter (p_presence p) presence MAX_PRESENCE_SIZE of (b, ok) \<Rightarrow> (p\<lparr>p_presence := b\<rparr>, ok))"

definition participant_serialize :: "participant \<Rightarrow> put" where
  "participant_serialize p =
     put_and (jid_serialize (p_jid p))
    (put_and (buffer_ptr_serialize (p_nick p))
    (put_and (buffer_ptr_serialize (p_presence p))
    (put_and (serialize_base 4 (p_affiliation p))
             (serialize_base 4 (p_role p)))))"

definition participant_deserialize :: "participant get" where
  "participant_deserialize =
     get_and jid_deserialize (\<lambda>j.
     get_and (buffer_ptr_deserialize (int MAX_JID_PART_SIZE)) (\<lambda>nick.
     get_and (buffer_ptr_deserialize (int MAX_PRESENCE_SIZE)) (\<lambda>presence.
     get_and (deserialize_base 4) (\<lambda>affiliation.
     get_and (deserialize_base 4) (\<lambda>role.
       get_return (participant_zero\<lparr>p_jid := j, p_nick := nick, p_presence := presence,
                     p_affiliation := affiliation, p_role := role\<rparr>))))))"

subsection \<open>The affected list\<close>

text \<open>
  \<open>participant_set_affected\<close>: the first and the last node of the chain, and the room's list.
\<close>

definition participant_set_affected ::
  "participant dls \<Rightarrow> addr \<times> addr \<Rightarrow> addr \<Rightarrow> bytes option \<Rightarrow> participant dls \<times> addr \<times> addr" where
  "participant_set_affected l chain a reason_node =
     (case chain of (first, current) \<Rightarrow>
        if p_included (dls_cell l a) then (l, first, current)
        else
          let l1 = dls_update l a (\<lambda>p. p\<lparr>p_included := True, p_reason_node := reason_node,
                                        p_next_affected := 0\<rparr>)
          in if first \<noteq> 0
             then (dls_update l1 current (\<lambda>p. p\<lparr>p_next_affected := a\<rparr>), first, a)
             else (l1, a, a))"

subsection \<open>Searching\<close>

definition participants_find_by_nick :: "participant dls \<Rightarrow> bytes option \<Rightarrow> addr option" where
  "participants_find_by_nick l nick =
     dls_find (\<lambda>p. buffer_size (p_nick p) = buffer_size nick \<and>
                   buffer_bytes (p_nick p) = buffer_bytes nick) l"

definition participants_find_by_jid :: "participant dls \<Rightarrow> jid \<Rightarrow> addr option" where
  "participants_find_by_jid l j =
     (let mode = (if jid_resource j = None then JID_BARE else JID_FULL)
      in dls_find (\<lambda>p. jid_cmp (p_jid p) j mode = 0) l)"

definition participants_serialize :: "participant dls \<Rightarrow> put" where
  "participants_serialize l = container_serialize participant_serialize l"

definition participants_deserialize ::
  "utlist \<Rightarrow> participant dls \<Rightarrow> bytes \<Rightarrow> (participant dls \<times> bytes) option" where
  "participants_deserialize U l = container_deserialize U participant_deserialize l"

subsection \<open>The file format\<close>

definition enc_participant :: "participant \<Rightarrow> bytes" where
  "enc_participant p =
     enc_buffer (jid_buffer (p_jid p)) @ enc_buffer (p_nick p) @ enc_buffer (p_presence p) @
     enc_int 4 (p_affiliation p) @ enc_int 4 (p_role p)"

definition valid_participant :: "participant \<Rightarrow> bool" where
  "valid_participant p \<longleftrightarrow>
     jid_wf (p_jid p) \<and> valid_buffer (int MAX_JID_PART_SIZE) (p_nick p) \<and>
     valid_buffer (int MAX_PRESENCE_SIZE) (p_presence p) \<and>
     fits 4 (p_affiliation p) \<and> fits 4 (p_role p)"

definition canon_participant :: "participant \<Rightarrow> participant" where
  "canon_participant p =
     participant_zero\<lparr>p_jid := jid_canon (p_jid p), p_nick := canon_buffer (p_nick p),
       p_presence := canon_buffer (p_presence p), p_affiliation := p_affiliation p, p_role := p_role p\<rparr>"

interpretation participant: codec participant_serialize participant_deserialize
    enc_participant valid_participant canon_participant
proof
  show "participant_serialize x = fwrite (enc_participant x)" for x
    by (simp add: participant_serialize_def enc_participant_def serialize_base_def
      jid_codec.put_and_put buffer_ptr.put_and_put put_and_fwrite)
  show "participant_deserialize (enc_participant x @ rest) = Some (canon_participant x, rest)"
    if "valid_participant x" for x rest
    using that unfolding valid_participant_def
    by (simp add: participant_deserialize_def enc_participant_def canon_participant_def
      jid_codec.get_and_enc buffer_ptr.get_and_enc base.get_and_enc get_return_def)
qed

subsection \<open>Facts about searching\<close>

lemma find_by_nick_Some:
  "participants_find_by_nick l nick = Some a \<Longrightarrow>
   a \<in> set (dls_head l) \<and> buffer_bytes (p_nick (dls_cell l a)) = buffer_bytes nick"
  unfolding participants_find_by_nick_def by (drule dls_find_Some) auto

lemma find_by_nick_None:
  "participants_find_by_nick l nick = None \<longleftrightarrow>
   (\<forall>a \<in> set (dls_head l). buffer_bytes (p_nick (dls_cell l a)) \<noteq> buffer_bytes nick)"
  unfolding participants_find_by_nick_def dls_find_None
  by (metis length_buffer_bytes)

lemma find_by_jid_Some:
  "participants_find_by_jid l j = Some a \<Longrightarrow>
   a \<in> set (dls_head l) \<and> jid_cmp (p_jid (dls_cell l a)) j JID_BARE = 0"
  unfolding participants_find_by_jid_def Let_def
  by (drule dls_find_Some) (auto simp: jid_cmp_def split: if_splits)

lemma find_by_jid_None:
  "participants_find_by_jid l j = None \<Longrightarrow> jid_resource j \<noteq> None \<Longrightarrow>
   \<forall>a \<in> set (dls_head l). jid_cmp (p_jid (dls_cell l a)) j JID_FULL \<noteq> 0"
  by (simp add: participants_find_by_jid_def dls_find_None)

end
