(* ===== verification/Acl.thy ===== *)
theory Acl
  imports Jid
begin

text \<open>
  \<^verbatim>\<open>src/acl.h\<close> and \<^verbatim>\<open>src/acl.c\<close>: the service-wide access list. The list is the sequence of
  entries linked from \<open>first\<close>; the lock around each operation is not part of the model
  (each operation runs under it from beginning to end).
\<close>

abbreviation ACL_NORMAL :: int where "ACL_NORMAL \<equiv> 0"
abbreviation ACL_MUC_CREATE :: int where "ACL_MUC_CREATE \<equiv> 1"
abbreviation ACL_MUC_PERSIST :: int where "ACL_MUC_PERSIST \<equiv> 2"
abbreviation ACL_MUC_ADMIN :: int where "ACL_MUC_ADMIN \<equiv> 3"
abbreviation ACL_COMPONENT_ADMIN :: int where "ACL_COMPONENT_ADMIN \<equiv> 4"

record acl_entry =
  ae_jid :: jid
  ae_role :: int

record acl_config =
  acl_default_role :: int
  acl_first :: "acl_entry list"

definition acl_init :: "acl_config \<Rightarrow> acl_config" where
  "acl_init acl = acl\<lparr>acl_first := []\<rparr>"

definition acl_destroy :: "acl_config \<Rightarrow> acl_config" where
  "acl_destroy acl = acl\<lparr>acl_first := []\<rparr>"

fun acl_search :: "acl_entry list \<Rightarrow> jid \<Rightarrow> int \<Rightarrow> int" where
  "acl_search [] j role = role"
| "acl_search (entry # rest) j role =
     (if jid_cmp (ae_jid entry) j JID_FULL_NULLWC = 0 then ae_role entry
      else acl_search rest j role)"

definition acl_role :: "acl_config \<Rightarrow> jid \<Rightarrow> int" where
  "acl_role acl j = acl_search (acl_first acl) j (acl_default_role acl)"

subsection \<open>The text file\<close>

text \<open>
  \<open>fprintf("%d %s\n")\<close>: the decimal digits of the role, and the null-terminated text the
  address was parsed from.
\<close>

fun show_nat :: "nat \<Rightarrow> bytes" where
  "show_nat n = (if n < 10 then [char_of (48 + n)] else show_nat (n div 10) @ [char_of (48 + n mod 10)])"

declare show_nat.simps [simp del]

definition show_int :: "int \<Rightarrow> bytes" where
  "show_int v = (if v < 0 then ''-'' @ show_nat (nat (- v)) else show_nat (nat v))"

definition jid_cstring :: "jid \<Rightarrow> bytes" where
  "jid_cstring j =
     (case jid_node j of None \<Rightarrow> [] | Some n \<Rightarrow> n @ ''@'') @ buffer_bytes (jid_host j) @
     (case jid_resource j of None \<Rightarrow> [] | Some r \<Rightarrow> ''/'' @ r)"

fun acl_serialize_entries :: "acl_entry list \<Rightarrow> put" where
  "acl_serialize_entries [] f = (f, True)"
| "acl_serialize_entries (entry # rest) f =
     (case fwrite (show_int (ae_role entry) @ '' '' @ jid_cstring (ae_jid entry) @ [CHR 0x0A]) f of
        (f', ok) \<Rightarrow> if \<not> ok then (f', False) else acl_serialize_entries rest f')"

definition acl_serialize :: "acl_config \<Rightarrow> put" where
  "acl_serialize acl = acl_serialize_entries (acl_first acl)"

text \<open>
  \<open>fscanf("%d %3071[^\n]\n")\<close>: a number after white space, white space, one to 3071
  characters up to the end of the line, white space. A success that consumes all of the
  file has met its end, which is what the loop's \<open>feof\<close> asks.
\<close>

definition scan_int :: "int get" where
  "scan_int f =
     (let s = dropWhile is_space f;
          (neg, ds) = (case s of [] \<Rightarrow> (False, s)
             | c # cs \<Rightarrow> if c = CHR ''-'' then (True, cs) else if c = CHR ''+'' then (False, cs) else (False, s));
          digits = takeWhile is_digit ds
      in if digits = [] then None
         else Some (to_int32 (max (- (2 ^ 63)) (min (2 ^ 63 - 1)
                (if neg then - digits_value 0 digits else digits_value 0 digits))),
              dropWhile is_digit ds))"

definition scan_acl_entry :: "(int \<times> bytes) get" where
  "scan_acl_entry f =
     (case scan_int f of
        None \<Rightarrow> None
      | Some (role, f1) \<Rightarrow>
          (let f2 = dropWhile is_space f1;
               line = take 3071 (takeWhile (\<lambda>c. c \<noteq> CHR 0x0A) f2)
           in if line = [] then None
              else Some ((role, line), dropWhile is_space (drop (length line) f2))))"

fun acl_read :: "nat \<Rightarrow> bytes \<Rightarrow> acl_entry list \<Rightarrow> acl_entry list \<times> bool" where
  "acl_read 0 f entries = (entries, False)"
| "acl_read (Suc limit) f entries =
     (case scan_acl_entry f of
        None \<Rightarrow> (entries, False)
      | Some ((role, line), f') \<Rightarrow>
          (case jid_struct (Some (takeWhile (\<lambda>c. c \<noteq> CHR 0x00) line)) of
             (ok, j) \<Rightarrow>
               if \<not> ok then (entries, False)
               else let entries' = entries @ [\<lparr>ae_jid = j, ae_role = role\<rparr>]
                 in if f' = [] then (entries', True) else acl_read limit f' entries'))"

definition acl_deserialize :: "acl_config \<Rightarrow> bytes \<Rightarrow> nat \<Rightarrow> acl_config \<times> bool" where
  "acl_deserialize acl input limit =
     (case acl_read limit input [] of (entries, ok) \<Rightarrow> (acl\<lparr>acl_first := entries\<rparr>, ok))"

subsection \<open>Roles\<close>

text \<open>An entry applies to an address when each part it names is the same.\<close>

definition acl_matches :: "acl_entry \<Rightarrow> jid \<Rightarrow> bool" where
  "acl_matches entry j \<longleftrightarrow>
     (jid_node (ae_jid entry) = None \<or> same_node (ae_jid entry) j) \<and>
     same_host (ae_jid entry) j \<and>
     (jid_resource (ae_jid entry) = None \<or> jid_resource (ae_jid entry) = jid_resource j)"

definition acl_nul_free :: "acl_config \<Rightarrow> bool" where
  "acl_nul_free acl \<longleftrightarrow> (\<forall>e \<in> set (acl_first acl). jid_nul_free (ae_jid e))"

lemma acl_search_find:
  "\<forall>e \<in> set entries. jid_nul_free (ae_jid e) \<Longrightarrow>
   acl_search entries j role =
     (case find (\<lambda>e. acl_matches e j) entries of Some e \<Rightarrow> ae_role e | None \<Rightarrow> role)"
  by (induction entries) (auto simp: acl_matches_def jid_cmp_wildcard)

text \<open>
  The role of an address is the role of the first entry of the list that
  applies to it, and the default role when no entry does.
\<close>

theorem acl_role_first_match:
  assumes "acl_nul_free acl"
  shows "acl_role acl j =
    (case find (\<lambda>e. acl_matches e j) (acl_first acl) of
       Some e \<Rightarrow> ae_role e | None \<Rightarrow> acl_default_role acl)"
  using assms by (simp add: acl_role_def acl_nul_free_def acl_search_find)

theorem acl_role_first_match_witness:
  "acl_role \<lparr>acl_default_role = 1, acl_first =
     [\<lparr>ae_jid = \<lparr>jid_node = None, jid_host = Some ''h'', jid_resource = None\<rparr>, ae_role = 3\<rparr>]\<rparr>
     \<lparr>jid_node = Some ''a'', jid_host = Some ''h'', jid_resource = Some ''r''\<rparr> = 3"
proof -
  have "acl_nul_free \<lparr>acl_default_role = 1, acl_first =
     [\<lparr>ae_jid = \<lparr>jid_node = None, jid_host = Some ''h'', jid_resource = None\<rparr>, ae_role = 3\<rparr>]\<rparr>"
    by (simp add: acl_nul_free_def jid_nul_free_def nul_free_def)
  from acl_role_first_match [OF this] show ?thesis
    by (simp add: acl_matches_def same_host_def lower_def tolower_def)
qed

subsection \<open>Writing and reading the file\<close>

lemma is_digit_show [simp]: "n < 10 \<Longrightarrow> is_digit (char_of (48 + n :: nat))"
  by (simp add: is_digit_def)

lemma of_char_digit: "n < 10 \<Longrightarrow> (of_char (char_of (48 + n :: nat)) :: int) = 48 + int n"
  using of_nat_of_char [of "char_of (48 + n :: nat)", where 'a = int] by simp

lemma show_nat_digits: "\<forall>c \<in> set (show_nat n). is_digit c"
proof (induction n rule: show_nat.induct)
  case (1 n)
  then show ?case by (subst show_nat.simps) auto
qed

lemma show_nat_not_Nil [simp]: "show_nat n \<noteq> []"
  by (subst show_nat.simps) simp

lemma digits_value_append:
  "\<forall>c \<in> set xs. is_digit c \<Longrightarrow> digits_value a (xs @ ys) = digits_value (digits_value a xs) ys"
  by (induction xs arbitrary: a) auto

lemma digits_value_show: "digits_value 0 (show_nat n) = int n"
proof (induction n rule: show_nat.induct)
  case (1 n)
  show ?case
  proof (cases "n < 10")
    case True
    then show ?thesis by (subst show_nat.simps) (simp add: of_char_digit)
  next
    case False
    have dig: "10 * int (n div 10) + int (n mod 10) = int n" by presburger
    have "is_digit (char_of (48 + n mod 10))" by (rule is_digit_show) simp
    then show ?thesis
      using False 1 show_nat_digits [of "n div 10"]
      by (subst show_nat.simps) (simp add: digits_value_append of_char_digit dig)
  qed
qed

lemma digit_not_space: "is_digit c \<Longrightarrow> \<not> is_space c"
  by (auto simp: is_digit_def is_space_def)

lemma digit_not_sign: "is_digit c \<Longrightarrow> c \<noteq> CHR ''-'' \<and> c \<noteq> CHR ''+''"
  by (auto simp: is_digit_def)

lemma takeWhile_digits_show:
  assumes "\<not> is_digit c"
  shows "takeWhile is_digit (show_nat n @ c # rest) = show_nat n"
    and "dropWhile is_digit (show_nat n @ c # rest) = c # rest"
  using assms show_nat_digits [of n] by (simp_all add: takeWhile_append2 dropWhile_append2)

lemma scan_int_show:
  assumes "- (2 ^ 31) \<le> v" and "v < 2 ^ 31" and "\<not> is_digit c"
  shows "scan_int (show_int v @ c # rest) = Some (v, c # rest)"
proof -
  have id: "to_int32 (max (- (2 ^ 63)) (min (2 ^ 63 - 1) v)) = v"
    using assms by (simp add: to_int32_id)
  obtain d ds where ds: "show_nat (nat \<bar>v\<bar>) = d # ds" by (cases "show_nat (nat \<bar>v\<bar>)") auto
  have d: "is_digit d" using show_nat_digits [of "nat \<bar>v\<bar>"] ds by simp
  have tw: "takeWhile is_digit (d # ds @ c # rest) = d # ds"
    "dropWhile is_digit (d # ds @ c # rest) = c # rest"
    using takeWhile_digits_show [OF assms(3), of "nat \<bar>v\<bar>" rest] unfolding ds by simp_all
  have val: "digits_value 0 (d # ds) = \<bar>v\<bar>" using digits_value_show [of "nat \<bar>v\<bar>"] ds by simp
  have sp: "\<not> is_space CHR ''-''" by (simp add: is_space_def)
  show ?thesis
  proof (cases "v < 0")
    case True
    then have "show_int v = CHR ''-'' # d # ds" using ds by (simp add: show_int_def)
    then show ?thesis using True tw val id sp by (simp add: scan_int_def Let_def)
  next
    case False
    then have "show_int v = d # ds" using ds by (simp add: show_int_def)
    then show ?thesis using False tw val id digit_not_space [OF d] digit_not_sign [OF d]
      by (simp add: scan_int_def Let_def)
  qed
qed

text \<open>An entry the file format can hold: one line, no white space at its ends.\<close>

definition acl_entry_printable :: "acl_entry \<Rightarrow> bool" where
  "acl_entry_printable e \<longleftrightarrow>
     jid_wf (ae_jid e) \<and> - (2 ^ 31) \<le> ae_role e \<and> ae_role e < 2 ^ 31 \<and>
     (\<forall>c \<in> set (jid_cstring (ae_jid e)). c \<noteq> CHR 0x0A \<and> c \<noteq> CHR 0x00) \<and>
     \<not> is_space (hd (jid_cstring (ae_jid e)))"

definition acl_line :: "acl_entry \<Rightarrow> bytes" where
  "acl_line e = show_int (ae_role e) @ '' '' @ jid_cstring (ae_jid e) @ [CHR 0x0A]"

lemma jid_struct_cstring:
  assumes "jid_wf j"
  shows "jid_struct (Some (jid_cstring j)) = (True, j)"
proof -
  obtain h where h: "jid_host j = Some h" "CHR ''/'' \<notin> set h"
    "jid_node j = None \<longrightarrow> CHR ''@'' \<notin> set h"
    using assms by (auto simp: jid_wf_def)
  define r where "r = (case jid_resource j of None \<Rightarrow> [] | Some r \<Rightarrow> ''/'' @ r)"
  have host: "jid_scan (h @ r) in_node [] i = i\<lparr>jid_host := Some h,
      jid_resource := (case jid_resource j of None \<Rightarrow> jid_resource i | Some r \<Rightarrow> Some r)\<rparr>"
    if "in_node \<Longrightarrow> CHR ''@'' \<notin> set h" for in_node i
    using that h by (cases "jid_resource j") (simp_all add: jid_scan_plain jid_scan_all_plain r_def)
  have "jid_scan (jid_cstring j) True [] jid_init = j"
  proof (cases "jid_node j")
    case None
    then have "jid_cstring j = h @ r" by (simp add: jid_cstring_def h r_def)
    with None h host [of True jid_init] show ?thesis
      by (cases j; cases "jid_resource j") (auto simp: jid_init_def)
  next
    case (Some n)
    then have "CHR ''@'' \<notin> set n" "CHR ''/'' \<notin> set n" using assms by (auto simp: jid_wf_def)
    then have "jid_scan (jid_cstring j) True [] jid_init =
        jid_scan (h @ r) False [] (jid_init\<lparr>jid_node := Some n\<rparr>)"
      by (simp add: jid_cstring_def Some h r_def jid_scan_plain)
    with Some h host [of False "jid_init\<lparr>jid_node := Some n\<rparr>"] show ?thesis
      by (cases j; cases "jid_resource j") (auto simp: jid_init_def)
  qed
  then show ?thesis
    using assms by (cases "jid_node j") (auto simp: jid_struct_def jid_wf_def not_less)
qed

lemma length_jid_cstring: "jid_wf j \<Longrightarrow> length (jid_cstring j) \<le> 3071"
  by (cases "jid_node j"; cases "jid_resource j") (auto simp: jid_wf_def jid_cstring_def)

lemma jid_cstring_not_Nil: "jid_wf j \<Longrightarrow> jid_cstring j \<noteq> []"
  by (auto simp: jid_wf_def jid_cstring_def)

lemma scan_acl_entry_line:
  assumes "acl_entry_printable e" and "rest = [] \<or> \<not> is_space (hd rest)"
  shows "scan_acl_entry (acl_line e @ rest) = Some ((ae_role e, jid_cstring (ae_jid e)), rest)"
proof -
  let ?t = "jid_cstring (ae_jid e)"
  obtain c cs where t: "?t = c # cs"
    using assms(1) jid_cstring_not_Nil by (cases ?t) (auto simp: acl_entry_printable_def)
  have c: "\<not> is_space c" using assms(1) t by (simp add: acl_entry_printable_def)
  have sp: "is_space CHR '' ''" "is_space CHR 0x0A" "\<not> is_digit CHR '' ''"
    by (simp_all add: is_space_def is_digit_def)
  have "scan_int (acl_line e @ rest) = Some (ae_role e, '' '' @ ?t @ CHR 0x0A # rest)"
    using assms(1) sp by (simp add: acl_line_def acl_entry_printable_def scan_int_show)
  moreover have "dropWhile is_space ('' '' @ ?t @ CHR 0x0A # rest) = ?t @ CHR 0x0A # rest"
    using c sp by (simp add: t)
  moreover have "takeWhile (\<lambda>c. c \<noteq> CHR 0x0A) (?t @ CHR 0x0A # rest) = ?t"
    using assms(1) by (simp add: takeWhile_append2 acl_entry_printable_def)
  moreover have "take 3071 ?t = ?t"
    using assms(1) length_jid_cstring by (simp add: acl_entry_printable_def)
  moreover have "dropWhile is_space rest = rest" using assms(2) by (cases rest) auto
  ultimately show ?thesis
    using sp t by (simp add: scan_acl_entry_def Let_def)
qed

lemma acl_line_starts: "\<not> is_space (hd (acl_line e @ rest)) \<and> acl_line e \<noteq> []"
proof -
  have "\<exists>d ds. show_int v = d # ds \<and> (d = CHR ''-'' \<or> is_digit d)" for v
    using show_nat_digits [of "nat v"]
    by (cases "v < 0"; cases "show_nat (nat v)") (auto simp: show_int_def)
  then obtain d ds where "show_int (ae_role e) = d # ds \<and> (d = CHR ''-'' \<or> is_digit d)"
    by blast
  then show ?thesis using digit_not_space [of d] by (auto simp: acl_line_def is_space_def)
qed

lemma acl_entry_eta: "\<lparr>ae_jid = ae_jid (e :: acl_entry), ae_role = ae_role e\<rparr> = e"
  by simp

lemma acl_read_lines:
  "\<forall>e \<in> set (x # es). acl_entry_printable e \<Longrightarrow> length (x # es) \<le> limit \<Longrightarrow>
   acl_read limit (concat (map acl_line (x # es))) entries = (entries @ x # es, True)"
proof (induction es arbitrary: limit entries x)
  case Nil
  then obtain l where l: "limit = Suc l" by (cases limit) auto
  have tw: "takeWhile (\<lambda>c. c \<noteq> CHR 0x00) (jid_cstring (ae_jid x)) = jid_cstring (ae_jid x)"
    using Nil.prems(1) by (simp add: takeWhile_eq_all_conv acl_entry_printable_def)
  have "jid_wf (ae_jid x)" using Nil.prems(1) by (simp add: acl_entry_printable_def)
  then show ?case
    using Nil.prems scan_acl_entry_line [of x "[]"] by (simp add: l tw jid_struct_cstring)
next
  case (Cons y ys)
  then obtain l where l: "limit = Suc l" by (cases limit) auto
  let ?rest = "concat (map acl_line (y # ys))"
  have rest: "?rest \<noteq> []" "\<not> is_space (hd ?rest)"
    using acl_line_starts [of y "concat (map acl_line ys)"] by (simp_all del: hd_append2)
  have tw: "takeWhile (\<lambda>c. c \<noteq> CHR 0x00) (jid_cstring (ae_jid x)) = jid_cstring (ae_jid x)"
    using Cons.prems(1) by (simp add: takeWhile_eq_all_conv acl_entry_printable_def)
  have wf: "jid_wf (ae_jid x)" using Cons.prems(1) by (simp add: acl_entry_printable_def)
  have "scan_acl_entry (acl_line x @ ?rest) = Some ((ae_role x, jid_cstring (ae_jid x)), ?rest)"
    using Cons.prems(1) rest by (intro scan_acl_entry_line) auto
  moreover have "acl_line y \<noteq> []" using acl_line_starts by blast
  ultimately have "acl_read limit (concat (map acl_line (x # y # ys))) entries = acl_read l ?rest (entries @ [x])"
    by (simp add: l tw jid_struct_cstring [OF wf] Let_def acl_entry_eta)
  also have "\<dots> = ((entries @ [x]) @ y # ys, True)"
    using Cons.prems by (intro Cons.IH) (auto simp: l)
  finally show ?case by simp
qed

lemma acl_serialize_entries_enc:
  "acl_serialize_entries es f = fwrite (concat (map acl_line es)) f"
proof (induction es arbitrary: f)
  case Nil
  then show ?case by (simp add: fwrite_def)
next
  case (Cons e es)
  have "acl_serialize_entries (e # es) f =
      put_and (fwrite (acl_line e)) (fwrite (concat (map acl_line es))) f"
    by (simp add: put_and_def Cons.IH acl_line_def [of e] split: prod.splits)
  then show ?case by (simp add: put_and_fwrite)
qed

text \<open>
  A list of printable entries, at least one and no more than the limit, that
  was written to a file in full is read back as it was, whatever list was in use before.
\<close>

theorem acl_file_roundtrip:
  assumes "acl_serialize acl \<lparr>of_written = [], of_space = space\<rparr> = (f, True)"
    and "\<forall>e \<in> set (acl_first acl). acl_entry_printable e"
    and "acl_first acl \<noteq> []" and "length (acl_first acl) \<le> limit"
  shows "acl_deserialize acl' (of_written f) limit = (acl'\<lparr>acl_first := acl_first acl\<rparr>, True)"
proof -
  have w: "of_written f = concat (map acl_line (acl_first acl))"
    using assms(1) by (auto simp: acl_serialize_def acl_serialize_entries_enc fwrite_def)
  obtain x es where "acl_first acl = x # es" using assms(3) by (cases "acl_first acl") auto
  then show ?thesis
    using acl_read_lines [of x es limit "[]"] assms(2,4) by (simp add: acl_deserialize_def w)
qed

definition acl_example :: acl_config where
  "acl_example = \<lparr>acl_default_role = 1, acl_first =
     [\<lparr>ae_jid = \<lparr>jid_node = None, jid_host = Some ''h'', jid_resource = None\<rparr>, ae_role = 3\<rparr>,
      \<lparr>ae_jid = \<lparr>jid_node = Some ''a'', jid_host = Some ''k'', jid_resource = Some ''r''\<rparr>, ae_role = -1\<rparr>]\<rparr>"

theorem acl_file_roundtrip_witness:
  "acl_deserialize \<lparr>acl_default_role = 7, acl_first = []\<rparr> (of_written (fst (acl_serialize acl_example
      \<lparr>of_written = [], of_space = 100\<rparr>))) 1024 =
   (\<lparr>acl_default_role = 7, acl_first = acl_first acl_example\<rparr>, True)"
proof -
  have ok: "acl_serialize acl_example \<lparr>of_written = [], of_space = 100\<rparr> =
      (fst (acl_serialize acl_example \<lparr>of_written = [], of_space = 100\<rparr>), True)"
    by code_simp
  have printable: "\<forall>e \<in> set (acl_first acl_example). acl_entry_printable e"
    by (simp add: acl_example_def acl_entry_printable_def jid_wf_def jid_cstring_def is_space_def ball_Un)
  show ?thesis
    using acl_file_roundtrip [OF ok printable, of 1024 "\<lparr>acl_default_role = 7, acl_first = []\<rparr>"]
    by (simp add: acl_example_def)
qed

end
