(* ===== verification/Affiliations.thy ===== *)
theory Affiliations
  imports Utss Acl Participants
begin

text \<open>
  \<^verbatim>\<open>src/affiliation/affiliation.c\<close> and \<^verbatim>\<open>src/affiliation/affiliations.c\<close>: the long-lived association of
  bare addresses with a room. A room has one list for each affiliation, in an array indexed
  by the affiliation; the array is a list of five lists here.
\<close>

abbreviation AFFIL_UNCHANGED :: int where "AFFIL_UNCHANGED \<equiv> -2"
abbreviation AFFIL_OUTCAST :: int where "AFFIL_OUTCAST \<equiv> 0"
abbreviation AFFIL_NONE :: int where "AFFIL_NONE \<equiv> 1"
abbreviation AFFIL_MEMBER :: int where "AFFIL_MEMBER \<equiv> 2"
abbreviation AFFIL_ADMIN :: int where "AFFIL_ADMIN \<equiv> 3"
abbreviation AFFIL_OWNER :: int where "AFFIL_OWNER \<equiv> 4"

abbreviation MAX_AFFILIATION_REASON_SIZE :: nat where "MAX_AFFILIATION_REASON_SIZE \<equiv> 65000"

record affiliation =
  af_jid :: jid
  af_reason_node :: "bytes option"

type_synonym affiliations = "affiliation dls list"

definition affiliation_init :: affiliation where
  "affiliation_init = \<lparr>af_jid = jid_init, af_reason_node = None\<rparr>"

definition affiliation_set_reason :: "affiliation \<Rightarrow> bytes option \<Rightarrow> affiliation \<times> bool" where
  "affiliation_set_reason e reason_node =
     (case bpt_setter (af_reason_node e) reason_node MAX_AFFILIATION_REASON_SIZE of
        (b, ok) \<Rightarrow> (e\<lparr>af_reason_node := b\<rparr>, ok))"

text \<open>The limit compared as an integer, which is how it is evaluated.\<close>

lemma affiliation_set_reason_code [code]:
  "affiliation_set_reason e reason =
     (case reason of
        None \<Rightarrow> (e\<lparr>af_reason_node := None\<rparr>, True)
      | Some bs \<Rightarrow>
          if int (length bs) > 65000 then (e, False)
          else if bs = [] \<and> af_reason_node e \<noteq> None then (e\<lparr>af_reason_node := None\<rparr>, True)
          else (e\<lparr>af_reason_node := Some bs\<rparr>, True))"
  by (auto simp: affiliation_set_reason_def bpt_setter_def split: option.split)

definition affiliation_serialize :: "affiliation \<Rightarrow> put" where
  "affiliation_serialize e =
     put_and (jid_serialize (af_jid e)) (buffer_ptr_serialize (af_reason_node e))"

definition affiliation_deserialize :: "affiliation get" where
  "affiliation_deserialize =
     get_and jid_deserialize (\<lambda>j.
     get_and (buffer_ptr_deserialize (int MAX_AFFILIATION_REASON_SIZE)) (\<lambda>reason.
       get_return \<lparr>af_jid = j, af_reason_node = reason\<rparr>))"

definition affiliations_serialize :: "affiliation dls \<Rightarrow> put" where
  "affiliations_serialize l = container_serialize affiliation_serialize l"

definition affiliations_deserialize ::
  "utlist \<Rightarrow> affiliation dls \<Rightarrow> bytes \<Rightarrow> (affiliation dls \<times> bytes) option" where
  "affiliations_deserialize U l = container_deserialize U affiliation_deserialize l"

definition affiliation_names :: "bytes list" where
  "affiliation_names = [''outcast'', ''none'', ''member'', ''admin'', ''owner'']"

subsection \<open>Searching\<close>

definition affiliations_find_by_jid :: "affiliation dls \<Rightarrow> jid \<Rightarrow> nat \<Rightarrow> addr option" where
  "affiliations_find_by_jid l j mode = dls_find (\<lambda>e. jid_cmp (af_jid e) j mode = 0) l"

text \<open>
  \<open>affiliationss_get_by_jid\<close> takes an array of pointers to lists. \<open>pointers i\<close> is the list the
  \<open>i\<close>-th pointer leads to, or the fault of following it: its caller passes an array of lists
  converted to an array of pointers, so what is found there depends on the platform.
\<close>

fun search_lists :: "(nat \<Rightarrow> affiliation dls run) \<Rightarrow> jid \<Rightarrow> nat \<Rightarrow> nat list \<Rightarrow> nat option run" where
  "search_lists pointers j mode [] = Ret None"
| "search_lists pointers j mode (i # is) =
     bind_run (pointers i) (\<lambda>l.
       if affiliations_find_by_jid l j mode \<noteq> None then Ret (Some i)
       else search_lists pointers j mode is)"

definition affiliationss_get_by_jid ::
  "(nat \<Rightarrow> affiliation dls run) \<Rightarrow> acl_config \<Rightarrow> jid \<Rightarrow> int run" where
  "affiliationss_get_by_jid pointers acl j =
     (if acl_role acl j \<ge> ACL_MUC_ADMIN then Ret AFFIL_OWNER
      else bind_run (search_lists pointers j JID_BARE [0..<5]) (\<lambda>found.
        case found of
          Some i \<Rightarrow> Ret (int i)
        | None \<Rightarrow>
            bind_run (search_lists pointers j JID_HOST [0..<5]) (\<lambda>found.
              Ret (case found of Some i \<Rightarrow> int i | None \<Rightarrow> AFFIL_NONE))))"

fun affiliation_search_name :: "bytes list \<Rightarrow> int \<Rightarrow> bytes \<Rightarrow> int" where
  "affiliation_search_name [] i name = AFFIL_UNCHANGED"
| "affiliation_search_name (n # ns) i name =
     (if name = n then i else affiliation_search_name ns (i + 1) name)"

definition affiliation_by_name :: "bytes \<Rightarrow> int" where
  "affiliation_by_name name = affiliation_search_name affiliation_names AFFIL_OUTCAST name"

subsection \<open>Changing\<close>

text \<open>The first list that has an entry of the bare address, and the entry.\<close>

fun find_entry :: "affiliations \<Rightarrow> jid \<Rightarrow> nat list \<Rightarrow> (nat \<times> addr) option" where
  "find_entry affs j [] = None"
| "find_entry affs j (i # is) =
     (case affiliations_find_by_jid (affs ! i) j JID_BARE of
        Some a \<Rightarrow> Some (i, a)
      | None \<Rightarrow> find_entry affs j is)"

definition affiliations_malloc :: "affiliations \<Rightarrow> addr" where
  "affiliations_malloc affs = malloc_addr (concat (map dls_head affs))"

definition affiliation_place ::
  "utlist \<Rightarrow> affiliations \<Rightarrow> int \<Rightarrow> jid \<Rightarrow> bytes option \<Rightarrow> addr \<Rightarrow> affiliation \<Rightarrow> affiliations" where
  "affiliation_place U affs affiliation j reason_node a e =
     (if affiliation \<noteq> AFFIL_NONE then
        let e1 = e\<lparr>af_jid := jid_set (af_jid e) j JID_BARE\<rparr>;
            e2 = fst (affiliation_set_reason e1 reason_node);
            i = nat affiliation
        in affs[i := dls_append U (affs ! i) a e2]
      else affs)"

text \<open>Whether there is a sender, and he has a property.\<close>

definition sender_is :: "(participant \<Rightarrow> bool) \<Rightarrow> participant option \<Rightarrow> bool" where
  "sender_is Q sender = (case sender of None \<Rightarrow> False | Some s \<Rightarrow> Q s)"

definition affiliationss_add ::
  "utlist \<Rightarrow> affiliations \<Rightarrow> participant option \<Rightarrow> int \<Rightarrow> jid \<Rightarrow> bytes option \<Rightarrow> affiliations \<times> bool" where
  "affiliationss_add U affs sender affiliation j reason_node =
     (if sender_is (\<lambda>s. p_affiliation s \<noteq> AFFIL_OWNER) sender \<and> affiliation \<ge> AFFIL_ADMIN then (affs, False)
      else
        (case find_entry affs j [0..<5] of
           None \<Rightarrow>
             (affiliation_place U affs affiliation j reason_node (affiliations_malloc affs) affiliation_init, True)
         | Some (l, a) \<Rightarrow>
             let entry = dls_cell (affs ! l) a in
             if sender_is (\<lambda>s. p_affiliation s \<noteq> AFFIL_OWNER) sender \<and> int l \<ge> AFFIL_ADMIN then (affs, False)
             else if int l = AFFIL_OWNER \<and>
                 sender_is (\<lambda>s. jid_cmp (p_jid s) (af_jid entry) JID_BARE = 0) sender \<and>
                 dls_head (affs ! l) = [a] then (affs, False)
             else (affiliation_place U (affs[l := dls_delete U (affs ! l) a])
                     affiliation j reason_node a entry, True)))"

lemma affiliationss_add_eq:
  "affiliationss_add U affs sender affiliation j reason_node =
     (if \<exists>s. sender = Some s \<and> p_affiliation s \<noteq> AFFIL_OWNER \<and> affiliation \<ge> AFFIL_ADMIN then (affs, False)
      else
        (case find_entry affs j [0..<5] of
           None \<Rightarrow>
             (affiliation_place U affs affiliation j reason_node (affiliations_malloc affs) affiliation_init, True)
         | Some (l, a) \<Rightarrow>
             let entry = dls_cell (affs ! l) a in
             if \<exists>s. sender = Some s \<and> p_affiliation s \<noteq> AFFIL_OWNER \<and> int l \<ge> AFFIL_ADMIN then (affs, False)
             else if int l = AFFIL_OWNER \<and>
                 (\<exists>s. sender = Some s \<and> jid_cmp (p_jid s) (af_jid entry) JID_BARE = 0) \<and>
                 dls_head (affs ! l) = [a] then (affs, False)
             else (affiliation_place U (affs[l := dls_delete U (affs ! l) a])
                     affiliation j reason_node a entry, True)))"
  by (cases sender; cases "find_entry affs j [0..<5]") (auto simp: affiliationss_add_def sender_is_def Let_def)

subsection \<open>The file format\<close>

definition enc_affiliation :: "affiliation \<Rightarrow> bytes" where
  "enc_affiliation e = enc_buffer (jid_buffer (af_jid e)) @ enc_buffer (af_reason_node e)"

definition valid_affiliation :: "affiliation \<Rightarrow> bool" where
  "valid_affiliation e \<longleftrightarrow>
     jid_wf (af_jid e) \<and> valid_buffer (int MAX_AFFILIATION_REASON_SIZE) (af_reason_node e)"

definition canon_affiliation :: "affiliation \<Rightarrow> affiliation" where
  "canon_affiliation e =
     \<lparr>af_jid = jid_canon (af_jid e), af_reason_node = canon_buffer (af_reason_node e)\<rparr>"

interpretation affiliation: codec affiliation_serialize affiliation_deserialize
    enc_affiliation valid_affiliation canon_affiliation
proof
  show "affiliation_serialize x = fwrite (enc_affiliation x)" for x
    by (simp add: affiliation_serialize_def enc_affiliation_def jid_codec.put_and_put
      buffer_ptr.put_enc)
  show "affiliation_deserialize (enc_affiliation x @ rest) = Some (canon_affiliation x, rest)"
    if "valid_affiliation x" for x rest
    using that unfolding valid_affiliation_def
    by (simp add: affiliation_deserialize_def enc_affiliation_def canon_affiliation_def
      jid_codec.get_and_enc buffer_ptr.get_and_enc get_return_def)
qed

subsection \<open>The lists as a map from bare addresses to affiliations\<close>

definition bare_key :: "jid \<Rightarrow> bytes option \<times> bytes" where
  "bare_key j = (map_option lower (jid_node j), lower (buffer_bytes (jid_host j)))"

text \<open>An entry of list \<open>i\<close> has the bare address of \<open>j\<close>.\<close>

definition has_affil :: "affiliations \<Rightarrow> nat \<Rightarrow> jid \<Rightarrow> bool" where
  "has_affil affs i j \<longleftrightarrow>
     (\<exists>a \<in> set (dls_head (affs ! i)). bare_key (af_jid (dls_cell (affs ! i) a)) = bare_key j)"

definition affil_lookup :: "affiliations \<Rightarrow> jid \<Rightarrow> int option" where
  "affil_lookup affs j = map_option (int \<circ> fst) (find_entry affs j [0..<5])"

text \<open>
  The invariant of a room's affiliations: five lists of nodes that are all different, no
  entry in the list of \<open>AFFIL_NONE\<close>, and at most one entry for a bare address.
\<close>

definition affs_wf :: "affiliations \<Rightarrow> bool" where
  "affs_wf affs \<longleftrightarrow>
     length affs = 5 \<and> dls_head (affs ! 1) = [] \<and>
     (\<forall>i < 5. distinct (dls_head (affs ! i))) \<and>
     (\<forall>i < 5. \<forall>a \<in> set (dls_head (affs ! i)). jid_nul_free (af_jid (dls_cell (affs ! i) a))) \<and>
     (\<forall>i < 5. \<forall>k < 5. \<forall>a \<in> set (dls_head (affs ! i)). \<forall>b \<in> set (dls_head (affs ! k)).
        a = b \<or> bare_key (af_jid (dls_cell (affs ! i) a)) = bare_key (af_jid (dls_cell (affs ! k) b)) \<longrightarrow>
        i = k \<and> a = b)"

lemma affs_wfI:
  assumes "length affs = 5" and "dls_head (affs ! 1) = []"
    and "\<And>i. i < 5 \<Longrightarrow> distinct (dls_head (affs ! i))"
    and "\<And>i a. i < 5 \<Longrightarrow> a \<in> set (dls_head (affs ! i)) \<Longrightarrow> jid_nul_free (af_jid (dls_cell (affs ! i) a))"
    and "\<And>i k a b. i < 5 \<Longrightarrow> k < 5 \<Longrightarrow> a \<in> set (dls_head (affs ! i)) \<Longrightarrow> b \<in> set (dls_head (affs ! k)) \<Longrightarrow>
      a = b \<or> bare_key (af_jid (dls_cell (affs ! i) a)) = bare_key (af_jid (dls_cell (affs ! k) b)) \<Longrightarrow>
      i = k \<and> a = b"
  shows "affs_wf affs"
  unfolding affs_wf_def
proof (intro conjI allI impI ballI)
  fix i k a b
  assume "i < 5" "k < 5" "a \<in> set (dls_head (affs ! i))" "b \<in> set (dls_head (affs ! k))"
    "a = b \<or> bare_key (af_jid (dls_cell (affs ! i) a)) = bare_key (af_jid (dls_cell (affs ! k) b))"
  from assms(5) [OF this] show "i = k" and "a = b" by blast+
qed (use assms in blast)+

lemma jid_cmp_bare_key:
  "jid_nul_free j1 \<Longrightarrow> jid_cmp j1 j2 JID_BARE = 0 \<longleftrightarrow> bare_key j1 = bare_key j2"
  by (simp add: jid_cmp_bare bare_key_def same_node_def same_host_def)

lemma find_entry_Some:
  "find_entry affs j is = Some (i, a) \<Longrightarrow>
   i \<in> set is \<and> a \<in> set (dls_head (affs ! i)) \<and> jid_cmp (af_jid (dls_cell (affs ! i) a)) j JID_BARE = 0"
  by (induction "is")
    (auto simp: affiliations_find_by_jid_def split: option.splits dest!: dls_find_Some)

lemma find_entry_None:
  "find_entry affs j is = None \<longleftrightarrow>
   (\<forall>i \<in> set is. \<forall>a \<in> set (dls_head (affs ! i)). jid_cmp (af_jid (dls_cell (affs ! i) a)) j JID_BARE \<noteq> 0)"
  by (induction "is")
    (auto simp: affiliations_find_by_jid_def dls_find_None split: option.splits dest: dls_find_Some)

lemma affs_wf_nul_free:
  "affs_wf affs \<Longrightarrow> i < 5 \<Longrightarrow> a \<in> set (dls_head (affs ! i)) \<Longrightarrow> jid_nul_free (af_jid (dls_cell (affs ! i) a))"
  by (simp add: affs_wf_def)

lemma affs_wf_unique:
  "affs_wf affs \<Longrightarrow> i < 5 \<Longrightarrow> k < 5 \<Longrightarrow> a \<in> set (dls_head (affs ! i)) \<Longrightarrow> b \<in> set (dls_head (affs ! k)) \<Longrightarrow>
   bare_key (af_jid (dls_cell (affs ! i) a)) = bare_key (af_jid (dls_cell (affs ! k) b)) \<Longrightarrow> i = k \<and> a = b"
  unfolding affs_wf_def by blast

lemma find_entry_has:
  "affs_wf affs \<Longrightarrow> find_entry affs j [0..<5] = Some (i, a) \<Longrightarrow>
   i < 5 \<and> a \<in> set (dls_head (affs ! i)) \<and> bare_key (af_jid (dls_cell (affs ! i) a)) = bare_key j"
  by (drule find_entry_Some) (auto simp: affs_wf_nul_free jid_cmp_bare_key)

lemma find_entry_hasnt:
  "affs_wf affs \<Longrightarrow> find_entry affs j [0..<5] = None \<longleftrightarrow> (\<forall>i < 5. \<not> has_affil affs i j)"
  by (auto simp: find_entry_None has_affil_def affs_wf_nul_free jid_cmp_bare_key)

lemma has_affil_unique: "affs_wf affs \<Longrightarrow> i < 5 \<Longrightarrow> k < 5 \<Longrightarrow> has_affil affs i j \<Longrightarrow> has_affil affs k j \<Longrightarrow> i = k"
  unfolding has_affil_def using affs_wf_unique by (metis (no_types, lifting))

lemma affil_lookup_iff:
  assumes "affs_wf affs"
  shows "affil_lookup affs j = Some v \<longleftrightarrow> (\<exists>i < 5. v = int i \<and> has_affil affs i j)"
proof (cases "find_entry affs j [0..<5]")
  case None
  then have "\<forall>i < 5. \<not> has_affil affs i j" using find_entry_hasnt [OF assms] by blast
  with None show ?thesis by (simp add: affil_lookup_def)
next
  case (Some p)
  then obtain i a where p: "find_entry affs j [0..<5] = Some (i, a)" by (cases p) auto
  with assms have "i < 5" "has_affil affs i j"
    by (auto simp: has_affil_def dest!: find_entry_has)
  with p show ?thesis by (auto simp: affil_lookup_def dest: has_affil_unique [OF assms])
qed

lemma affil_lookup_eqI:
  assumes "affs_wf affs" "affs_wf affs'"
    and "\<And>i. i < 5 \<Longrightarrow> has_affil affs i j = has_affil affs' i j'"
  shows "affil_lookup affs j = affil_lookup affs' j'"
proof -
  have "affil_lookup affs j = Some v \<longleftrightarrow> affil_lookup affs' j' = Some v" for v
    unfolding affil_lookup_iff [OF assms(1)] affil_lookup_iff [OF assms(2)]
    using assms(3) by metis
  then show ?thesis by (rule option_eqI)
qed

subsection \<open>What a change does to the map\<close>

context utlist_laws
begin

lemma has_affil_delete:
  assumes wf: "affs_wf affs" and l: "l < 5" and a: "a \<in> set (dls_head (affs ! l))" and i: "i < 5"
  shows "has_affil (affs[l := dls_delete U (affs ! l) a]) i j \<longleftrightarrow>
    has_affil affs i j \<and> bare_key j \<noteq> bare_key (af_jid (dls_cell (affs ! l) a))"
proof -
  have len: "length affs = 5" and lk: "dls_linked (affs ! l)"
    using wf l by (auto simp: affs_wf_def dls_linked_def)
  have uniq: "i = l \<and> b = a" if "b \<in> set (dls_head (affs ! i))"
    "bare_key (af_jid (dls_cell (affs ! i) b)) = bare_key (af_jid (dls_cell (affs ! l) a))" for b
    using affs_wf_unique [OF wf i l] that a by blast
  show ?thesis
  proof (cases "i = l")
    case True
    with len l have "has_affil (affs[l := dls_delete U (affs ! l) a]) i j \<longleftrightarrow>
        (\<exists>b \<in> set (dls_head (affs ! l)) - {a}. bare_key (af_jid (dls_cell (affs ! l) b)) = bare_key j)"
      by (simp add: has_affil_def set_head_delete [OF lk a])
    then show ?thesis using uniq a True unfolding has_affil_def by fastforce
  next
    case False
    then show ?thesis using uniq unfolding has_affil_def by fastforce
  qed
qed

lemma affs_wf_delete:
  assumes wf: "affs_wf affs" and l: "l < 5" and a: "a \<in> set (dls_head (affs ! l))"
  shows "affs_wf (affs[l := dls_delete U (affs ! l) a])" (is "affs_wf ?affs'")
proof -
  have len: "length affs = 5" and lk: "dls_linked (affs ! l)"
    using wf l by (auto simp: affs_wf_def dls_linked_def)
  have cell: "dls_cell (?affs' ! i) = dls_cell (affs ! i)" for i
    using len l by (cases "i = l") simp_all
  have sub: "set (dls_head (?affs' ! i)) \<subseteq> set (dls_head (affs ! i))" for i
    using len l by (cases "i = l") (auto simp: set_head_delete [OF lk a])
  have dist: "distinct (dls_head (?affs' ! i))" if "i < 5" for i
    using wf that linked_delete [OF lk a] len l
    by (cases "i = l") (auto simp: affs_wf_def dls_linked_def)
  have "dls_head (?affs' ! 1) = []"
    using sub [of 1] wf by (auto simp: affs_wf_def)
  moreover have "jid_nul_free (af_jid (dls_cell (?affs' ! i) b))"
    if "i < 5" "b \<in> set (dls_head (?affs' ! i))" for i b
    using affs_wf_nul_free [OF wf] that sub by (auto simp: cell)
  moreover have "i = k \<and> b = c"
    if "i < 5" "k < 5" "b \<in> set (dls_head (?affs' ! i))" "c \<in> set (dls_head (?affs' ! k))"
      "b = c \<or> bare_key (af_jid (dls_cell (?affs' ! i) b)) = bare_key (af_jid (dls_cell (?affs' ! k) c))" for i k b c
    using wf that sub unfolding affs_wf_def cell by blast
  ultimately show ?thesis using dist len by (intro affs_wfI) (simp_all only: length_list_update)
qed

lemma has_affil_append:
  assumes "length affs = 5" and "l < 5" and "a \<notin> set (dls_head (affs ! l))"
  shows "has_affil (affs[l := dls_append U (affs ! l) a e]) i j \<longleftrightarrow>
    has_affil affs i j \<or> (i = l \<and> bare_key (af_jid e) = bare_key j)"
proof (cases "i = l")
  case True
  have "b \<noteq> a" if "b \<in> set (dls_head (affs ! l))" for b using assms(3) that by auto
  then show ?thesis using assms True by (auto simp: has_affil_def head_append)
next
  case False
  then show ?thesis by (simp add: has_affil_def)
qed

lemma affs_wf_append:
  assumes wf: "affs_wf affs" and l: "l < 5" "l \<noteq> 1" and fresh: "\<forall>i < 5. a \<notin> set (dls_head (affs ! i))"
    and nf: "jid_nul_free (af_jid e)" and new: "\<forall>i < 5. \<not> has_affil affs i (af_jid e)"
  shows "affs_wf (affs[l := dls_append U (affs ! l) a e])" (is "affs_wf ?affs'")
proof -
  have len: "length affs = 5" using wf by (simp add: affs_wf_def)
  define mem where "mem i b \<longleftrightarrow> b \<in> set (dls_head (affs ! i))" for i b
  define new_node where "new_node i b \<longleftrightarrow> i = l \<and> b = a" for i b
  have head: "b \<in> set (dls_head (?affs' ! i)) \<longleftrightarrow> mem i b \<or> new_node i b" for i b
    using len l fresh by (cases "i = l") (auto simp: head_append mem_def new_node_def)
  have old: "dls_cell (?affs' ! i) b = dls_cell (affs ! i) b" if "i < 5" "mem i b" for i b
    using len l fresh that by (cases "i = l") (auto simp: mem_def)
  have newc: "dls_cell (?affs' ! i) b = e" if "new_node i b" for i b
    using len l that by (simp add: new_node_def)
  have apart: "bare_key (af_jid (dls_cell (affs ! i) b)) \<noteq> bare_key (af_jid e)" "b \<noteq> a"
    if "i < 5" "mem i b" for i b
    using new fresh that by (auto simp: has_affil_def mem_def)
  have dist: "distinct (dls_head (?affs' ! i))" if "i < 5" for i
    using wf that fresh len l by (cases "i = l") (auto simp: affs_wf_def head_append)
  have "dls_head (?affs' ! 1) = []" using l wf by (simp add: affs_wf_def)
  moreover have "jid_nul_free (af_jid (dls_cell (?affs' ! i) b))"
    if "i < 5" "b \<in> set (dls_head (?affs' ! i))" for i b
    using that affs_wf_nul_free [OF wf] nf old newc unfolding head by (auto simp: mem_def)
  moreover have "i = k \<and> b = c"
    if "i < 5" "k < 5" "b \<in> set (dls_head (?affs' ! i))" "c \<in> set (dls_head (?affs' ! k))"
      "b = c \<or> bare_key (af_jid (dls_cell (?affs' ! i) b)) = bare_key (af_jid (dls_cell (?affs' ! k) c))" for i k b c
  proof -
    consider (oo) "mem i b" "mem k c" | (on) "mem i b" "new_node k c" | (no) "new_node i b" "mem k c"
      | (nn) "new_node i b" "new_node k c"
      using \<open>b \<in> set (dls_head (?affs' ! i))\<close> \<open>c \<in> set (dls_head (?affs' ! k))\<close> unfolding head by blast
    then show ?thesis
    proof cases
      case oo
      have "b = c \<or> bare_key (af_jid (dls_cell (affs ! i) b)) = bare_key (af_jid (dls_cell (affs ! k) c))"
        using that(5) unfolding old [OF that(1) oo(1)] old [OF that(2) oo(2)] .
      then show ?thesis using wf that(1,2) oo unfolding affs_wf_def mem_def by blast
    next
      case on
      then show ?thesis using that(5) apart [OF that(1) on(1)] unfolding old [OF that(1) on(1)] newc [OF on(2)]
        by (simp add: new_node_def)
    next
      case no
      then show ?thesis using that(5) apart [OF that(2) no(2)] unfolding old [OF that(2) no(2)] newc [OF no(1)]
        by (auto simp: new_node_def)
    next
      case nn
      then show ?thesis by (simp add: new_node_def)
    qed
  qed
  ultimately show ?thesis using dist len by (intro affs_wfI) (simp_all only: length_list_update)
qed

end

text \<open>An address that can be stored: its copy names the same bare address.\<close>

definition storable :: "jid \<Rightarrow> bool" where
  "storable j \<longleftrightarrow> jid_wf j \<and> jid_nul_free j \<and> jid_node j \<noteq> Some []"

lemma storable_copy:
  assumes "storable j"
  shows "bare_key (jid_set d j JID_BARE) = bare_key j" and "jid_nul_free (jid_set d j JID_BARE)"
  using assms by (cases "jid_node j"; simp add: storable_def jid_set_bare bare_key_def canon_buffer_def jid_nul_free_def)+

lemma set_reason_jid [simp]: "af_jid (fst (affiliation_set_reason e r)) = af_jid e"
  by (simp add: affiliation_set_reason_def split: prod.split)

lemma affiliations_malloc_fresh:
  assumes "affs_wf affs" and "i < 5"
  shows "affiliations_malloc affs \<notin> set (dls_head (affs ! i))"
proof -
  have "affs ! i \<in> set affs" using assms by (simp add: affs_wf_def)
  then show ?thesis
    using malloc_addr_fresh [of "concat (map dls_head affs)"] unfolding affiliations_malloc_def by auto
qed

context utlist_laws
begin

text \<open>Storing an entry of an address that has none.\<close>

lemma place_effect:
  assumes wf: "affs_wf affs" and v: "0 \<le> v" "v \<le> 4" "v \<noteq> AFFIL_NONE" and j: "storable j"
    and fresh: "\<forall>i < 5. a \<notin> set (dls_head (affs ! i))" and none: "\<forall>i < 5. \<not> has_affil affs i j"
    and e: "af_jid e = jid_set d j JID_BARE"
  defines "affs' \<equiv> affs[nat v := dls_append U (affs ! nat v) a e]"
  shows "affs_wf affs'"
    and "affil_lookup affs' j' = (if bare_key j' = bare_key j then Some v else affil_lookup affs j')"
proof -
  have l: "nat v < 5" "nat v \<noteq> 1" and len: "length affs = 5" using v wf by (auto simp: affs_wf_def)
  have key: "bare_key (af_jid e) = bare_key j" "jid_nul_free (af_jid e)"
    using storable_copy [OF j] by (simp_all add: e)
  then have none': "\<forall>i < 5. \<not> has_affil affs i (af_jid e)" using none by (simp add: has_affil_def)
  show wf': "affs_wf affs'" unfolding affs'_def by (rule affs_wf_append [OF wf l fresh key(2) none'])
  have has': "has_affil affs' i j'' \<longleftrightarrow> has_affil affs i j'' \<or> (i = nat v \<and> bare_key j = bare_key j'')" for i j''
    unfolding affs'_def using has_affil_append [OF len l(1)] fresh l key by simp
  show "affil_lookup affs' j' = (if bare_key j' = bare_key j then Some v else affil_lookup affs j')"
  proof (cases "bare_key j' = bare_key j")
    case True
    then have "has_affil affs' (nat v) j'" by (simp add: has')
    then have "affil_lookup affs' j' = Some (int (nat v))" using l(1) affil_lookup_iff [OF wf'] by blast
    with True v show ?thesis by simp
  next
    case False
    then have "affil_lookup affs' j' = affil_lookup affs j'"
      using has' by (intro affil_lookup_eqI [OF wf' wf]) auto
    with False show ?thesis by simp
  qed
qed

lemma delete_effect:
  assumes wf: "affs_wf affs" and f: "find_entry affs j [0..<5] = Some (l, a)"
  defines "affs' \<equiv> affs[l := dls_delete U (affs ! l) a]"
  shows "affs_wf affs'" and "\<forall>i < 5. a \<notin> set (dls_head (affs' ! i))" and "\<forall>i < 5. \<not> has_affil affs' i j"
    and "affil_lookup affs' j' = (if bare_key j' = bare_key j then None else affil_lookup affs j')"
proof -
  have l: "l < 5" and a: "a \<in> set (dls_head (affs ! l))"
    and key: "bare_key (af_jid (dls_cell (affs ! l) a)) = bare_key j"
    using find_entry_has [OF wf f] by simp_all
  have lk: "dls_linked (affs ! l)" and len: "length affs = 5" using wf l by (auto simp: affs_wf_def dls_linked_def)
  show wf': "affs_wf affs'" unfolding affs'_def by (rule affs_wf_delete [OF wf l a])
  have has': "has_affil affs' i j'' \<longleftrightarrow> has_affil affs i j'' \<and> bare_key j'' \<noteq> bare_key j" if "i < 5" for i j''
    unfolding affs'_def using has_affil_delete [OF wf l a that] key by simp
  then show none: "\<forall>i < 5. \<not> has_affil affs' i j" by simp
  show "\<forall>i < 5. a \<notin> set (dls_head (affs' ! i))"
  proof (intro allI impI)
    fix i :: nat
    assume i: "i < 5"
    show "a \<notin> set (dls_head (affs' ! i))"
    proof (cases "i = l")
      case True
      then show ?thesis using len l by (simp add: affs'_def set_head_delete [OF lk a])
    next
      case False
      then show ?thesis using wf i l a by (auto simp: affs'_def affs_wf_def)
    qed
  qed
  show "affil_lookup affs' j' = (if bare_key j' = bare_key j then None else affil_lookup affs j')"
  proof (cases "bare_key j' = bare_key j")
    case True
    then have "\<forall>i < 5. \<not> has_affil affs' i j'" using has' by simp
    then have "affil_lookup affs' j' = None"
      using affil_lookup_iff [OF wf', of j'] by (cases "affil_lookup affs' j'") auto
    with True show ?thesis by simp
  next
    case False
    then have "affil_lookup affs' j' = affil_lookup affs j'"
      using has' by (intro affil_lookup_eqI [OF wf' wf]) auto
    with False show ?thesis by simp
  qed
qed

end

subsection \<open>The rules of changing an affiliation\<close>

text \<open>
  Who is refused: a sender who is not an owner and gives, or changes, an affiliation of admin
  or higher; and the only owner revoking his own ownership.
\<close>

definition add_refused :: "affiliations \<Rightarrow> participant option \<Rightarrow> int \<Rightarrow> jid \<Rightarrow> bool" where
  "add_refused affs sender affiliation j \<longleftrightarrow>
     (case sender of
        None \<Rightarrow> False
      | Some s \<Rightarrow>
          (p_affiliation s \<noteq> AFFIL_OWNER \<and>
            (affiliation \<ge> AFFIL_ADMIN \<or> affil_lookup affs j \<in> {Some AFFIL_ADMIN, Some AFFIL_OWNER})) \<or>
          (affil_lookup affs j = Some AFFIL_OWNER \<and> bare_key (p_jid s) = bare_key j \<and>
            length (dls_head (affs ! 4)) = 1))"

lemma lookup_found: "find_entry affs j [0..<5] = Some (l, a) \<Longrightarrow> affil_lookup affs j = Some (int l)"
  by (simp add: affil_lookup_def)

lemma lookup_not_found: "find_entry affs j [0..<5] = None \<Longrightarrow> affil_lookup affs j = None"
  by (simp add: affil_lookup_def)

lemma singleton_iff_length: "a \<in> set xs \<Longrightarrow> xs = [a] \<longleftrightarrow> length xs = 1"
  by (cases xs) auto

lemma affiliationss_add_refused_iff:
  assumes wf: "affs_wf affs" and s: "\<And>s. sender = Some s \<Longrightarrow> jid_nul_free (p_jid s)"
  shows "snd (affiliationss_add U affs sender v j r) \<longleftrightarrow> \<not> add_refused affs sender v j"
proof (cases "find_entry affs j [0..<5]")
  case None
  then show ?thesis
    by (cases sender) (auto simp: affiliationss_add_eq add_refused_def lookup_not_found)
next
  case (Some p)
  then obtain l a where p: "find_entry affs j [0..<5] = Some (l, a)" by (cases p) auto
  have h: "l < 5" "a \<in> set (dls_head (affs ! l))"
    "bare_key (af_jid (dls_cell (affs ! l) a)) = bare_key j"
    using find_entry_has [OF wf p] by simp_all
  show ?thesis
  proof (cases sender)
    case None
    with p show ?thesis by (simp add: affiliationss_add_eq add_refused_def Let_def)
  next
    case (Some sd)
    have self: "jid_cmp (p_jid sd) (af_jid (dls_cell (affs ! l) a)) JID_BARE = 0 \<longleftrightarrow> bare_key (p_jid sd) = bare_key j"
      using s [OF Some] h(3) by (simp add: jid_cmp_bare_key)
    have level: "int l \<ge> AFFIL_ADMIN \<longleftrightarrow> l = 3 \<or> l = 4" using h(1) by auto
    have owner: "int l = AFFIL_OWNER \<longleftrightarrow> l = 4" by auto
    show ?thesis
      unfolding affiliationss_add_eq add_refused_def p Some lookup_found [OF p]
      by (simp add: self level owner singleton_iff_length [OF h(2)] Let_def) (use h(1) in auto)
  qed
qed

lemma affiliationss_add_refused_unchanged:
  "\<not> snd (affiliationss_add U affs sender v j r) \<Longrightarrow> fst (affiliationss_add U affs sender v j r) = affs"
  by (auto simp: affiliationss_add_eq Let_def split: option.splits prod.splits if_splits)

lemma affiliationss_add_done_cases:
  assumes "affiliationss_add U affs sender v j r = (affs', True)"
  obtains (fresh) "find_entry affs j [0..<5] = None"
      "affs' = affiliation_place U affs v j r (affiliations_malloc affs) affiliation_init"
  | (moved) l a where "find_entry affs j [0..<5] = Some (l, a)"
      "affs' = affiliation_place U (affs[l := dls_delete U (affs ! l) a]) v j r a (dls_cell (affs ! l) a)"
  using assms
  by (auto simp: affiliationss_add_eq Let_def split: option.splits prod.splits if_splits)

context utlist_laws
begin

lemma affiliation_place_effect:
  fixes r :: "bytes option" and e :: affiliation
  assumes wf: "affs_wf affs" and v: "0 \<le> v" "v \<le> 4" and j: "storable j"
    and fresh: "\<forall>i < 5. a \<notin> set (dls_head (affs ! i))" and none: "\<forall>i < 5. \<not> has_affil affs i j"
  defines "affs' \<equiv> affiliation_place U affs v j r a e"
  shows "affs_wf affs'"
    and "affil_lookup affs' j' =
      (if bare_key j' = bare_key j then if v = AFFIL_NONE then None else Some v else affil_lookup affs j')"
proof -
  have "affil_lookup affs j' = None" if "bare_key j' = bare_key j"
    using affil_lookup_iff [OF wf, of j'] none that
    by (cases "affil_lookup affs j'") (auto simp: has_affil_def)
  then show "affs_wf affs'" and "affil_lookup affs' j' =
      (if bare_key j' = bare_key j then if v = AFFIL_NONE then None else Some v else affil_lookup affs j')"
    using place_effect [OF wf v _ j fresh none,
        of "fst (affiliation_set_reason (e\<lparr>af_jid := jid_set (af_jid e) j JID_BARE\<rparr>) r)" "af_jid e"] wf
    by (auto simp: affs'_def affiliation_place_def Let_def)
qed

lemma affiliationss_add_done:
  assumes wf: "affs_wf affs" and v: "0 \<le> v" "v \<le> 4" and j: "storable j"
    and ok: "affiliationss_add U affs sender v j r = (affs', True)"
  shows "affs_wf affs' \<and> affil_lookup affs' j' =
    (if bare_key j' = bare_key j then if v = AFFIL_NONE then None else Some v else affil_lookup affs j')"
  using ok
proof (cases rule: affiliationss_add_done_cases)
  case fresh
  have "\<forall>i < 5. \<not> has_affil affs i j" using find_entry_hasnt [OF wf] fresh(1) by blast
  then show ?thesis
    using affiliation_place_effect [OF wf v j] affiliations_malloc_fresh [OF wf] fresh(2) by simp
next
  case (moved l a)
  note d = delete_effect [OF wf moved(1)]
  show ?thesis using affiliation_place_effect [OF d(1) v j d(2,3)] d(4) moved(2) by simp
qed

text \<open>The list of owners after a change by an owner who is in it.\<close>

lemma owners_kept:
  assumes wf: "affs_wf affs" and v: "0 \<le> v" "v \<le> 4" and j: "storable j"
    and s: "jid_nul_free (p_jid s)" and own: "affil_lookup affs (p_jid s) = Some AFFIL_OWNER"
  shows "dls_head (fst (affiliationss_add U affs (Some s) v j r) ! 4) \<noteq> []"
proof -
  have "has_affil affs 4 (p_jid s)" using own by (auto simp: affil_lookup_iff [OF wf])
  then obtain b where b: "b \<in> set (dls_head (affs ! 4))"
    and kb: "bare_key (af_jid (dls_cell (affs ! 4) b)) = bare_key (p_jid s)"
    by (auto simp: has_affil_def)
  obtain affs' ok where res: "affiliationss_add U affs (Some s) v j r = (affs', ok)" by fastforce
  show ?thesis
  proof (cases ok)
    case False
    then have "affs' = affs" using affiliationss_add_refused_unchanged [of U affs "Some s" v j r] res by simp
    then show ?thesis using b res by auto
  next
    case True
    have ref: "\<not> add_refused affs (Some s) v j"
      using affiliationss_add_refused_iff [OF wf, of "Some s" U v j r] s res True by simp
    show ?thesis
    proof (cases "bare_key j = bare_key (p_jid s)")
      case False
      have "affil_lookup affs' (p_jid s) = Some AFFIL_OWNER"
        using affiliationss_add_done [OF wf v j, of "Some s" r affs' "p_jid s"] res True own False by auto
      moreover have "affs_wf affs'" using affiliationss_add_done [OF wf v j, of "Some s" r] res True by simp
      ultimately have "has_affil affs' 4 (p_jid s)" by (auto simp: affil_lookup_iff)
      then show ?thesis using res by (auto simp: has_affil_def)
    next
      case same: True
      then have "affil_lookup affs j = Some AFFIL_OWNER"
        using own wf by (simp add: affil_lookup_eqI [OF wf wf, of j "p_jid s"] has_affil_def)
      then have n: "length (dls_head (affs ! 4)) \<noteq> 1" using ref same by (auto simp: add_refused_def)
      obtain l a where m: "find_entry affs j [0..<5] = Some (l, a)"
        "affs' = affiliation_place U (affs[l := dls_delete U (affs ! l) a]) v j r a (dls_cell (affs ! l) a)"
        using res True \<open>affil_lookup affs j = Some AFFIL_OWNER\<close>
        by (auto elim!: affiliationss_add_done_cases simp: affil_lookup_def)
      have l: "l = 4" "a \<in> set (dls_head (affs ! 4))"
        using lookup_found [OF m(1)] \<open>affil_lookup affs j = Some AFFIL_OWNER\<close> find_entry_has [OF wf m(1)] by auto
      have len: "length affs = 5" and lk: "dls_linked (affs ! 4)" using wf by (auto simp: affs_wf_def dls_linked_def)
      have "length (remove1 a (dls_head (affs ! 4))) \<noteq> 0"
        using n l(2) by (simp add: length_remove1) (cases "dls_head (affs ! 4)"; auto)
      then have ne: "dls_head (dls_delete U (affs ! 4) a) \<noteq> []" by (auto simp: head_delete [OF lk l(2)])
      have fr: "a \<notin> set (dls_head (dls_delete U (affs ! 4) a))" by (simp add: set_head_delete [OF lk l(2)])
      show ?thesis
        using res ne fr len unfolding m(2) l(1)
        by (cases "nat v = 4") (auto simp: affiliation_place_def Let_def head_append m(2) l(1))
    qed
  qed
qed

end

lemma affiliation_by_name_range:
  "affiliation_by_name name = AFFIL_UNCHANGED \<or> affiliation_by_name name \<in> {0..4}"
  by (simp add: affiliation_by_name_def affiliation_names_def)

lemma affiliationss_add_effect:
  assumes "utlist_laws U" and "affs_wf affs" and "0 \<le> v" and "v \<le> 4" and "storable j"
    and "\<forall>s. sender = Some s \<longrightarrow> jid_nul_free (p_jid s)"
    and "affiliationss_add U affs sender v j r = (affs', ok)"
  shows "(ok \<longleftrightarrow> \<not> add_refused affs sender v j) \<and> affs_wf affs' \<and> (\<not> ok \<longrightarrow> affs' = affs) \<and>
    (ok \<longrightarrow> (\<forall>j'. affil_lookup affs' j' =
      (if bare_key j' = bare_key j then if v = AFFIL_NONE then None else Some v else affil_lookup affs j')))"
proof -
  have "ok \<longleftrightarrow> \<not> add_refused affs sender v j"
    using affiliationss_add_refused_iff [OF assms(2), of sender U v j r] assms(6,7) by simp
  moreover have "\<not> ok \<longrightarrow> affs' = affs"
    using affiliationss_add_refused_unchanged [of U affs sender v j r] assms(7) by simp
  ultimately show ?thesis
    using utlist_laws.affiliationss_add_done [OF assms(1-5), of sender r affs'] assms(2,7) by auto
qed

text \<open>
  Property C2: a change of affiliation is refused exactly to a sender without the privilege and to
  the only owner revoking himself, and then changes nothing; otherwise the bare address gets
  the new affiliation (or none), every other address keeps the one it had, and the invariant
  holds again.
\<close>

theorem affiliationss_add_semantics:
  assumes "utlist_laws U" and "affs_wf affs" and "0 \<le> v" and "v \<le> 4" and "storable j"
    and "\<forall>s. sender = Some s \<longrightarrow> jid_nul_free (p_jid s)"
    and "affiliationss_add U affs sender v j r = (affs', ok)"
  shows "(ok \<longleftrightarrow> \<not> add_refused affs sender v j) \<and> affs_wf affs' \<and> (\<not> ok \<longrightarrow> affs' = affs) \<and>
    (ok \<longrightarrow> (\<forall>j'. affil_lookup affs' j' =
      (if bare_key j' = bare_key j then if v = AFFIL_NONE then None else Some v else affil_lookup affs j')))"
  using assms by (rule affiliationss_add_effect)

definition example_affs :: affiliations where
  "example_affs =
     (let l = dls_init 0 affiliation_init;
          owner = \<lparr>af_jid = \<lparr>jid_node = Some ''ann'', jid_host = Some ''h'', jid_resource = None\<rparr>, af_reason_node = None\<rparr>;
          banned = \<lparr>af_jid = \<lparr>jid_node = Some ''bob'', jid_host = Some ''h'', jid_resource = None\<rparr>, af_reason_node = None\<rparr>
      in [dls_append utlist_ref l 1 banned, l, l, l, dls_append utlist_ref l 2 owner])"

definition example_owner :: participant where
  "example_owner = participant_zero\<lparr>p_affiliation := AFFIL_OWNER,
     p_jid := \<lparr>jid_node = Some ''Ann'', jid_host = Some ''h'', jid_resource = Some ''home''\<rparr>\<rparr>"

lemma nth_five: "i < 5 \<longleftrightarrow> i \<in> {0, 1, 2, 3, 4::nat}"
  by auto

lemma example_affs_wf: "affs_wf example_affs"
  by (rule affs_wfI)
    (auto simp: example_affs_def Let_def nth_five dls_append_def dls_init_def utlist_ref_def
      jid_nul_free_def nul_free_def bare_key_def lower_def tolower_def)

theorem affiliationss_add_semantics_witness:
  "snd (affiliationss_add utlist_ref example_affs (Some example_owner) AFFIL_ADMIN
     \<lparr>jid_node = Some ''eve'', jid_host = Some ''h'', jid_resource = None\<rparr> None)"
proof -
  let ?j = "\<lparr>jid_node = Some ''eve'', jid_host = Some ''h'', jid_resource = None\<rparr>"
  obtain affs' ok where r: "affiliationss_add utlist_ref example_affs (Some example_owner) AFFIL_ADMIN ?j None = (affs', ok)"
    by fastforce
  have "ok \<longleftrightarrow> \<not> add_refused example_affs (Some example_owner) AFFIL_ADMIN ?j"
    using affiliationss_add_semantics [OF utlist_ref.utlist_laws_axioms example_affs_wf _ _ _ _ r]
    by (simp add: storable_def jid_wf_def jid_nul_free_def nul_free_def example_owner_def)
  moreover have "\<not> add_refused example_affs (Some example_owner) AFFIL_ADMIN ?j" by code_simp
  ultimately show ?thesis by (simp add: r)
qed

text \<open>
  An owner who is in the list of owners can never leave the room without owners,
  whatever change he asks for.
\<close>

theorem owner_keeps_an_owner:
  assumes "utlist_laws U" and "affs_wf affs" and "0 \<le> v" and "v \<le> 4" and "storable j"
    and "jid_nul_free (p_jid s)" and "affil_lookup affs (p_jid s) = Some AFFIL_OWNER"
  shows "dls_head (fst (affiliationss_add U affs (Some s) v j r) ! 4) \<noteq> []"
  by (rule utlist_laws.owners_kept [OF assms])

theorem owner_keeps_an_owner_witness:
  "dls_head (fst (affiliationss_add utlist_ref example_affs (Some example_owner) AFFIL_NONE (p_jid example_owner) None) ! 4) \<noteq> []"
proof (rule owner_keeps_an_owner [OF utlist_ref.utlist_laws_axioms example_affs_wf])
  show "affil_lookup example_affs (p_jid example_owner) = Some AFFIL_OWNER" by code_simp
qed (simp_all add: storable_def jid_wf_def jid_nul_free_def nul_free_def example_owner_def)

subsection \<open>The affiliation of an address\<close>

definition host_lookup :: "affiliations \<Rightarrow> jid \<Rightarrow> int option" where
  "host_lookup affs j =
     map_option int (find (\<lambda>i. \<exists>e \<in> set (dls_values (affs ! i)). same_host (af_jid e) j) [0..<5])"

lemma search_lists_find:
  "search_lists (\<lambda>i. Ret (affs ! i)) j mode is =
     Ret (find (\<lambda>i. \<exists>e \<in> set (dls_values (affs ! i)). jid_cmp (af_jid e) j mode = 0) is)"
proof (induction "is")
  case Nil
  show ?case by simp
next
  case (Cons i "is")
  have "affiliations_find_by_jid (affs ! i) j mode \<noteq> None \<longleftrightarrow>
      (\<exists>e \<in> set (dls_values (affs ! i)). jid_cmp (af_jid e) j mode = 0)"
    unfolding affiliations_find_by_jid_def dls_find_None set_dls_values by auto
  with Cons show ?case by simp
qed

lemma find_cong_all: "(\<And>x. x \<in> set xs \<Longrightarrow> P x = Q x) \<Longrightarrow> find P xs = find Q xs"
  by (induction xs) auto

lemma search_bare:
  assumes "affs_wf affs"
  shows "find (\<lambda>i. \<exists>e \<in> set (dls_values (affs ! i)). jid_cmp (af_jid e) j JID_BARE = 0) is =
    map_option fst (find_entry affs j is)"
proof (induction "is")
  case Nil
  show ?case by simp
next
  case (Cons i "is")
  show ?case
  proof (cases "affiliations_find_by_jid (affs ! i) j JID_BARE")
    case None
    then have "\<not> (\<exists>e \<in> set (dls_values (affs ! i)). jid_cmp (af_jid e) j JID_BARE = 0)"
      by (simp add: affiliations_find_by_jid_def dls_find_None set_dls_values)
    with Cons None show ?thesis by simp
  next
    case (Some a)
    then have "\<exists>e \<in> set (dls_values (affs ! i)). jid_cmp (af_jid e) j JID_BARE = 0"
      by (auto simp: affiliations_find_by_jid_def set_dls_values dest!: dls_find_Some)
    with Some show ?thesis by simp
  qed
qed

lemma search_host:
  assumes "affs_wf affs"
  shows "find (\<lambda>i. \<exists>e \<in> set (dls_values (affs ! i)). jid_cmp (af_jid e) j JID_HOST = 0) [0..<5] =
    find (\<lambda>i. \<exists>e \<in> set (dls_values (affs ! i)). same_host (af_jid e) j) [0..<5]"
  by (rule find_cong_all) (auto simp: set_dls_values jid_cmp_host affs_wf_nul_free [OF assms])

lemma affiliation_of_address_eq:
  assumes "affs_wf affs"
  shows "affiliationss_get_by_jid (\<lambda>i. Ret (affs ! i)) acl j =
    Ret (if acl_role acl j \<ge> ACL_MUC_ADMIN then AFFIL_OWNER
         else case affil_lookup affs j of
                Some v \<Rightarrow> v
              | None \<Rightarrow> (case host_lookup affs j of Some v \<Rightarrow> v | None \<Rightarrow> AFFIL_NONE))"
  unfolding affiliationss_get_by_jid_def search_lists_find search_bare [OF assms] search_host [OF assms]
  by (auto simp: affil_lookup_def host_lookup_def split: option.split)

text \<open>
  Read through pointers that lead to the room's own lists, the affiliation of an
  address is owner for a service administrator; else the affiliation its bare address has;
  else that of the lowest list with an entry of the same host, whatever the entry's node is;
  else none.
\<close>

theorem affiliation_of_address:
  assumes "affs_wf affs"
  shows "affiliationss_get_by_jid (\<lambda>i. Ret (affs ! i)) acl j =
    Ret (if acl_role acl j \<ge> ACL_MUC_ADMIN then AFFIL_OWNER
         else case affil_lookup affs j of
                Some v \<Rightarrow> v
              | None \<Rightarrow> (case host_lookup affs j of Some v \<Rightarrow> v | None \<Rightarrow> AFFIL_NONE))"
  using assms by (rule affiliation_of_address_eq)

text \<open>Nobody has an affiliation of his own here, but a banned user is on the same host.\<close>

theorem affiliation_of_address_witness:
  "affiliationss_get_by_jid (\<lambda>i. Ret (example_affs ! i)) \<lparr>acl_default_role = ACL_MUC_CREATE, acl_first = []\<rparr>
     \<lparr>jid_node = Some ''eve'', jid_host = Some ''h'', jid_resource = None\<rparr> = Ret AFFIL_OUTCAST"
  unfolding affiliation_of_address [OF example_affs_wf] by code_simp

end
