(* ===== verification/History.thy ===== *)
theory History
  imports Utss Jid
begin

text \<open>
  \<^verbatim>\<open>src/history_entry/history_entry.c\<close> and \<^verbatim>\<open>src/history_entry/history_entries.c\<close>: the discussion
  history of a room; \<^verbatim>\<open>src/registered_nick/registered_nick.c\<close> and
  \<^verbatim>\<open>src/registered_nick/registered_nicks.c\<close>: the nicknames registered with the service (which are
  only ever read from and written to the data file).
\<close>

abbreviation MAX_HISTORY_HEADER_SIZE :: nat where "MAX_HISTORY_HEADER_SIZE \<equiv> 65000"
abbreviation MAX_HISTORY_INNER_SIZE :: nat where "MAX_HISTORY_INNER_SIZE \<equiv> 65000"

record history_entry =
  he_nick :: "bytes option"
  he_header :: "bytes option"
  he_inner :: "bytes option"
  he_delay :: int

definition history_entry_init :: history_entry where
  "history_entry_init = \<lparr>he_nick = None, he_header = None, he_inner = None, he_delay = 0\<rparr>"

definition history_entry_serialize :: "history_entry \<Rightarrow> put" where
  "history_entry_serialize e =
     put_and (buffer_ptr_serialize (he_nick e))
    (put_and (buffer_ptr_serialize (he_header e))
    (put_and (buffer_ptr_serialize (he_inner e))
             (serialize_base 8 (he_delay e))))"

definition history_entry_deserialize :: "history_entry get" where
  "history_entry_deserialize =
     get_and (buffer_ptr_deserialize (int MAX_JID_PART_SIZE)) (\<lambda>nick.
     get_and (buffer_ptr_deserialize (int MAX_HISTORY_HEADER_SIZE)) (\<lambda>header.
     get_and (buffer_ptr_deserialize (int MAX_HISTORY_INNER_SIZE)) (\<lambda>inner.
     get_and (deserialize_base 8) (\<lambda>delay.
       get_return \<lparr>he_nick = nick, he_header = header, he_inner = inner, he_delay = delay\<rparr>))))"

definition history_entry_set_header :: "history_entry \<Rightarrow> bytes option \<Rightarrow> history_entry \<times> bool" where
  "history_entry_set_header e header =
     (case bpt_setter (he_header e) header MAX_HISTORY_HEADER_SIZE of (b, ok) \<Rightarrow> (e\<lparr>he_header := b\<rparr>, ok))"

definition history_entry_set_inner :: "history_entry \<Rightarrow> bytes option \<Rightarrow> history_entry \<times> bool" where
  "history_entry_set_inner e inner =
     (case bpt_setter (he_inner e) inner MAX_HISTORY_INNER_SIZE of (b, ok) \<Rightarrow> (e\<lparr>he_inner := b\<rparr>, ok))"

text \<open>The limit compared as an integer, which is how it is evaluated.\<close>

lemma history_entry_set_inner_code [code]:
  "history_entry_set_inner e inner =
     (case inner of
        None \<Rightarrow> (e\<lparr>he_inner := None\<rparr>, True)
      | Some bs \<Rightarrow>
          if int (length bs) > 65000 then (e, False)
          else if bs = [] \<and> he_inner e \<noteq> None then (e\<lparr>he_inner := None\<rparr>, True)
          else (e\<lparr>he_inner := Some bs\<rparr>, True))"
  by (auto simp: history_entry_set_inner_def bpt_setter_def split: option.split)

definition history_entry_set_nick :: "history_entry \<Rightarrow> bytes option \<Rightarrow> history_entry \<times> bool" where
  "history_entry_set_nick e nick =
     (case bpt_setter (he_nick e) nick MAX_JID_PART_SIZE of (b, ok) \<Rightarrow> (e\<lparr>he_nick := b\<rparr>, ok))"

definition history_entries_serialize :: "history_entry dls \<Rightarrow> put" where
  "history_entries_serialize l = container_serialize history_entry_serialize l"

definition history_entries_deserialize ::
  "utlist \<Rightarrow> history_entry dls \<Rightarrow> bytes \<Rightarrow> (history_entry dls \<times> bytes) option" where
  "history_entries_deserialize U l = container_deserialize U history_entry_deserialize l"

subsection \<open>Adding an entry\<close>

text \<open>
  The loop that deletes the head \<open>while (max_size > size)\<close>. It is given one step more than the
  list has nodes, which is enough for it to reach the null pointer at the end of the list.
\<close>

fun history_trim :: "utlist \<Rightarrow> nat \<Rightarrow> history_entry dls \<Rightarrow> history_entry dls run" where
  "history_trim U 0 l = Fault Unbounded"
| "history_trim U (Suc n) l =
     (if dls_max_size l > dls_size l then
        (case dls_head l of
           [] \<Rightarrow> Fault NullDereference
         | a # _ \<Rightarrow> history_trim U n (dls_delete U l a))
      else Ret l)"

definition history_entries_push ::
  "utlist \<Rightarrow> history_entry dls \<Rightarrow> (history_entry dls \<times> addr option) run" where
  "history_entries_push U l0 =
     bind_run (history_trim U (Suc (length (dls_head l0))) l0) (\<lambda>l.
       if dls_max_size l = 0 then Ret (l, None)
       else if dls_size l < dls_max_size l then
         (let a = malloc_addr (dls_head l);
              l' = dls_append U l a history_entry_init
          in Ret (l'\<lparr>dls_size := dls_size l' + 1\<rparr>, Some a))
       else
         (case dls_head l of
            [] \<Rightarrow> Fault NullDereference
          | a # _ \<Rightarrow> Ret (dls_append U (dls_delete U l a) a (dls_cell l a), Some a)))"

context utlist_laws
begin

lemma history_trim_faults:
  "dls_linked l \<Longrightarrow> dls_max_size l > dls_size l \<Longrightarrow> length (dls_head l) < n \<Longrightarrow>
   history_trim U n l = Fault NullDereference"
proof (induction n arbitrary: l)
  case 0
  then show ?case by simp
next
  case (Suc n)
  show ?case
  proof (cases "dls_head l")
    case Nil
    with Suc.prems show ?thesis by simp
  next
    case (Cons a as)
    then have "dls_head (dls_delete U l a) = as" using Suc.prems by (simp add: head_delete)
    then have "history_trim U n (dls_delete U l a) = Fault NullDereference"
      using Suc.prems Cons by (intro Suc.IH linked_delete) auto
    with Cons Suc.prems show ?thesis by simp
  qed
qed

end

lemma history_push_result:
  assumes "utlist_laws U" and "dls_linked l"
  shows "history_entries_push U l =
      (if dls_size l < dls_max_size l then Fault NullDereference
       else if dls_max_size l = 0 then Ret (l, None)
       else if dls_head l = [] then Fault NullDereference
       else let a = hd (dls_head l) in Ret (dls_append U (dls_delete U l a) a (dls_cell l a), Some a)) \<and>
    (dls_head l \<noteq> [] \<longrightarrow>
      dls_values (dls_append U (dls_delete U l (hd (dls_head l))) (hd (dls_head l)) (dls_cell l (hd (dls_head l))))
        = tl (dls_values l) @ [hd (dls_values l)])"
proof (cases "dls_head l")
  case Nil
  then show ?thesis
    using utlist_laws.history_trim_faults [OF assms, of "Suc (length (dls_head l))"]
    by (simp add: history_entries_push_def)
next
  case (Cons a as)
  let ?d = "dls_delete U l a"
  have d: "dls_head ?d = as" using assms Cons by (simp add: utlist_laws.head_delete)
  have "a \<notin> set as" using assms(2) Cons by (simp add: dls_linked_def)
  then have "dls_head (dls_append U ?d a (dls_cell l a)) = as @ [a]"
    using utlist_laws.head_append [OF assms(1), of a ?d] d by simp
  then show ?thesis
    using utlist_laws.history_trim_faults [OF assms, of "Suc (length (dls_head l))"] Cons
    by (simp add: history_entries_push_def dls_values_def Let_def)
qed

text \<open>
  Property C37: a history with room left ends the process when something is added; a history
  that is switched off gives no entry; and a full one reuses its oldest entry as the newest,
  with the same entries in the same order otherwise.
\<close>

theorem history_push_outcomes:
  assumes "utlist_laws U" and "dls_linked l"
  shows "history_entries_push U l =
      (if dls_size l < dls_max_size l then Fault NullDereference
       else if dls_max_size l = 0 then Ret (l, None)
       else if dls_head l = [] then Fault NullDereference
       else let a = hd (dls_head l) in Ret (dls_append U (dls_delete U l a) a (dls_cell l a), Some a)) \<and>
    (dls_head l \<noteq> [] \<longrightarrow>
      dls_values (dls_append U (dls_delete U l (hd (dls_head l))) (hd (dls_head l)) (dls_cell l (hd (dls_head l))))
        = tl (dls_values l) @ [hd (dls_values l)])"
  using assms by (rule history_push_result)

definition example_history :: "history_entry dls" where
  "example_history =
     \<lparr>dls_head = [1, 2], dls_cell = (\<lambda>a. history_entry_init\<lparr>he_delay := int a\<rparr>), dls_size = 2, dls_max_size = 2\<rparr>"

theorem history_push_outcomes_witness:
  "(case history_entries_push utlist_ref example_history of
      Ret (l', e) \<Rightarrow> e = Some 1 \<and> map he_delay (dls_values l') = [2, 1] | Fault _ \<Rightarrow> False) \<and>
   history_entries_push utlist_ref (dls_init 20 history_entry_init) = Fault NullDereference"
proof
  have "history_entries_push utlist_ref example_history =
      Ret (dls_append utlist_ref (dls_delete utlist_ref example_history 1) 1 (dls_cell example_history 1), Some 1)"
    and "dls_values (dls_append utlist_ref (dls_delete utlist_ref example_history 1) 1 (dls_cell example_history 1))
      = tl (dls_values example_history) @ [hd (dls_values example_history)]"
    using history_push_outcomes [OF utlist_ref.utlist_laws_axioms, of example_history]
    by (simp_all add: example_history_def dls_linked_def)
  then show "case history_entries_push utlist_ref example_history of
      Ret (l', e) \<Rightarrow> e = Some 1 \<and> map he_delay (dls_values l') = [2, 1] | Fault _ \<Rightarrow> False"
    by (simp add: example_history_def dls_values_def dls_append_def dls_delete_def utlist_ref_def)
  show "history_entries_push utlist_ref (dls_init 20 history_entry_init) = Fault NullDereference"
    using history_push_outcomes [OF utlist_ref.utlist_laws_axioms, of "dls_init 20 history_entry_init"]
    by (simp add: dls_wf_linked)
qed

subsection \<open>The file format\<close>

definition enc_history_entry :: "history_entry \<Rightarrow> bytes" where
  "enc_history_entry e =
     enc_buffer (he_nick e) @ enc_buffer (he_header e) @ enc_buffer (he_inner e) @ enc_int 8 (he_delay e)"

definition valid_history_entry :: "history_entry \<Rightarrow> bool" where
  "valid_history_entry e \<longleftrightarrow>
     valid_buffer (int MAX_JID_PART_SIZE) (he_nick e) \<and>
     valid_buffer (int MAX_HISTORY_HEADER_SIZE) (he_header e) \<and>
     valid_buffer (int MAX_HISTORY_INNER_SIZE) (he_inner e) \<and> fits 8 (he_delay e)"

definition canon_history_entry :: "history_entry \<Rightarrow> history_entry" where
  "canon_history_entry e =
     \<lparr>he_nick = canon_buffer (he_nick e), he_header = canon_buffer (he_header e),
      he_inner = canon_buffer (he_inner e), he_delay = he_delay e\<rparr>"

interpretation history_entry: codec history_entry_serialize history_entry_deserialize
    enc_history_entry valid_history_entry canon_history_entry
proof
  show "history_entry_serialize x = fwrite (enc_history_entry x)" for x
    by (simp add: history_entry_serialize_def enc_history_entry_def serialize_base_def
      buffer_ptr.put_and_put)
  show "history_entry_deserialize (enc_history_entry x @ rest) = Some (canon_history_entry x, rest)"
    if "valid_history_entry x" for x rest
    using that unfolding valid_history_entry_def
    by (simp add: history_entry_deserialize_def enc_history_entry_def canon_history_entry_def
      buffer_ptr.get_and_enc base.get_and_enc get_return_def)
qed

subsection \<open>Registered nicknames\<close>

record registered_nick =
  rn_jid :: jid
  rn_nick :: "bytes option"

definition registered_nick_serialize :: "registered_nick \<Rightarrow> put" where
  "registered_nick_serialize r = put_and (jid_serialize (rn_jid r)) (buffer_serialize (rn_nick r))"

definition registered_nick_deserialize :: "registered_nick get" where
  "registered_nick_deserialize =
     get_and jid_deserialize (\<lambda>j.
     get_and (buffer_deserialize (int MAX_JID_PART_SIZE)) (\<lambda>nick.
       get_return \<lparr>rn_jid = j, rn_nick = nick\<rparr>))"

definition registered_nicks_serialize :: "registered_nick dls \<Rightarrow> put" where
  "registered_nicks_serialize l = container_serialize registered_nick_serialize l"

definition registered_nicks_deserialize ::
  "utlist \<Rightarrow> registered_nick dls \<Rightarrow> bytes \<Rightarrow> (registered_nick dls \<times> bytes) option" where
  "registered_nicks_deserialize U l = container_deserialize U registered_nick_deserialize l"

definition enc_registered_nick :: "registered_nick \<Rightarrow> bytes" where
  "enc_registered_nick r = enc_buffer (jid_buffer (rn_jid r)) @ enc_buffer (rn_nick r)"

definition valid_registered_nick :: "registered_nick \<Rightarrow> bool" where
  "valid_registered_nick r \<longleftrightarrow> jid_wf (rn_jid r) \<and> valid_buffer (int MAX_JID_PART_SIZE) (rn_nick r)"

definition canon_registered_nick :: "registered_nick \<Rightarrow> registered_nick" where
  "canon_registered_nick r = \<lparr>rn_jid = jid_canon (rn_jid r), rn_nick = canon_buffer (rn_nick r)\<rparr>"

interpretation registered_nick: codec registered_nick_serialize registered_nick_deserialize
    enc_registered_nick valid_registered_nick canon_registered_nick
proof
  show "registered_nick_serialize x = fwrite (enc_registered_nick x)" for x
    by (simp add: registered_nick_serialize_def enc_registered_nick_def jid_codec.put_and_put
      buffer.put_enc)
  show "registered_nick_deserialize (enc_registered_nick x @ rest) = Some (canon_registered_nick x, rest)"
    if "valid_registered_nick x" for x rest
    using that unfolding valid_registered_nick_def
    by (simp add: registered_nick_deserialize_def enc_registered_nick_def canon_registered_nick_def
      jid_codec.get_and_enc buffer.get_and_enc get_return_def)
qed

end
