(* ===== verification/Room.thy ===== *)
theory Room
  imports Participants Affiliations History
begin

text \<open>
  \<^verbatim>\<open>src/room/room.h\<close> and the part of \<^verbatim>\<open>src/room/room.c\<close> that keeps a room: its creation and
  destruction, joining, leaving, and its serialization. The routing of stanzas is in
  \<open>Routing\<close>. The mutex and the hash handle of a room are not part of its record.
\<close>

abbreviation ROLE_UNCHANGED :: int where "ROLE_UNCHANGED \<equiv> -2"
abbreviation ROLE_NONE :: int where "ROLE_NONE \<equiv> 0"
abbreviation ROLE_VISITOR :: int where "ROLE_VISITOR \<equiv> 1"
abbreviation ROLE_PARTICIPANT :: int where "ROLE_PARTICIPANT \<equiv> 2"
abbreviation ROLE_MODERATOR :: int where "ROLE_MODERATOR \<equiv> 3"

definition role_names :: "bytes list" where
  "role_names = [''none'', ''visitor'', ''participant'', ''moderator'']"

abbreviation USER_STRING_OPTION_LIMIT :: nat where "USER_STRING_OPTION_LIMIT \<equiv> 8192"
abbreviation PARTICIPANTS_LIMIT :: int where "PARTICIPANTS_LIMIT \<equiv> 1024"
abbreviation REASONABLE_RAW_LIMIT :: int where "REASONABLE_RAW_LIMIT \<equiv> 1048576"

subsection \<open>Flags\<close>

abbreviation MUC_FLAG_ALLOWPM :: "32 word" where "MUC_FLAG_ALLOWPM \<equiv> 0x1"
abbreviation MUC_FLAG_CHANGESUBJECT :: "32 word" where "MUC_FLAG_CHANGESUBJECT \<equiv> 0x2"
abbreviation MUC_FLAG_ENABLELOGGING :: "32 word" where "MUC_FLAG_ENABLELOGGING \<equiv> 0x4"
abbreviation MUC_FLAG_MEMBERSONLY :: "32 word" where "MUC_FLAG_MEMBERSONLY \<equiv> 0x8"
abbreviation MUC_FLAG_MODERATEDROOM :: "32 word" where "MUC_FLAG_MODERATEDROOM \<equiv> 0x10"
abbreviation MUC_FLAG_PASSWORDPROTECTEDROOM :: "32 word" where "MUC_FLAG_PASSWORDPROTECTEDROOM \<equiv> 0x20"
abbreviation MUC_FLAG_PERSISTENTROOM :: "32 word" where "MUC_FLAG_PERSISTENTROOM \<equiv> 0x40"
abbreviation MUC_FLAG_PUBLICROOM :: "32 word" where "MUC_FLAG_PUBLICROOM \<equiv> 0x80"
abbreviation MUC_FLAG_PUBLICPARTICIPANTS :: "32 word" where "MUC_FLAG_PUBLICPARTICIPANTS \<equiv> 0x100"
abbreviation MUC_FLAG_SEMIANONYMOUS :: "32 word" where "MUC_FLAG_SEMIANONYMOUS \<equiv> 0x200"
abbreviation MUC_FLAG_IQ_PROXY :: "32 word" where "MUC_FLAG_IQ_PROXY \<equiv> 0x400"
abbreviation MUC_FLAG_INVITES :: "32 word" where "MUC_FLAG_INVITES \<equiv> 0x800"
abbreviation MUC_FLAG_VISITORSPM :: "32 word" where "MUC_FLAG_VISITORSPM \<equiv> 0x1000"
abbreviation MUC_FLAG_VISITORPRESENCE :: "32 word" where "MUC_FLAG_VISITORPRESENCE \<equiv> 0x2000"
abbreviation MUC_FLAG_JUST_CREATED :: "32 word" where "MUC_FLAG_JUST_CREATED \<equiv> 0x4000"
abbreviation MUC_FLAG_DESTROYED :: "32 word" where "MUC_FLAG_DESTROYED \<equiv> 0x8000"
abbreviation MUC_FLAG_MEWCAT :: "32 word" where "MUC_FLAG_MEWCAT \<equiv> 0x10000"

definition MUC_FLAGS_DEFAULT :: "32 word" where
  "MUC_FLAGS_DEFAULT =
     MUC_FLAG_ALLOWPM OR MUC_FLAG_CHANGESUBJECT OR MUC_FLAG_MODERATEDROOM OR MUC_FLAG_PUBLICROOM OR
     MUC_FLAG_PUBLICPARTICIPANTS OR MUC_FLAG_IQ_PROXY OR MUC_FLAG_SEMIANONYMOUS OR
     MUC_FLAG_JUST_CREATED OR MUC_FLAG_INVITES"

record room =
  room_node :: "bytes option"
  room_title :: "bytes option"
  room_description :: "bytes option"
  room_password :: "bytes option"
  room_flags :: "32 word"
  room_default_role :: int
  room_unused :: bytes                       \<comment> \<open>twelve \<open>int\<close>s that are only stored\<close>
  room_participants :: "participant dls"
  room_affiliations :: affiliations
  room_history :: "history_entry dls"
  room_subject_node :: "bytes option"
  room_subject_nick :: "bytes option"

definition has_flag :: "room \<Rightarrow> 32 word \<Rightarrow> bool" where
  "has_flag r f \<longleftrightarrow> room_flags r AND f \<noteq> 0"

definition set_flag :: "32 word \<Rightarrow> room \<Rightarrow> room" where
  "set_flag f r = r\<lparr>room_flags := room_flags r OR f\<rparr>"

definition clear_flag :: "32 word \<Rightarrow> room \<Rightarrow> room" where
  "clear_flag f r = r\<lparr>room_flags := room_flags r AND NOT f\<rparr>"

definition room_zero :: room where
  "room_zero =
     \<lparr>room_node = None, room_title = None, room_description = None, room_password = None,
      room_flags = 0, room_default_role = 0, room_unused = replicate 48 (CHR 0x00),
      room_participants = dls_init 0 participant_zero,
      room_affiliations = replicate 5 (dls_init 0 affiliation_init),
      room_history = dls_init 0 history_entry_init,
      room_subject_node = None, room_subject_nick = None\<rparr>"

definition room_init :: "bytes option \<Rightarrow> room" where
  "room_init node =
     room_zero\<lparr>room_node := buffer_ptr_cpy node, room_flags := MUC_FLAGS_DEFAULT,
       room_participants := dls_init 100 participant_zero,
       room_history := dls_init 20 history_entry_init, room_default_role := ROLE_PARTICIPANT\<rparr>"

definition room_destroy :: "utlist \<Rightarrow> room \<Rightarrow> room" where
  \<comment> \<open>the lists are emptied; the buffers are freed and not read again\<close>
  "room_destroy U r =
     r\<lparr>room_participants := dls_clear U (room_participants r),
       room_node := None, room_title := None, room_description := None,
       room_subject_node := None, room_subject_nick := None, room_password := None,
       room_affiliations := map (dls_clear U) (room_affiliations r),
       room_history := dls_clear U (room_history r)\<rparr>"

definition room_role_for_affiliation :: "room \<Rightarrow> int \<Rightarrow> int" where
  "room_role_for_affiliation r affiliation =
     (if affiliation = AFFIL_MEMBER then ROLE_PARTICIPANT
      else if affiliation = AFFIL_ADMIN \<or> affiliation = AFFIL_OWNER then ROLE_MODERATOR
      else room_default_role r)"

definition update_participant :: "addr \<Rightarrow> (participant \<Rightarrow> participant) \<Rightarrow> room \<Rightarrow> room" where
  "update_participant a f r = r\<lparr>room_participants := dls_update (room_participants r) a f\<rparr>"

definition occupant :: "room \<Rightarrow> addr \<Rightarrow> participant" where
  "occupant r a = dls_cell (room_participants r) a"

text \<open>The new participant and its address.\<close>

definition room_join :: "utlist \<Rightarrow> room \<Rightarrow> jid \<Rightarrow> bytes option \<Rightarrow> int \<Rightarrow> room \<times> addr" where
  "room_join U r j nick affiliation =
     (let a = malloc_addr (dls_head (room_participants r));
          p = fst (participant_set_nick (participant_init j) nick);
          r1 = r\<lparr>room_participants := dls_prepend U (room_participants r) a p\<rparr>
      in (update_participant a
            (\<lambda>p. p\<lparr>p_affiliation := affiliation, p_role := room_role_for_affiliation r affiliation\<rparr>) r1, a))"

definition room_leave :: "utlist \<Rightarrow> room \<Rightarrow> addr \<Rightarrow> room" where
  "room_leave U r a =
     (let r1 = r\<lparr>room_participants := dls_delete U (room_participants r) a\<rparr>
      in if \<not> has_flag r1 MUC_FLAG_PERSISTENTROOM \<and> dls_size (room_participants r1) = 0
         then set_flag MUC_FLAG_DESTROYED r1 else r1)"

subsection \<open>Serialization\<close>

definition room_serialize :: "room \<Rightarrow> put" where
  "room_serialize r =
     put_and (buffer_serialize (room_node r))
    (put_and (buffer_serialize (room_title r))
    (put_and (buffer_serialize (room_description r))
    (put_and (buffer_serialize (room_password r))
    (put_and (buffer_ptr_serialize (room_subject_node r))
    (put_and (buffer_ptr_serialize (room_subject_nick r))
    (put_and (serialize_base 4 (sint (room_flags r)))
    (put_and (serialize_base 4 (room_default_role r))
    (put_and (serialize_base 4 (dls_max_size (room_participants r)))
    (put_and (serialize_base 4 (dls_max_size (room_history r)))
    (put_and (fwrite (room_unused r))
    (put_and (history_entries_serialize (room_history r))
    (put_and (participants_serialize (room_participants r))
    (put_and (affiliations_serialize (room_affiliations r ! 4))
    (put_and (affiliations_serialize (room_affiliations r ! 3))
    (put_and (affiliations_serialize (room_affiliations r ! 2))
             (affiliations_serialize (room_affiliations r ! 0)))))))))))))))))"

text \<open>Into a room that is zeroed memory, as both callers pass it.\<close>

definition room_deserialize :: "utlist \<Rightarrow> room get" where
  "room_deserialize U =
     (let aff = dls_init 10240 affiliation_init in
      get_and (buffer_deserialize (int MAX_JID_PART_SIZE)) (\<lambda>node.
      get_and (buffer_deserialize (int USER_STRING_OPTION_LIMIT)) (\<lambda>title.
      get_and (buffer_deserialize (int USER_STRING_OPTION_LIMIT)) (\<lambda>description.
      get_and (buffer_deserialize (int USER_STRING_OPTION_LIMIT)) (\<lambda>password.
      get_and (buffer_ptr_deserialize (int USER_STRING_OPTION_LIMIT)) (\<lambda>subject_node.
      get_and (buffer_ptr_deserialize (int USER_STRING_OPTION_LIMIT)) (\<lambda>subject_nick.
      get_and (deserialize_base 4) (\<lambda>flags.
      get_and (deserialize_base 4) (\<lambda>default_role.
      get_and (deserialize_base 4) (\<lambda>participants_max.
      get_and (deserialize_base 4) (\<lambda>history_max.
      get_and (fread 48) (\<lambda>unused.
      get_and (history_entries_deserialize U (dls_init history_max history_entry_init)) (\<lambda>history.
      get_and (participants_deserialize U (dls_init participants_max participant_zero)) (\<lambda>participants.
      get_and (affiliations_deserialize U aff) (\<lambda>owners.
      get_and (affiliations_deserialize U aff) (\<lambda>admins.
      get_and (affiliations_deserialize U aff) (\<lambda>members.
      get_and (affiliations_deserialize U aff) (\<lambda>outcasts.
        get_return
          \<lparr>room_node = node, room_title = title, room_description = description,
           room_password = password, room_flags = word_of_int flags,
           room_default_role = default_role, room_unused = unused,
           room_participants = participants,
           room_affiliations = [outcasts, aff, members, admins, owners],
           room_history = history, room_subject_node = subject_node,
           room_subject_nick = subject_nick\<rparr>))))))))))))))))))"

definition enc_room :: "room \<Rightarrow> bytes" where
  "enc_room r =
     enc_buffer (room_node r) @ enc_buffer (room_title r) @ enc_buffer (room_description r) @
     enc_buffer (room_password r) @ enc_buffer (room_subject_node r) @ enc_buffer (room_subject_nick r) @
     enc_int 4 (sint (room_flags r)) @ enc_int 4 (room_default_role r) @
     enc_int 4 (dls_max_size (room_participants r)) @ enc_int 4 (dls_max_size (room_history r)) @
     room_unused r @
     enc_container enc_history_entry (dls_saved (room_history r)) @
     enc_container enc_participant (dls_saved (room_participants r)) @
     enc_container enc_affiliation (dls_saved (room_affiliations r ! 4)) @
     enc_container enc_affiliation (dls_saved (room_affiliations r ! 3)) @
     enc_container enc_affiliation (dls_saved (room_affiliations r ! 2)) @
     enc_container enc_affiliation (dls_saved (room_affiliations r ! 0))"

text \<open>What can be read back: every part within the limit its reader imposes.\<close>

definition valid_affiliations :: "affiliation dls \<Rightarrow> bool" where
  "valid_affiliations l \<longleftrightarrow>
     (\<forall>e \<in> set (dls_saved l). valid_affiliation e) \<and> int (length (dls_saved l)) \<le> 10240"

definition valid_room :: "room \<Rightarrow> bool" where
  "valid_room r \<longleftrightarrow>
     valid_buffer (int MAX_JID_PART_SIZE) (room_node r) \<and>
     valid_buffer (int USER_STRING_OPTION_LIMIT) (room_title r) \<and>
     valid_buffer (int USER_STRING_OPTION_LIMIT) (room_description r) \<and>
     valid_buffer (int USER_STRING_OPTION_LIMIT) (room_password r) \<and>
     valid_buffer (int USER_STRING_OPTION_LIMIT) (room_subject_node r) \<and>
     valid_buffer (int USER_STRING_OPTION_LIMIT) (room_subject_nick r) \<and>
     fits 4 (room_default_role r) \<and> fits 4 (dls_max_size (room_participants r)) \<and>
     fits 4 (dls_max_size (room_history r)) \<and> length (room_unused r) = 48 \<and>
     (\<forall>e \<in> set (dls_saved (room_history r)). valid_history_entry e) \<and>
     (\<forall>p \<in> set (dls_saved (room_participants r)). valid_participant p) \<and>
     (\<forall>i \<in> {0, 2, 3, 4}. valid_affiliations (room_affiliations r ! i))"

definition load_affiliations :: "utlist \<Rightarrow> affiliation dls \<Rightarrow> affiliation dls" where
  "load_affiliations U l =
     container_load U (map canon_affiliation (dls_saved l)) (dls_init 10240 affiliation_init)"

definition canon_room :: "utlist \<Rightarrow> room \<Rightarrow> room" where
  "canon_room U r =
     \<lparr>room_node = canon_buffer (room_node r), room_title = canon_buffer (room_title r),
      room_description = canon_buffer (room_description r),
      room_password = canon_buffer (room_password r), room_flags = room_flags r,
      room_default_role = room_default_role r, room_unused = room_unused r,
      room_participants = container_load U (map canon_participant (dls_saved (room_participants r)))
        (dls_init (dls_max_size (room_participants r)) participant_zero),
      room_affiliations = [load_affiliations U (room_affiliations r ! 0), dls_init 10240 affiliation_init,
        load_affiliations U (room_affiliations r ! 2), load_affiliations U (room_affiliations r ! 3),
        load_affiliations U (room_affiliations r ! 4)],
      room_history = container_load U (map canon_history_entry (dls_saved (room_history r)))
        (dls_init (dls_max_size (room_history r)) history_entry_init),
      room_subject_node = canon_buffer (room_subject_node r),
      room_subject_nick = canon_buffer (room_subject_nick r)\<rparr>"

lemma fits_flags: "fits 4 (sint (w :: 32 word))"
  using sint_ge [of w] sint_lt [of w] by (simp add: fits_def)

interpretation room: codec room_serialize "room_deserialize U" enc_room valid_room "canon_room U"
proof
  show "room_serialize x = fwrite (enc_room x)" for x
    by (simp add: room_serialize_def enc_room_def serialize_base_def history_entries_serialize_def
      participants_serialize_def affiliations_serialize_def history_entry.container_serialize_saved
      participant.container_serialize_saved affiliation.container_serialize_saved
      buffer.put_and_put buffer_ptr.put_and_put put_and_fwrite)
  show "room_deserialize U (enc_room x @ rest) = Some (canon_room U x, rest)"
    if valid: "valid_room x" for x rest
  proof -
    have aff: "get_and (affiliations_deserialize U (dls_init 10240 affiliation_init)) q
        (enc_container enc_affiliation (dls_saved l) @ rest) = q (load_affiliations U l) rest"
      if "valid_affiliations l" for l q rest
      using that by (simp add: affiliations_deserialize_def valid_affiliations_def load_affiliations_def
        affiliation.get_and_container)
    have hist: "get_and (history_entries_deserialize U (dls_init (dls_max_size (room_history x)) history_entry_init)) q
        (enc_container enc_history_entry (dls_saved (room_history x)) @ rest) =
        q (container_load U (map canon_history_entry (dls_saved (room_history x)))
            (dls_init (dls_max_size (room_history x)) history_entry_init)) rest" for q rest
      using valid by (simp add: history_entries_deserialize_def valid_room_def dls_saved_length
        history_entry.get_and_container)
    have part: "get_and (participants_deserialize U (dls_init (dls_max_size (room_participants x)) participant_zero)) q
        (enc_container enc_participant (dls_saved (room_participants x)) @ rest) =
        q (container_load U (map canon_participant (dls_saved (room_participants x)))
            (dls_init (dls_max_size (room_participants x)) participant_zero)) rest" for q rest
      using valid by (simp add: participants_deserialize_def valid_room_def dls_saved_length
        participant.get_and_container)
    have raw: "get_and (fread 48) q (room_unused x @ rest) = q (room_unused x) rest" for q rest
      using valid by (simp add: get_and_def fread_append valid_room_def)
    show ?thesis
      using valid unfolding room_deserialize_def enc_room_def Let_def append_assoc valid_room_def
      by (simp add: buffer.get_and_enc buffer_ptr.get_and_enc base.get_and_enc fits_flags
        raw hist part aff get_return_def canon_room_def)
  qed
qed

subsection \<open>Reading back what was saved\<close>

text \<open>
  Property C29: a room whose parts are within the limits of the reader and that was written
  completely is read back with its options, its occupants (as many as its limit allows) and
  its affiliations (as many as the lists' limits allow); but every occupant is counted twice.
\<close>

theorem room_file_roundtrip:
  assumes "utlist_laws U" and "valid_room r" and "room_serialize r f = (f', True)"
  shows "\<exists>r'. room_deserialize U (drop (length (of_written f)) (of_written f') @ rest) = Some (r', rest) \<and>
    buffer_bytes (room_node r') = buffer_bytes (room_node r) \<and>
    buffer_bytes (room_title r') = buffer_bytes (room_title r) \<and>
    buffer_bytes (room_description r') = buffer_bytes (room_description r) \<and>
    buffer_bytes (room_password r') = buffer_bytes (room_password r) \<and>
    room_flags r' = room_flags r \<and> room_default_role r' = room_default_role r \<and>
    dls_max_size (room_participants r') = dls_max_size (room_participants r) \<and>
    dls_values (room_participants r') = map canon_participant (dls_saved (room_participants r)) \<and>
    dls_size (room_participants r') = 2 * int (length (dls_saved (room_participants r))) \<and>
    (\<forall>i \<in> {0, 2, 3, 4}. dls_values (room_affiliations r' ! i) =
       map canon_affiliation (dls_saved (room_affiliations r ! i)))"
proof -
  have "length (enc_room r) \<le> of_space f" using assms(3) by (auto simp: room.put_enc fwrite_def)
  then obtain f'' where "room_serialize r f = (f'', True)" and
    "room_deserialize U (drop (length (of_written f)) (of_written f'') @ rest) = Some (canon_room U r, rest)"
    using room.put_get [OF assms(2), of f U rest] by blast
  then have "room_deserialize U (drop (length (of_written f)) (of_written f') @ rest) = Some (canon_room U r, rest)"
    using assms(3) by simp
  moreover note [simp] = utlist_laws.container_load_values [OF assms(1), THEN conjunct1]
  ultimately show ?thesis
    by (intro exI [of _ "canon_room U r"])
      (simp add: canon_room_def load_affiliations_def container_load_size)
qed

definition example_jid :: jid where
  "example_jid = \<lparr>jid_node = Some ''ann'', jid_host = Some ''h'', jid_resource = Some ''home''\<rparr>"

definition example_room :: room where
  "example_room =
     (let r = room_init (Some ''tea'');
          p = participant_zero\<lparr>p_jid := example_jid, p_nick := Some ''Ann'', p_affiliation := AFFIL_OWNER, p_role := ROLE_MODERATOR\<rparr>
      in r\<lparr>room_participants := dls_prepend utlist_ref (room_participants r) 1 p\<rparr>)"

lemma example_occupants:
  "dls_saved (room_participants example_room) =
    [participant_zero\<lparr>p_jid := example_jid, p_nick := Some ''Ann'', p_affiliation := AFFIL_OWNER, p_role := ROLE_MODERATOR\<rparr>]"
  by (simp add: example_room_def room_init_def Let_def dls_prepend_def dls_init_def dls_saved_def
    dls_values_def utlist_ref_def)

lemma example_room_parts:
  "room_node example_room = Some ''tea''" "room_title example_room = None"
  "room_description example_room = None" "room_password example_room = None"
  "room_subject_node example_room = None" "room_subject_nick example_room = None"
  "room_default_role example_room = ROLE_PARTICIPANT" "length (room_unused example_room) = 48"
  "dls_max_size (room_participants example_room) = 100" "dls_saved (room_history example_room) = []"
  "dls_max_size (room_history example_room) = 20"
  "i < 5 \<Longrightarrow> dls_saved (room_affiliations example_room ! i) = []"
  by (simp_all add: example_room_def room_init_def room_zero_def Let_def dls_saved_def dls_values_def
    buffer_ptr_cpy_def)

lemma example_room_valid: "valid_room example_room"
proof -
  have "valid_participant (participant_zero\<lparr>p_jid := example_jid, p_nick := Some ''Ann'',
      p_affiliation := AFFIL_OWNER, p_role := ROLE_MODERATOR\<rparr>)"
    by (simp add: valid_participant_def participant_zero_def example_jid_def jid_wf_def
      valid_buffer_def fits_def)
  then show ?thesis
    by (simp add: valid_room_def example_room_parts example_occupants valid_buffer_def fits_def
      valid_affiliations_def)
qed

theorem room_file_roundtrip_witness:
  "\<exists>f' r'. room_serialize example_room \<lparr>of_written = ''x'', of_space = 1000\<rparr> = (f', True) \<and>
    room_deserialize utlist_ref (drop 1 (of_written f')) = Some (r', []) \<and>
    dls_size (room_participants r') = 2"
proof -
  let ?f = "\<lparr>of_written = ''x'', of_space = 1000\<rparr>"
  have "length (enc_room example_room) \<le> 1000"
    by (simp add: enc_room_def example_room_parts example_occupants enc_buffer_def enc_mark_def
      enc_participant_def participant_zero_def example_jid_def jid_buffer_def jid_str_def)
  then obtain f' where f': "room_serialize example_room ?f = (f', True)"
    by (simp add: room.put_enc fwrite_def)
  have n: "length (dls_saved (room_participants example_room)) = 1" by (simp add: example_occupants)
  show ?thesis
    using room_file_roundtrip [OF utlist_ref.utlist_laws_axioms example_room_valid f', of "[]"] f' n
    by auto
qed

definition founded_room :: "utlist \<Rightarrow> bytes option \<Rightarrow> jid \<Rightarrow> room" where
  \<comment> \<open>a new room with its first owner, as \<open>route_presence\<close> makes it\<close>
  "founded_room U node j =
     (let r = room_init node in
      r\<lparr>room_affiliations := fst (affiliationss_add U (room_affiliations r) None AFFIL_OWNER j None)\<rparr>)"

lemma new_affs_wf: "affs_wf (room_affiliations (room_init node))"
  by (rule affs_wfI) (auto simp: room_init_def room_zero_def nth_replicate)

lemma founded_affs:
  assumes "utlist_laws U" and "storable j"
  shows "affil_lookup (room_affiliations (founded_room U node j)) j = Some AFFIL_OWNER"
    and "i < 5 \<Longrightarrow> dls_max_size (room_affiliations (founded_room U node j) ! i) = 0"
proof -
  let ?affs = "room_affiliations (room_init node)"
  have len: "length ?affs = 5" and zero: "i < 5 \<Longrightarrow> dls_max_size (?affs ! i) = 0"
    and no: "i < 5 \<Longrightarrow> dls_head (?affs ! i) = []" for i
    by (simp_all add: room_init_def room_zero_def)
  obtain affs' ok where r: "affiliationss_add U ?affs None AFFIL_OWNER j None = (affs', ok)" by fastforce
  have "ok \<and> affil_lookup affs' j = Some AFFIL_OWNER"
    using affiliationss_add_effect [OF assms(1) new_affs_wf _ _ assms(2) _ r]
    by (simp add: add_refused_def)
  then show "affil_lookup (room_affiliations (founded_room U node j)) j = Some AFFIL_OWNER"
    by (simp add: founded_room_def Let_def r)
  have "find_entry ?affs j [0..<5] = None" by (simp add: find_entry_None no)
  then have "affs' = affiliation_place U ?affs AFFIL_OWNER j None (affiliations_malloc ?affs) affiliation_init"
    using r by (simp add: affiliationss_add_eq)
  then show "i < 5 \<Longrightarrow> dls_max_size (room_affiliations (founded_room U node j) ! i) = 0"
    using zero len by (simp add: founded_room_def Let_def r affiliation_place_def nth_list_update)
qed

text \<open>
  A room that was created by this process forgets its owner when it is saved and
  loaded: the limit of its affiliation lists was never set, so none of their entries is written.
\<close>

theorem created_room_forgets_owner:
  assumes "utlist_laws U" and "storable j" and "buffer_size node \<le> MAX_JID_PART_SIZE"
  shows "affil_lookup (room_affiliations (founded_room U node j)) j = Some AFFIL_OWNER \<and>
    (\<exists>r'. room_deserialize U (enc_room (founded_room U node j)) = Some (r', []) \<and>
       (\<forall>j'. affil_lookup (room_affiliations r') j' = None))"
proof -
  let ?r = "founded_room U node j"
  have none: "dls_saved (room_affiliations ?r ! i) = []" if "i < 5" for i
    using founded_affs(2) [OF assms(1,2) that] by (simp add: dls_saved_def)
  obtain affs where r: "?r = (room_init node)\<lparr>room_affiliations := affs\<rparr>"
    by (simp add: founded_room_def Let_def)
  have "valid_affiliations (affs ! i)" if "i < 5" for i
    using none [OF that] by (simp add: r valid_affiliations_def)
  then have "valid_room ?r"
    using assms(3) unfolding r
    by (simp add: valid_room_def room_init_def room_zero_def valid_buffer_def fits_def dls_saved_def
      buffer_ptr_cpy_def)
  then have "room_deserialize U (enc_room ?r) = Some (canon_room U ?r, [])"
    using room.get_enc [of ?r U "[]"] by simp
  moreover have "affil_lookup (room_affiliations (canon_room U ?r)) j' = None" for j'
  proof -
    have z: "dls_saved (room_affiliations ?r ! 0) = []" "dls_saved (room_affiliations ?r ! 2) = []"
      "dls_saved (room_affiliations ?r ! 3) = []" "dls_saved (room_affiliations ?r ! 4) = []"
      by (rule none, simp)+
    have "dls_head (room_affiliations (canon_room U ?r) ! i) = []" if "i < 5" for i
      using that unfolding nth_five
      by (auto simp: canon_room_def load_affiliations_def container_load_def z)
    then show ?thesis by (simp add: affil_lookup_def find_entry_None)
  qed
  ultimately show ?thesis using founded_affs(1) [OF assms(1,2)] by blast
qed

theorem created_room_forgets_owner_witness:
  "affil_lookup (room_affiliations (founded_room utlist_ref (Some ''tea'') example_jid)) example_jid = Some AFFIL_OWNER \<and>
   (\<exists>r'. room_deserialize utlist_ref (enc_room (founded_room utlist_ref (Some ''tea'') example_jid)) = Some (r', []) \<and>
     affil_lookup (room_affiliations r') example_jid = None)"
  using created_room_forgets_owner [OF utlist_ref.utlist_laws_axioms, of example_jid "Some ''tea''"]
  by (auto simp: storable_def example_jid_def jid_wf_def jid_nul_free_def nul_free_def)

subsection \<open>Joining and leaving\<close>

text \<open>
  The invariant of a room: proper lists, the invariant of the affiliations, and no two
  occupants with the same nickname.
\<close>

definition nick_of :: "room \<Rightarrow> addr \<Rightarrow> bytes" where
  "nick_of r a = buffer_bytes (p_nick (occupant r a))"

definition occupants :: "room \<Rightarrow> addr list" where
  "occupants r = dls_head (room_participants r)"

definition room_wf :: "room \<Rightarrow> bool" where
  "room_wf r \<longleftrightarrow>
     dls_linked (room_participants r) \<and> inj_on (nick_of r) (set (occupants r)) \<and>
     affs_wf (room_affiliations r) \<and> dls_linked (room_history r)"

lemma update_participant_simps [simp]:
  "occupants (update_participant a f r) = occupants r"
  "occupant (update_participant a f r) b = (if b = a then f (occupant r a) else occupant r b)"
  "room_affiliations (update_participant a f r) = room_affiliations r"
  "room_history (update_participant a f r) = room_history r"
  "room_flags (update_participant a f r) = room_flags r"
  "room_node (update_participant a f r) = room_node r"
  "dls_size (room_participants (update_participant a f r)) = dls_size (room_participants r)"
  "dls_max_size (room_participants (update_participant a f r)) = dls_max_size (room_participants r)"
  "dls_linked (room_participants (update_participant a f r)) = dls_linked (room_participants r)"
  by (simp_all add: update_participant_def occupants_def occupant_def)

lemma has_flag_simps [simp]:
  "has_flag (update_participant a f r) g = has_flag r g"
  "room_participants (set_flag g r) = room_participants r"
  "room_participants (clear_flag g r) = room_participants r"
  "room_affiliations (set_flag g r) = room_affiliations r"
  "room_affiliations (clear_flag g r) = room_affiliations r"
  "room_history (set_flag g r) = room_history r"
  "room_history (clear_flag g r) = room_history r"
  by (simp_all add: has_flag_def set_flag_def clear_flag_def)

lemma has_set_flag: "has_flag (set_flag g r) f \<longleftrightarrow> has_flag r f \<or> g AND f \<noteq> 0"
  by (simp add: has_flag_def set_flag_def bit.conj_disj_distrib2 or_eq_0_iff)

lemma room_wf_update:
  assumes "room_wf r" and "a \<in> set (occupants r) \<Longrightarrow> p_nick (f (occupant r a)) = p_nick (occupant r a)"
  shows "room_wf (update_participant a f r)"
proof -
  have "nick_of (update_participant a f r) b = nick_of r b" if "b \<in> set (occupants r)" for b
    using assms(2) that by (auto simp: nick_of_def)
  then have "inj_on (nick_of (update_participant a f r)) (set (occupants r)) = inj_on (nick_of r) (set (occupants r))"
    by (rule inj_on_cong)
  then show ?thesis using assms(1) by (simp add: room_wf_def)
qed

lemma find_by_nick_occupant:
  "participants_find_by_nick (room_participants r) nick = Some a \<Longrightarrow>
   a \<in> set (occupants r) \<and> nick_of r a = buffer_bytes nick"
  by (drule find_by_nick_Some) (simp add: occupants_def nick_of_def occupant_def)

lemma find_by_nick_free:
  "participants_find_by_nick (room_participants r) nick = None \<longleftrightarrow>
   (\<forall>a \<in> set (occupants r). nick_of r a \<noteq> buffer_bytes nick)"
  by (simp add: find_by_nick_None occupants_def nick_of_def occupant_def)

lemma find_by_jid_occupant:
  "participants_find_by_jid (room_participants r) j = Some a \<Longrightarrow> a \<in> set (occupants r)"
  by (drule find_by_jid_Some) (simp add: occupants_def)

context utlist_laws
begin

lemma room_join_effect:
  assumes join: "room_join U r j nick affiliation = (r', a)" and size: "buffer_size nick \<le> MAX_JID_PART_SIZE"
  shows "occupants r' = a # occupants r" and "a \<notin> set (occupants r)" and "a \<noteq> 0"
    and "b \<in> set (occupants r) \<Longrightarrow> occupant r' b = occupant r b"
    and "nick_of r' a = buffer_bytes nick"
    and "p_role (occupant r' a) = room_role_for_affiliation r affiliation"
    and "p_affiliation (occupant r' a) = affiliation"
    and "p_jid (occupant r' a) = jid_set jid_init j JID_FULL"
    and "dls_size (room_participants r') = dls_size (room_participants r) + 1"
    and "room_affiliations r' = room_affiliations r" and "room_history r' = room_history r"
    and "room_flags r' = room_flags r"
proof -
  have a: "a = malloc_addr (occupants r)" using join by (auto simp: room_join_def Let_def occupants_def)
  then show fresh: "a \<notin> set (occupants r)" and "a \<noteq> 0" by simp_all
  let ?p = "fst (participant_set_nick (participant_init j) nick)"
  let ?f = "\<lambda>p. p\<lparr>p_affiliation := affiliation, p_role := room_role_for_affiliation r affiliation\<rparr>"
  let ?r1 = "r\<lparr>room_participants := dls_prepend U (room_participants r) a ?p\<rparr>"
  have r': "r' = update_participant a ?f ?r1"
    using join a by (simp add: room_join_def Let_def occupants_def)
  show "occupants r' = a # occupants r"
    using fresh unfolding r' by (simp add: occupants_def update_participant_def head_prepend)
  show "b \<in> set (occupants r) \<Longrightarrow> occupant r' b = occupant r b"
    using fresh unfolding r' by (auto simp: occupant_def update_participant_def)
  have "buffer_bytes (p_nick ?p) = buffer_bytes nick"
    using size bpt_setter_bytes [of None nick MAX_JID_PART_SIZE] bpt_setter_refuses [of None nick MAX_JID_PART_SIZE]
    by (cases "bpt_setter None nick MAX_JID_PART_SIZE")
      (simp add: participant_set_nick_def participant_init_def participant_zero_def)
  then show "nick_of r' a = buffer_bytes nick"
    unfolding r' by (simp add: nick_of_def occupant_def update_participant_def)
  show "p_jid (occupant r' a) = jid_set jid_init j JID_FULL"
    unfolding r' by (simp add: occupant_def update_participant_def participant_set_nick_def
      participant_init_def split: prod.split)
  show "p_role (occupant r' a) = room_role_for_affiliation r affiliation" "p_affiliation (occupant r' a) = affiliation"
    "dls_size (room_participants r') = dls_size (room_participants r) + 1"
    "room_affiliations r' = room_affiliations r" "room_history r' = room_history r"
    "room_flags r' = room_flags r"
    unfolding r' by (simp_all add: occupant_def update_participant_def)
qed

lemma room_wf_join:
  assumes wf: "room_wf r" and join: "room_join U r j nick affiliation = (r', a)"
    and size: "buffer_size nick \<le> MAX_JID_PART_SIZE"
    and free: "participants_find_by_nick (room_participants r) nick = None"
  shows "room_wf r'"
proof -
  note e = room_join_effect [OF join size]
  have lk: "dls_linked (room_participants r')"
    using wf e(1,2) by (simp add: room_wf_def dls_linked_def occupants_def)
  have "nick_of r' b = nick_of r b" if "b \<in> set (occupants r)" for b
    using e(4) [OF that] by (simp add: nick_of_def)
  then have "inj_on (nick_of r') (set (occupants r)) = inj_on (nick_of r) (set (occupants r))"
    by (rule inj_on_cong)
  then have "inj_on (nick_of r') (set (occupants r))" using wf by (simp add: room_wf_def)
  moreover have "nick_of r' b \<noteq> nick_of r' a" if "b \<in> set (occupants r)" for b
    using free that e(4) [OF that] by (simp add: find_by_nick_free e(5)) (simp add: nick_of_def)
  ultimately have "inj_on (nick_of r') (set (occupants r'))"
    unfolding e(1) by (auto simp: inj_on_insert) (metis)
  with lk wf e show ?thesis by (simp add: room_wf_def)
qed

lemma room_leave_effect:
  assumes "dls_linked (room_participants r)" and "a \<in> set (occupants r)"
  shows "occupants (room_leave U r a) = remove1 a (occupants r)"
    and "occupant (room_leave U r a) b = occupant r b"
    and "dls_size (room_participants (room_leave U r a)) = dls_size (room_participants r) - 1"
    and "room_affiliations (room_leave U r a) = room_affiliations r"
    and "room_history (room_leave U r a) = room_history r"
  using assms
  by (simp_all add: room_leave_def occupants_def occupant_def head_delete Let_def)

lemma room_wf_leave:
  assumes "room_wf r" and "a \<in> set (occupants r)"
  shows "room_wf (room_leave U r a)"
proof -
  have lk: "dls_linked (room_participants r)" using assms by (simp add: room_wf_def)
  note e = room_leave_effect [OF lk assms(2)]
  have "nick_of (room_leave U r a) = nick_of r" by (rule ext) (simp add: nick_of_def e)
  moreover have "set (occupants (room_leave U r a)) \<subseteq> set (occupants r)"
    by (simp add: e set_remove1_subset)
  moreover have "dls_linked (room_participants (room_leave U r a))"
    using e(1) lk by (simp add: dls_linked_def occupants_def)
  ultimately show ?thesis using assms(1) e by (auto simp: room_wf_def inj_on_subset)
qed

end

text \<open>
  When the size of the list of occupants is exact, a departure marks a room
  destroyed exactly if the room is temporary and nobody is left; the others stay, in order.
\<close>

theorem temporary_room_ends:
  assumes "utlist_laws U" and "dls_wf (room_participants r)" and "a \<in> set (occupants r)"
  shows "occupants (room_leave U r a) = remove1 a (occupants r) \<and>
    (has_flag (room_leave U r a) MUC_FLAG_DESTROYED \<longleftrightarrow>
      has_flag r MUC_FLAG_DESTROYED \<or>
      (\<not> has_flag r MUC_FLAG_PERSISTENTROOM \<and> occupants r = [a])) \<and>
    dls_wf (room_participants (room_leave U r a))"
proof -
  have lk: "dls_linked (room_participants r)" using assms(2) by (rule dls_wf_linked)
  note e = utlist_laws.room_leave_effect [OF assms(1) lk assms(3)]
  have size: "dls_size (room_participants r) - 1 = 0 \<longleftrightarrow> occupants r = [a]"
    using assms(2,3) by (cases "occupants r") (auto simp: dls_wf_def occupants_def)
  have flags: "room_leave U r a = (let r1 = r\<lparr>room_participants := dls_delete U (room_participants r) a\<rparr>
      in if \<not> has_flag r MUC_FLAG_PERSISTENTROOM \<and> occupants r = [a] then set_flag MUC_FLAG_DESTROYED r1 else r1)"
    using size by (simp add: room_leave_def has_flag_def)
  have "has_flag (room_leave U r a) MUC_FLAG_DESTROYED \<longleftrightarrow>
      has_flag r MUC_FLAG_DESTROYED \<or> (\<not> has_flag r MUC_FLAG_PERSISTENTROOM \<and> occupants r = [a])"
    unfolding flags by (simp add: Let_def has_set_flag) (simp add: has_flag_def)
  moreover have "dls_wf (room_participants (room_leave U r a))"
    using utlist_laws.wf_delete [OF assms(1,2), of a] assms(3)
    by (simp add: room_leave_def occupants_def Let_def)
  ultimately show ?thesis using e(1) by blast
qed

theorem temporary_room_ends_witness:
  "has_flag (room_leave utlist_ref example_room 1) MUC_FLAG_DESTROYED"
proof -
  have o: "occupants example_room = [1]"
    by (simp add: occupants_def example_room_def room_init_def Let_def dls_prepend_def dls_init_def utlist_ref_def)
  have "dls_wf (room_participants example_room)"
    by (simp add: example_room_def room_init_def Let_def dls_prepend_def dls_init_def dls_wf_def utlist_ref_def)
  then have "has_flag (room_leave utlist_ref example_room 1) MUC_FLAG_DESTROYED \<longleftrightarrow>
      has_flag example_room MUC_FLAG_DESTROYED \<or> (\<not> has_flag example_room MUC_FLAG_PERSISTENTROOM \<and> occupants example_room = [1])"
    using temporary_room_ends [OF utlist_ref.utlist_laws_axioms, of example_room 1] o by simp
  moreover have "\<not> has_flag example_room MUC_FLAG_PERSISTENTROOM"
    by (simp add: has_flag_def example_room_def room_init_def Let_def MUC_FLAGS_DEFAULT_def)
  ultimately show ?thesis using o by simp
qed

text \<open>A departure when the list counts more occupants than it has.\<close>

lemma overcounted_leave:
  assumes U: "utlist_laws U"
  shows "dls_linked (room_participants r) \<Longrightarrow> distinct as \<Longrightarrow> set as = set (occupants r) \<Longrightarrow>
    int (length as) < dls_size (room_participants r) \<Longrightarrow>
    occupants (fold (\<lambda>a r. room_leave U r a) as r) = [] \<and>
    (has_flag (fold (\<lambda>a r. room_leave U r a) as r) f \<longleftrightarrow> has_flag r f)"
proof (induction as arbitrary: r)
  case Nil
  then show ?case by simp
next
  case (Cons a as)
  have a: "a \<in> set (occupants r)" using Cons.prems by auto
  note e = utlist_laws.room_leave_effect [OF U Cons.prems(1) a]
  have dist: "distinct (occupants r)" using Cons.prems(1) by (simp add: dls_linked_def occupants_def)
  have "dls_linked (room_participants (room_leave U r a))"
    using dist e(1) by (simp add: dls_linked_def occupants_def)
  moreover have "set as = set (occupants (room_leave U r a))"
    using Cons.prems(2,3) dist by (auto simp: e(1))
  moreover have "int (length as) < dls_size (room_participants (room_leave U r a))"
    using Cons.prems(4) by (simp add: e(3))
  ultimately have IH: "occupants (fold (\<lambda>a r. room_leave U r a) as (room_leave U r a)) = [] \<and>
      (has_flag (fold (\<lambda>a r. room_leave U r a) as (room_leave U r a)) f \<longleftrightarrow> has_flag (room_leave U r a) f)"
    using Cons.prems(2) by (intro Cons.IH) simp_all
  have "has_flag (room_leave U r a) f = has_flag r f"
    using Cons.prems(4) by (simp add: room_leave_def Let_def has_flag_def)
  with IH show ?case by simp
qed

text \<open>
  A temporary room that was loaded from the data file with occupants is not
  destroyed when all of them leave, in whatever order: every occupant was counted twice.
\<close>

theorem loaded_room_never_ends:
  assumes "utlist_laws U" and "valid_room r" and "dls_saved (room_participants r) \<noteq> []"
    and "room_deserialize U (enc_room r) = Some (r', [])"
    and "distinct as" and "set as = set (occupants r')"
  shows "occupants (fold (\<lambda>a r. room_leave U r a) as r') = [] \<and>
    (has_flag (fold (\<lambda>a r. room_leave U r a) as r') MUC_FLAG_DESTROYED \<longleftrightarrow> has_flag r MUC_FLAG_DESTROYED)"
proof -
  let ?l = "dls_init (dls_max_size (room_participants r)) participant_zero"
  let ?xs = "map canon_participant (dls_saved (room_participants r))"
  have r': "r' = canon_room U r" using room.get_enc [OF assms(2), of U "[]"] assms(4) by simp
  then have p: "room_participants r' = container_load U ?xs ?l" by (simp add: canon_room_def)
  have v: "dls_values (room_participants r') = ?xs" "dls_linked (room_participants r')"
    using utlist_laws.container_load_values [OF assms(1), of ?l ?xs] unfolding p by simp_all
  have "length as = length (occupants r')"
    using assms(5,6) v(2) by (metis distinct_card dls_linked_def occupants_def)
  then have "length as = length (dls_values (room_participants r'))" by (simp add: occupants_def)
  then have len: "length as = length (dls_saved (room_participants r))" by (simp add: v(1))
  have "dls_size (room_participants r') = 2 * int (length (dls_saved (room_participants r)))"
    unfolding p by (simp add: container_load_size)
  then have "int (length as) < dls_size (room_participants r')" using len assms(3) by simp
  then show ?thesis
    using overcounted_leave [OF assms(1) v(2) assms(5,6), of MUC_FLAG_DESTROYED]
    by (simp add: has_flag_def r' canon_room_def)
qed

theorem loaded_room_never_ends_witness:
  "\<exists>r'. room_deserialize utlist_ref (enc_room example_room) = Some (r', []) \<and>
     \<not> has_flag (fold (\<lambda>a r. room_leave utlist_ref r a) (occupants r') r') MUC_FLAG_DESTROYED"
proof -
  obtain r' where r': "room_deserialize utlist_ref (enc_room example_room) = Some (r', [])"
    using room.get_enc [OF example_room_valid, of utlist_ref "[]"] by auto
  have "r' = canon_room utlist_ref example_room"
    using room.get_enc [OF example_room_valid, of utlist_ref "[]"] r' by simp
  then have "distinct (occupants r')"
    by (simp add: canon_room_def occupants_def
      utlist_ref.container_load_values [THEN conjunct2, unfolded dls_linked_def])
  moreover have "\<not> has_flag example_room MUC_FLAG_DESTROYED"
    by (simp add: has_flag_def example_room_def room_init_def Let_def MUC_FLAGS_DEFAULT_def)
  ultimately show ?thesis
    using loaded_room_never_ends [OF utlist_ref.utlist_laws_axioms example_room_valid _ r', of "occupants r'"] r'
    by (auto simp: example_occupants)
qed

end
