(* ===== verification/Xmlfsm.thy ===== *)
theory Xmlfsm
  imports Buffer
begin

text \<open>
  \<^verbatim>\<open>xmcomp/src/xmlfsm.h\<close> and \<^verbatim>\<open>xmcomp/src/xmlfsm.c\<close>: the scanner that cuts the stream into
  stanzas and walks over nodes and attributes. It works on pointers into one block of
  memory; here a pointer is an offset into the contents \<open>m\<close> of the block, and every read
  outside the block faults. Most loops of the scanner have no end pointer to stop at: that
  they stop inside the block is part of what is proved.
\<close>

subsection \<open>Reading memory\<close>

definition rd :: "bytes \<Rightarrow> nat \<Rightarrow> char run" where
  "rd m i = (if i < length m then Ret (m ! i) else Fault OutOfBounds)"

text \<open>The macro \<open>SKIP\<close>: advance while the character satisfies a test.\<close>

function skip_while :: "(char \<Rightarrow> bool) \<Rightarrow> bytes \<Rightarrow> nat \<Rightarrow> nat run" where
  "skip_while P m i =
     (if i < length m then if P (m ! i) then skip_while P m (Suc i) else Ret i
      else Fault OutOfBounds)"
  by pat_completeness auto
termination by (relation "measure (\<lambda>(P, m, i). length m - i)") auto

declare skip_while.simps [simp del]

fun memchr :: "bytes \<Rightarrow> nat \<Rightarrow> nat \<Rightarrow> char \<Rightarrow> nat option run" where
  "memchr m i 0 c = Ret None"
| "memchr m i (Suc n) c =
     (if i < length m then if m ! i = c then Ret (Some i) else memchr m (Suc i) n c
      else Fault OutOfBounds)"

text \<open>
  The length handed to \<open>memchr\<close> is a pointer difference converted to \<open>size_t\<close>: a negative
  one becomes larger than any block.
\<close>

definition size_t_diff :: "bytes \<Rightarrow> nat \<Rightarrow> nat \<Rightarrow> nat" where
  "size_t_diff m from to = (if from \<le> to then to - from else Suc (length m - from))"

lemma memchr_Some: "memchr m i n c = Ret (Some j) \<Longrightarrow> i \<le> j \<and> j < length m \<and> m ! j = c"
  by (induction m i n c rule: memchr.induct) (auto split: if_splits)

lemma memchr_None: "memchr m i n c = Ret None \<Longrightarrow> n = 0 \<or> i + n \<le> length m"
  by (induction m i n c rule: memchr.induct) (auto split: if_splits)

lemma memchr_diff_None:
  "memchr m d (size_t_diff m d e) c = Ret None \<Longrightarrow> d = e \<or> d < e \<and> e \<le> length m"
  by (drule memchr_None) (auto simp: size_t_diff_def split: if_splits)

lemma skip_while_Ret: "skip_while P m i = Ret j \<Longrightarrow> i \<le> j \<and> j < length m \<and> \<not> P (m ! j)"
proof (induction P m i rule: skip_while.induct)
  case (1 P m i)
  then show ?case by (subst (asm) skip_while.simps) (auto split: if_splits)
qed

subsection \<open>Skipping a node\<close>

text \<open>
  The variables of the loop of \<open>xmlfsm_skip_node\<close> and what its \<open>switch\<close> does with the
  character at position \<open>d\<close> outside quotes: \<open>None\<close> when the node ends here.
\<close>

record scan =
  nesting_level :: int
  tag :: bool
  tag_closing_pos :: "nat option"
  quote_char :: "char option"

definition scan_char :: "nat \<Rightarrow> char \<Rightarrow> scan \<Rightarrow> scan option" where
  "scan_char d c s =
     (if c = CHR ''<'' then Some (s\<lparr>nesting_level := nesting_level s + 1, tag := True\<rparr>)
      else if c = CHR ''/'' then Some (if tag s then s\<lparr>tag_closing_pos := Some d\<rparr> else s)
      else if c = CHR ''>'' then
        (case tag_closing_pos s of
           Some p \<Rightarrow>
             if tag s then
               let level = (if int d - int p \<noteq> 1 then nesting_level s - 2 else nesting_level s - 1)
               in if level = 0 then None
                  else Some (s\<lparr>nesting_level := level, tag_closing_pos := None, tag := False\<rparr>)
             else Some (s\<lparr>tag := False\<rparr>)
         | None \<Rightarrow> Some (s\<lparr>tag := False\<rparr>))
      else if c = CHR 0x22 \<or> c = CHR 0x27 then Some (s\<lparr>quote_char := Some c\<rparr>)
      else Some s)"

definition scan_init :: scan where
  "scan_init = \<lparr>nesting_level = 0, tag = False, tag_closing_pos = None, quote_char = None\<rparr>"

text \<open>
  The loop: the block, the ring buffer (\<open>real_buffer\<close>) if there is one, \<open>buffer->end\<close>,
  \<open>current_end\<close>, \<open>buffer->data\<close> and the variables above. The result is the position after
  the node, or \<open>None\<close> for \<open>XMLPARSE_FAILURE\<close> (which restores the position).
\<close>

function skip_loop :: "bytes \<Rightarrow> (nat \<times> nat) option \<Rightarrow> nat \<Rightarrow> nat \<Rightarrow> nat \<Rightarrow> scan \<Rightarrow> nat option run" where
  "skip_loop m real e cur d0 s =
     (if d0 = cur \<and> cur = e then Ret None
      else
        let d = (if d0 = cur then fst (the real) else d0);
            cur' = (if d0 = cur then e else cur)
        in case quote_char s of
             Some q \<Rightarrow>
               bind_run (memchr m d (size_t_diff m d cur') q) (\<lambda>found.
                 case found of
                   Some p \<Rightarrow> skip_loop m real e cur' (Suc p) (s\<lparr>quote_char := None\<rparr>)
                 | None \<Rightarrow> skip_loop m real e cur' cur' s)
           | None \<Rightarrow>
               bind_run (rd m d) (\<lambda>c.
                 case scan_char d c s of
                   None \<Rightarrow> Ret (Some (Suc d))
                 | Some s' \<Rightarrow> skip_loop m real e cur' (Suc d) s'))"
  by pat_completeness auto
termination
  by (relation "measures [\<lambda>(m, real, e, cur, d, _). if cur = e then 0 else 1,
      \<lambda>(m, real, e, cur, d, _). length m - d]")
    (auto simp: rd_def split: if_splits dest!: memchr_Some memchr_diff_None)

declare skip_loop.simps [simp del]

definition xmlfsm_skip_node :: "bytes \<Rightarrow> nat \<times> nat \<Rightarrow> (nat \<times> nat) option \<Rightarrow> nat option run" where
  "xmlfsm_skip_node m buffer real_buffer =
     (case buffer of (d, e) \<Rightarrow>
        skip_loop m real_buffer e
          (case real_buffer of Some (_, real_end) \<Rightarrow> if d > e then real_end else e | None \<Rightarrow> e)
          d scan_init)"

subsection \<open>Names and attributes\<close>

definition whitespace :: "char \<Rightarrow> bool" where
  "whitespace c \<longleftrightarrow> c = CHR '' '' \<or> c = CHR 0x09 \<or> c = CHR 0x0A \<or> c = CHR 0x0D"

text \<open>The result of \<open>xmlfsm_next_attr\<close>: its code and, on success, the name and the value.\<close>

datatype attr_state =
    XMLPARSE_SUCCESS "nat \<times> nat" "nat \<times> nat"
  | XMLNODE_EMPTY
  | XMLNODE_NOATTR

definition xmlfsm_next_attr :: "bytes \<Rightarrow> nat \<Rightarrow> (attr_state \<times> nat) run" where
  "xmlfsm_next_attr m d =
     bind_run (skip_while whitespace m d) (\<lambda>d1.
       if m ! d1 = CHR ''/'' then Ret (XMLNODE_EMPTY, d1 + 2)
       else if m ! d1 = CHR ''>'' then Ret (XMLNODE_NOATTR, d1 + 1)
       else
         bind_run (skip_while (\<lambda>c. \<not> whitespace c \<and> c \<noteq> CHR ''='') m d1) (\<lambda>d2.
         bind_run (skip_while (\<lambda>c. c \<noteq> CHR 0x22 \<and> c \<noteq> CHR 0x27) m d2) (\<lambda>d3.
         bind_run (skip_while (\<lambda>c. c \<noteq> m ! d3) m (d3 + 1)) (\<lambda>d4.
           Ret (XMLPARSE_SUCCESS (d1, d2) (d3 + 1, d4), d4 + 1)))))"

definition xmlfsm_node_name :: "bytes \<Rightarrow> nat \<times> nat \<Rightarrow> ((nat \<times> nat) \<times> nat) run" where
  "xmlfsm_node_name m buffer =
     (case buffer of (d, e) \<Rightarrow>
        bind_run (memchr m d (size_t_diff m d e) (CHR ''<'')) (\<lambda>found.
          case found of
            None \<Rightarrow> Fault NullDereference
          | Some p \<Rightarrow>
              bind_run (skip_while (\<lambda>c. \<not> whitespace c \<and> c \<noteq> CHR ''>'' \<and> c \<noteq> CHR ''/'') m (p + 1)) (\<lambda>d2.
                Ret ((p + 1, d2), d2))))"

lemma next_attr_progress:
  "xmlfsm_next_attr m d = Ret (XMLPARSE_SUCCESS n v, d') \<Longrightarrow> d < d' \<and> d' \<le> length m"
  by (auto simp: xmlfsm_next_attr_def split: if_splits dest!: skip_while_Ret)

text \<open>
  The loop \<open>while (xmlfsm_next_attr(...) == XMLPARSE_SUCCESS) { body }\<close>: the body gets the
  attribute and the loop's variables, and says whether the function returns from inside the
  loop. The result has the variables, the last attribute state and the position.
\<close>

function attr_loop :: "(nat \<times> nat \<Rightarrow> nat \<times> nat \<Rightarrow> 's \<Rightarrow> ('s \<times> bool) run) \<Rightarrow> bytes \<Rightarrow> nat \<Rightarrow> 's \<Rightarrow>
    ('s \<times> attr_state \<times> nat) run" where
  "attr_loop body m d s =
     bind_run (xmlfsm_next_attr m d) (\<lambda>(st, d').
       case st of
         XMLPARSE_SUCCESS n v \<Rightarrow>
           bind_run (body n v s) (\<lambda>(s', leave).
             if leave then Ret (s', st, d') else attr_loop body m d' s')
       | _ \<Rightarrow> Ret (s, st, d'))"
  by pat_completeness auto
termination
  by (relation "measure (\<lambda>(body, m, d, s). length m - d)") (auto dest!: next_attr_progress)

declare attr_loop.simps [simp del]

definition slice_of :: "bytes \<Rightarrow> nat \<times> nat \<Rightarrow> bytes" where
  "slice_of m s = (case s of (a, b) \<Rightarrow> take (b - a) (drop a m))"

definition xmlfsm_skip_attrs :: "bytes \<Rightarrow> nat \<Rightarrow> (bool \<times> nat) run" where
  "xmlfsm_skip_attrs m d =
     bind_run (attr_loop (\<lambda>n v s. Ret (s, False)) m d ()) (\<lambda>(_, st, d').
       Ret (st = XMLNODE_NOATTR, d'))"

definition xmlfsm_skipto_attr :: "bytes \<Rightarrow> nat \<Rightarrow> bytes \<Rightarrow> ((nat \<times> nat) option \<times> nat) run" where
  \<comment> \<open>the value of the attribute found, and the position\<close>
  "xmlfsm_skipto_attr m d attr_name =
     bind_run (attr_loop (\<lambda>n v s. if slice_of m n = attr_name then Ret (Some v, True) else Ret (None, False)) m d None)
       (\<lambda>(found, st, d'). Ret (found, d'))"

subsection \<open>Walking over siblings\<close>

record sibling =
  sib_start :: nat             \<comment> \<open>\<open>node_start\<close>\<close>
  sib_name :: "nat \<times> nat"      \<comment> \<open>\<open>node_name\<close>\<close>
  sib_node :: "nat \<times> nat"      \<comment> \<open>\<open>node\<close>: from behind the name to the end of the node\<close>
  sib_rest :: "nat \<times> nat"      \<comment> \<open>\<open>buffer\<close> after the node\<close>

definition xmlfsm_next_sibling :: "bytes \<Rightarrow> nat \<times> nat \<Rightarrow> sibling option run" where
  "xmlfsm_next_sibling m buffer =
     (case buffer of (d, e) \<Rightarrow>
        bind_run (xmlfsm_skip_node m (d, e) None) (\<lambda>skipped.
          case skipped of
            None \<Rightarrow> Ret None
          | Some d' \<Rightarrow>
              bind_run (xmlfsm_node_name m (d, d')) (\<lambda>(name, p).
                Ret (Some \<lparr>sib_start = d, sib_name = name, sib_node = (p, d'), sib_rest = (d', e)\<rparr>))))"

lemma skip_loop_straight:
  "skip_loop m None e e d s =
     (if d = e then Ret None
      else case quote_char s of
             Some q \<Rightarrow>
               bind_run (memchr m d (size_t_diff m d e) q) (\<lambda>found.
                 case found of
                   Some p \<Rightarrow> skip_loop m None e e (Suc p) (s\<lparr>quote_char := None\<rparr>)
                 | None \<Rightarrow> Ret None)
           | None \<Rightarrow>
               bind_run (rd m d) (\<lambda>c.
                 case scan_char d c s of
                   None \<Rightarrow> Ret (Some (Suc d))
                 | Some s' \<Rightarrow> skip_loop m None e e (Suc d) s'))"
proof -
  have "skip_loop m None e e e s = Ret None" for s by (subst skip_loop.simps) simp
  then show ?thesis by (subst skip_loop.simps) (simp add: Let_def split: option.split)
qed

lemma skip_loop_progress:
  "skip_loop m real e cur d s = Ret (Some d') \<Longrightarrow> real = None \<Longrightarrow> cur = e \<Longrightarrow>
   d < d' \<and> d' \<le> length m"
proof (induction m real e cur d s rule: skip_loop.induct)
  case (1 m real e cur d0 s)
  have res: "skip_loop m None e e d0 s = Ret (Some d')" using 1(4-6) by simp
  then have ne: "d0 \<noteq> e" by (subst (asm) skip_loop_straight) (auto split: if_splits)
  note IH1 = 1(3)[OF _ refl refl] and IH3 = 1(1)[OF _ refl refl]
  show ?case
  proof (cases "quote_char s")
    case (Some q)
    then obtain p where p: "memchr m d0 (size_t_diff m d0 e) q = Ret (Some p)"
      and r: "skip_loop m None e e (Suc p) (s\<lparr>quote_char := None\<rparr>) = Ret (Some d')"
      using res ne by (subst (asm) skip_loop_straight) (auto split: option.splits)
    have "Suc p < d' \<and> d' \<le> length m"
      using IH1 [of q "Some p" p] p r Some ne 1(5,6) by simp
    moreover have "d0 \<le> p" using memchr_Some [OF p] by simp
    ultimately show ?thesis by simp
  next
    case None
    then obtain c where c: "rd m d0 = Ret c"
      and r: "(case scan_char d0 c s of None \<Rightarrow> Ret (Some (Suc d0))
           | Some s' \<Rightarrow> skip_loop m None e e (Suc d0) s') = Ret (Some d')"
      using res ne by (subst (asm) skip_loop_straight) auto
    have len: "d0 < length m" using c by (auto simp: rd_def split: if_splits)
    show ?thesis
    proof (cases "scan_char d0 c s")
      case None
      with r len show ?thesis by simp
    next
      case (Some s')
      have "Suc d0 < d' \<and> d' \<le> length m"
        using IH3 [of c s'] c r Some \<open>quote_char s = None\<close> ne 1(5,6) by simp
      then show ?thesis by simp
    qed
  qed
qed

lemma skip_node_progress:
  "xmlfsm_skip_node m (d, e) None = Ret (Some d') \<Longrightarrow> d < d' \<and> d' \<le> length m"
  by (simp add: xmlfsm_skip_node_def skip_loop_progress)

lemma next_sibling_progress:
  "xmlfsm_next_sibling m (d, e) = Ret (Some sib) \<Longrightarrow>
   sib_start sib = d \<and> d < fst (sib_rest sib) \<and> fst (sib_rest sib) \<le> length m \<and> snd (sib_rest sib) = e"
  by (clarsimp simp: xmlfsm_next_sibling_def split: option.split_asm) (drule skip_node_progress, simp)

text \<open>
  The loop \<open>while (xmlfsm_next_sibling(&nodes)) { body }\<close>, as \<open>attr_loop\<close>. The result also
  says whether the loop was left from inside, and has what is left of the buffer.
\<close>

function sibling_loop :: "(sibling \<Rightarrow> 's \<Rightarrow> ('s \<times> bool) run) \<Rightarrow> bytes \<Rightarrow> nat \<times> nat \<Rightarrow> 's \<Rightarrow>
    ('s \<times> bool \<times> nat \<times> nat) run" where
  "sibling_loop body m (d, e) s =
     bind_run (xmlfsm_next_sibling m (d, e)) (\<lambda>found.
       case found of
         None \<Rightarrow> Ret (s, False, d, e)
       | Some sib \<Rightarrow>
           bind_run (body sib s) (\<lambda>(s', leave).
             if leave then Ret (s', True, sib_rest sib)
             else sibling_loop body m (sib_rest sib) s'))"
  by pat_completeness auto
termination
  by (relation "measure (\<lambda>(body, m, (d, e), s). length m - d)")
    (auto dest!: next_sibling_progress split: prod.splits)

declare sibling_loop.simps [simp del]

definition xmlfsm_skipto_node :: "bytes \<Rightarrow> nat \<times> nat \<Rightarrow> bytes \<Rightarrow>
    ((nat \<times> nat) option \<times> nat \<times> nat) run" where
  "xmlfsm_skipto_node m buffer node_name =
     bind_run (sibling_loop (\<lambda>sib s.
         if slice_of m (sib_name sib) = node_name
         then Ret (Some (sib_start sib, snd (sib_node sib)), True) else Ret (s, False)) m buffer None)
       (\<lambda>(found, left, rest). Ret (found, if left then rest else buffer))"

end
