(* ===== verification/Packet.thy ===== *)
theory Packet
  imports Jid Xmlfsm
begin

text \<open>
  \<^verbatim>\<open>src/packet.h\<close> and \<^verbatim>\<open>src/packet.c\<close>: an incoming stanza. The packet keeps the block it was
  parsed from (\<open>ip_mem\<close>) and offsets into it for its header, its contents and its attributes;
  \<open>packet_cleanup\<close> overwrites parts of the block in place. The addresses are kept by value:
  the program never reads them again after a cleanup has overwritten their text.
\<close>

type_synonym slice = "(nat \<times> nat) option"

text \<open>Stanza names and types (\<^verbatim>\<open>src/builder.h\<close>).\<close>

abbreviation STANZA_IQ :: int where "STANZA_IQ \<equiv> 1"
abbreviation STANZA_IQ_GET :: int where "STANZA_IQ_GET \<equiv> 1"
abbreviation STANZA_IQ_SET :: int where "STANZA_IQ_SET \<equiv> 2"
abbreviation STANZA_IQ_RESULT :: int where "STANZA_IQ_RESULT \<equiv> 3"
abbreviation STANZA_MESSAGE :: int where "STANZA_MESSAGE \<equiv> 2"
abbreviation STANZA_MESSAGE_CHAT :: int where "STANZA_MESSAGE_CHAT \<equiv> 1"
abbreviation STANZA_MESSAGE_GROUPCHAT :: int where "STANZA_MESSAGE_GROUPCHAT \<equiv> 2"
abbreviation STANZA_PRESENCE :: int where "STANZA_PRESENCE \<equiv> 3"
abbreviation STANZA_PRESENCE_UNAVAILABLE :: int where "STANZA_PRESENCE_UNAVAILABLE \<equiv> 1"
abbreviation STANZA_ERROR :: int where "STANZA_ERROR \<equiv> 100"

record packet =
  ip_name :: int
  ip_type :: int
  ip_real_from :: jid
  ip_proxy_to :: jid
  ip_header :: slice
  ip_inner :: slice
  ip_from_attr :: "((nat \<times> nat) \<times> (nat \<times> nat)) option"
  ip_to_attr :: "((nat \<times> nat) \<times> (nat \<times> nat)) option"
  ip_id_attr :: "((nat \<times> nat) \<times> (nat \<times> nat)) option"
  ip_type_attr :: "((nat \<times> nat) \<times> (nat \<times> nat)) option"
  ip_muc :: slice
  ip_muc_user :: slice
  ip_mem :: bytes

definition packet_zero :: "bytes \<Rightarrow> packet" where
  "packet_zero m =
     \<lparr>ip_name = 0, ip_type = 0, ip_real_from = jid_init, ip_proxy_to = jid_init,
      ip_header = None, ip_inner = None, ip_from_attr = None, ip_to_attr = None,
      ip_id_attr = None, ip_type_attr = None, ip_muc = None, ip_muc_user = None, ip_mem = m\<rparr>"

text \<open>
  What is copied out of the block through a slice. A slice whose end lies before its start
  has a negative size, which \<open>memcpy\<close> takes for a huge one.
\<close>

definition load :: "bytes \<Rightarrow> slice \<Rightarrow> bytes option run" where
  "load m s =
     (case s of
        None \<Rightarrow> Ret None
      | Some (a, b) \<Rightarrow> if a \<le> b \<and> b \<le> length m then Ret (Some (slice_of m (a, b))) else Fault OutOfBounds)"

text \<open>The sibling loop over a slice that may be null (a null buffer is empty).\<close>

definition slice_loop :: "(sibling \<Rightarrow> 's \<Rightarrow> ('s \<times> bool) run) \<Rightarrow> bytes \<Rightarrow> slice \<Rightarrow> 's \<Rightarrow> 's run" where
  "slice_loop body m s st =
     (case s of None \<Rightarrow> Ret st
      | Some buffer \<Rightarrow> bind_run (sibling_loop body m buffer st) (\<lambda>(st', _). Ret st'))"

subsection \<open>Cleanup\<close>

abbreviation PACKET_CLEANUP_FROM :: nat where "PACKET_CLEANUP_FROM \<equiv> 1"
abbreviation PACKET_CLEANUP_TO :: nat where "PACKET_CLEANUP_TO \<equiv> 2"
abbreviation PACKET_CLEANUP_SWITCH_FROM_TO :: nat where "PACKET_CLEANUP_SWITCH_FROM_TO \<equiv> 5"
abbreviation PACKET_CLEANUP_ID :: nat where "PACKET_CLEANUP_ID \<equiv> 8"

definition mem_write :: "nat \<Rightarrow> bytes \<Rightarrow> bytes \<Rightarrow> bytes run" where
  "mem_write a bs m =
     (if a + length bs \<le> length m then Ret (take a m @ bs @ drop (a + length bs) m)
      else Fault OutOfBounds)"

definition blank :: "nat \<Rightarrow> nat \<Rightarrow> bytes \<Rightarrow> bytes run" where
  "blank a b m = mem_write a (replicate (b - a) (CHR '' '')) m"

definition blank_slice :: "slice \<Rightarrow> bytes \<Rightarrow> bytes run" where
  "blank_slice s m = (case s of None \<Rightarrow> Ret m | Some (a, b) \<Rightarrow> blank a b m)"

definition blank_attr :: "((nat \<times> nat) \<times> (nat \<times> nat)) option \<Rightarrow> bytes \<Rightarrow> bytes run" where
  \<comment> \<open>from the start of the name to the closing quote\<close>
  "blank_attr a m =
     (case a of None \<Rightarrow> Fault NullDereference | Some (n, v) \<Rightarrow> blank (fst n) (snd v + 1) m)"

definition packet_cleanup :: "packet \<Rightarrow> nat \<Rightarrow> packet run" where
  "packet_cleanup p mode =
     bind_run (blank_slice (ip_muc p) (ip_mem p)) (\<lambda>m.
     bind_run (blank_slice (ip_muc_user p) m) (\<lambda>m.
     bind_run (if ip_type_attr p = None then Ret m else blank_attr (ip_type_attr p) m) (\<lambda>m.
     bind_run (if mode AND PACKET_CLEANUP_ID \<noteq> 0 then blank_attr (ip_id_attr p) m else Ret m) (\<lambda>m.
     bind_run (if mode AND PACKET_CLEANUP_TO \<noteq> 0 then blank_attr (ip_to_attr p) m else Ret m) (\<lambda>m.
     bind_run (if mode AND PACKET_CLEANUP_SWITCH_FROM_TO = PACKET_CLEANUP_SWITCH_FROM_TO
               then (case ip_from_attr p of None \<Rightarrow> Fault NullDereference
                     | Some (n, v) \<Rightarrow> mem_write (fst n) ''  to'' m)
               else if mode AND PACKET_CLEANUP_FROM \<noteq> 0 then blank_attr (ip_from_attr p) m
               else Ret m) (\<lambda>m.
       Ret (p\<lparr>ip_mem := m\<rparr>)))))))"

subsection \<open>Parsing\<close>

definition muc_user_ns :: bytes where "muc_user_ns = ''http://jabber.org/protocol/muc#user''"
definition muc_ns :: bytes where "muc_ns = ''http://jabber.org/protocol/muc''"

definition parse_presence_inner :: "packet \<Rightarrow> (packet \<times> bool) run" where
  "parse_presence_inner p =
     slice_loop (\<lambda>sib (p, ok).
       if slice_of (ip_mem p) (sib_name sib) = ''x'' then
         bind_run (xmlfsm_skipto_attr (ip_mem p) (fst (sib_node sib)) ''xmlns'') (\<lambda>(found, _).
           case found of
             None \<Rightarrow> Ret ((p, ok), False)
           | Some v \<Rightarrow>
               let node = Some (sib_start sib, snd (sib_node sib)) in
               if slice_of (ip_mem p) v = muc_user_ns then
                 (if ip_muc_user p = None then Ret ((p\<lparr>ip_muc_user := node\<rparr>, ok), False)
                  else Ret ((p, False), True))
               else if slice_of (ip_mem p) v = muc_ns then
                 (if ip_muc p = None then Ret ((p\<lparr>ip_muc := node\<rparr>, ok), False)
                  else Ret ((p, False), True))
               else Ret ((p, ok), False))
       else Ret ((p, ok), False)) (ip_mem p) (ip_inner p) (p, True)"

definition set_type :: "bytes option \<Rightarrow> packet \<Rightarrow> packet \<times> bool" where
  "set_type value p =
     (if value = Some ''error'' then (p\<lparr>ip_type := STANZA_ERROR\<rparr>, True)
      else if ip_name p = STANZA_MESSAGE then
        (if value = Some ''chat'' then (p\<lparr>ip_type := STANZA_MESSAGE_CHAT\<rparr>, True)
         else if value = Some ''groupchat'' then (p\<lparr>ip_type := STANZA_MESSAGE_GROUPCHAT\<rparr>, True)
         else (p, False))
      else if ip_name p = STANZA_PRESENCE then
        (if value = None then (p, True)
         else if value = Some ''unavailable'' then (p\<lparr>ip_type := STANZA_PRESENCE_UNAVAILABLE\<rparr>, True)
         else (p, False))
      else if ip_name p = STANZA_IQ then
        (if value = Some ''get'' then (p\<lparr>ip_type := STANZA_IQ_GET\<rparr>, True)
         else if value = Some ''set'' then (p\<lparr>ip_type := STANZA_IQ_SET\<rparr>, True)
         else if value = Some ''result'' then (p\<lparr>ip_type := STANZA_IQ_RESULT\<rparr>, True)
         else (p, False))
      else (p, False))"

definition stanza_name_code :: "bytes \<Rightarrow> int option" where
  "stanza_name_code n =
     (if n = ''message'' then Some STANZA_MESSAGE
      else if n = ''presence'' then Some STANZA_PRESENCE
      else if n = ''iq'' then Some STANZA_IQ else None)"

text \<open>The body of the attribute loop; \<open>False\<close> with \<open>leave\<close> is the early \<open>return FALSE\<close>.\<close>

definition packet_attr :: "nat \<times> nat \<Rightarrow> nat \<times> nat \<Rightarrow> packet \<times> bool \<Rightarrow> ((packet \<times> bool) \<times> bool) run" where
  "packet_attr n v st =
     (case st of (p0, ok) \<Rightarrow>
       let m = ip_mem p0;
           p = p0\<lparr>ip_header := map_option (\<lambda>h. (fst h, snd v + 1)) (ip_header p0)\<rparr>;
           name = slice_of m n;
           value = slice_of m v
       in if name = ''from'' then
            (case jid_struct (Some value) of (good, j) \<Rightarrow>
               if \<not> good then Ret ((p\<lparr>ip_real_from := j\<rparr>, False), True)
               else Ret ((p\<lparr>ip_real_from := j, ip_from_attr := Some (n, v)\<rparr>, ok), False))
          else if name = ''to'' then
            (case jid_struct (Some value) of (good, j) \<Rightarrow>
               if \<not> good then Ret ((p\<lparr>ip_proxy_to := j\<rparr>, False), True)
               else Ret ((p\<lparr>ip_proxy_to := j, ip_to_attr := Some (n, v)\<rparr>, ok), False))
          else if name = ''type'' then
            (case set_type (Some value) p of (p', good) \<Rightarrow>
               if \<not> good then Ret ((p', False), True)
               else Ret ((p'\<lparr>ip_type_attr := Some (n, v)\<rparr>, ok), False))
          else if name = ''id'' then Ret ((p\<lparr>ip_id_attr := Some (n, v)\<rparr>, ok), False)
          else Ret ((p, ok), False))"

text \<open>The checks after the attributes.\<close>

definition packet_routable :: "packet \<Rightarrow> bool" where
  "packet_routable p \<longleftrightarrow>
     \<not> jid_empty (ip_real_from p) \<and> \<not> jid_empty (ip_proxy_to p) \<and>
     (ip_name p = STANZA_MESSAGE \<or> ip_name p = STANZA_PRESENCE \<longrightarrow>
        buffer_size (jid_node (ip_proxy_to p)) \<noteq> 0 \<and>
        \<not> (ip_name p = STANZA_MESSAGE \<and> jid_resource (ip_proxy_to p) = None \<and>
           ip_type p \<noteq> STANZA_MESSAGE_GROUPCHAT))"

definition packet_parse :: "bytes \<Rightarrow> nat \<times> nat \<Rightarrow> (packet \<times> bool) run" where
  "packet_parse m buffer =
     bind_run (xmlfsm_node_name m buffer) (\<lambda>(sname, d).
       case stanza_name_code (slice_of m sname) of
         None \<Rightarrow> Ret (packet_zero m, False)
       | Some code \<Rightarrow>
           let p0 = (packet_zero m)\<lparr>ip_name := code, ip_header := Some (d, d)\<rparr> in
           bind_run (attr_loop packet_attr m d (p0, True)) (\<lambda>((p, ok), st, d').
             if \<not> ok then Ret (p, False)
             else
               bind_run
                 (if st = XMLNODE_EMPTY then Ret (p\<lparr>ip_inner := None\<rparr>)
                  else if snd buffer < (snd sname - fst sname) + 3 then Fault OutOfBounds
                  else Ret (p\<lparr>ip_inner := Some (d', snd buffer - (snd sname - fst sname) - 3)\<rparr>))
                 (\<lambda>p.
                   if \<not> packet_routable p then Ret (p, False)
                   else if ip_name p = STANZA_PRESENCE then parse_presence_inner p
                   else Ret (p, True))))"

end
