(* ===== verification/Ringbuffer.thy ===== *)
theory Ringbuffer
  imports Prelude
begin

text \<open>
  \<^verbatim>\<open>xmcomp/src/ringbuffer.h\<close> and \<^verbatim>\<open>xmcomp/src/ringbuffer.c\<close>: the ring buffer between the workers, which
  write stanzas into it, and the writer thread, which sends it to the server. Positions are
  offsets from \<open>start\<close>; \<open>end\<close> is the length of the memory. Waiting on a condition variable is
  a result: the caller tries again in a later step, with the mutex free in between.
\<close>

record ringbuffer_stats =
  rs_overflows :: int
  rs_underflows :: int
  rs_reads :: int
  rs_writes :: int

record ringbuffer =
  rb_mem :: bytes
  rb_read :: int           \<comment> \<open>\<open>read_position\<close>\<close>
  rb_write :: int          \<comment> \<open>\<open>write_position\<close>\<close>
  rb_data_size :: int
  rb_online :: bool
  rb_stats :: ringbuffer_stats

abbreviation rb_end :: "ringbuffer \<Rightarrow> int" where "rb_end rb \<equiv> int (length (rb_mem rb))"

definition ringbuffer_clear :: "ringbuffer \<Rightarrow> ringbuffer" where
  "ringbuffer_clear rb = rb\<lparr>rb_read := 0, rb_write := 0, rb_data_size := 0, rb_online := True\<rparr>"

definition ringbuffer_init :: "ringbuffer \<Rightarrow> bytes \<Rightarrow> ringbuffer" where
  "ringbuffer_init rb memory = ringbuffer_clear (rb\<lparr>rb_mem := memory\<rparr>)"

definition ringbuffer_offline :: "ringbuffer \<Rightarrow> ringbuffer" where
  "ringbuffer_offline rb = rb\<lparr>rb_online := False\<rparr>"

subsection \<open>Writing\<close>

definition continuous_block_size :: "ringbuffer \<Rightarrow> int" where
  "continuous_block_size rb =
     (if rb_write rb \<le> rb_read rb \<and> rb_data_size rb > 0 then rb_read rb - rb_write rb
      else rb_end rb - rb_write rb)"

text \<open>One round of the loop: \<open>None\<close> when there is no free space and the thread waits.\<close>

definition ringbuffer_write_block :: "ringbuffer \<Rightarrow> bytes \<Rightarrow> (ringbuffer \<times> nat) option" where
  "ringbuffer_write_block rb bs =
     (let block = continuous_block_size rb in
      if block = 0 then None
      else
        let n = (if block > int (length bs) then length bs else nat block);
            w = nat (rb_write rb);
            w' = rb_write rb + int n
        in Some (rb\<lparr>rb_mem := take w (rb_mem rb) @ take n bs @ drop (w + n) (rb_mem rb),
                    rb_write := (if w' = rb_end rb then 0 else w'),
                    rb_data_size := rb_data_size rb + int n\<rparr>, n))"

text \<open>
  The loop, up to its end or to the first wait: what is left to write is the second result
  (\<open>[]\<close> when the call returns).
\<close>

function ringbuffer_write :: "ringbuffer \<Rightarrow> bytes \<Rightarrow> ringbuffer \<times> bytes" where
  "ringbuffer_write rb bs =
     (if bs = [] then (rb\<lparr>rb_stats := (rb_stats rb)\<lparr>rs_writes := rs_writes (rb_stats rb) + 1\<rparr>\<rparr>, [])
      else
        (case ringbuffer_write_block rb bs of
           None \<Rightarrow> (rb\<lparr>rb_stats := (rb_stats rb)\<lparr>rs_overflows := rs_overflows (rb_stats rb) + 1\<rparr>\<rparr>, bs)
         | Some (rb', n) \<Rightarrow> if n = 0 then (rb', bs) else ringbuffer_write rb' (drop n bs)))"
  by pat_completeness auto
termination by (relation "measure (\<lambda>(rb, bs). length bs)") auto

declare ringbuffer_write.simps [simp del]

subsection \<open>Reading\<close>

text \<open>The number of bytes that can be read at once; \<open>None\<close> when the thread waits for data.\<close>

definition ringbuffer_get_chunk :: "ringbuffer \<Rightarrow> ringbuffer \<times> int option" where
  "ringbuffer_get_chunk rb =
     (if rb_data_size rb = 0 then
        if \<not> rb_online rb then (rb, Some 0)
        else (rb\<lparr>rb_stats := (rb_stats rb)\<lparr>rs_underflows := rs_underflows (rb_stats rb) + 1\<rparr>\<rparr>, None)
      else
        let delta = rb_end rb - rb_read rb;
            rb' = rb\<lparr>rb_stats := (rb_stats rb)\<lparr>rs_reads := rs_reads (rb_stats rb) + 1\<rparr>\<rparr>
        in (rb', Some (if delta > rb_data_size rb then rb_data_size rb else delta)))"

definition ringbuffer_release_chunk :: "ringbuffer \<Rightarrow> int \<Rightarrow> ringbuffer" where
  "ringbuffer_release_chunk rb n =
     (let r = rb_read rb + n in
      rb\<lparr>rb_read := (if r = rb_end rb then 0 else r), rb_data_size := rb_data_size rb - n\<rparr>)"

subsection \<open>A queue of bytes\<close>

text \<open>
  What the two sides rely on: a queue of bytes. A put appends a prefix of the data, not empty
  unless the queue is full; a get shows bytes from the front, not none unless the queue is
  empty; a release removes them.
\<close>

locale byte_queue =
  fixes put_block :: "'q \<Rightarrow> bytes \<Rightarrow> ('q \<times> nat) option"
    and front :: "'q \<Rightarrow> bytes"
    and release :: "'q \<Rightarrow> nat \<Rightarrow> 'q"
    and contents :: "'q \<Rightarrow> bytes"
    and full :: "'q \<Rightarrow> bool"
    and wf :: "'q \<Rightarrow> bool"
  assumes put_full: "wf q \<Longrightarrow> put_block q bs = None \<longleftrightarrow> full q"
    and put_some: "wf q \<Longrightarrow> put_block q bs = Some (q', n) \<Longrightarrow>
      wf q' \<and> n \<le> length bs \<and> contents q' = contents q @ take n bs \<and> (bs \<noteq> [] \<longrightarrow> 0 < n)"
    and front_prefix: "wf q \<Longrightarrow> \<exists>rest. contents q = front q @ rest"
    and front_nonempty: "wf q \<Longrightarrow> contents q \<noteq> [] \<Longrightarrow> front q \<noteq> []"
    and release_drop: "wf q \<Longrightarrow> n \<le> length (front q) \<Longrightarrow>
      wf (release q n) \<and> contents (release q n) = drop n (contents q)"
begin

text \<open>What has been sent, followed by what is stored, only ever grows at its end.\<close>

lemma put_grows:
  "wf q \<Longrightarrow> put_block q bs = Some (q', n) \<Longrightarrow> sent @ contents q' = (sent @ contents q) @ take n bs"
  using put_some by simp

lemma send_keeps:
  assumes "wf q" and "n \<le> length (front q)"
  shows "(sent @ take n (front q)) @ contents (release q n) = sent @ contents q"
proof -
  obtain rest where "contents q = front q @ rest" using front_prefix [OF assms(1)] by blast
  then show ?thesis using release_drop [OF assms] assms(2) by simp
qed

lemma never_stuck: "wf q \<Longrightarrow> contents q = [] \<Longrightarrow> \<not> full q \<Longrightarrow> put_block q bs \<noteq> None"
  using put_full by simp

end

subsection \<open>The ring buffer is a queue of bytes\<close>

definition rb_wf :: "ringbuffer \<Rightarrow> bool" where
  "rb_wf rb \<longleftrightarrow>
     0 < rb_end rb \<and> 0 \<le> rb_read rb \<and> rb_read rb < rb_end rb \<and>
     0 \<le> rb_data_size rb \<and> rb_data_size rb \<le> rb_end rb \<and>
     rb_write rb = (rb_read rb + rb_data_size rb) mod rb_end rb"

definition rb_contents :: "ringbuffer \<Rightarrow> bytes" where
  "rb_contents rb =
     map (\<lambda>i. rb_mem rb ! nat ((rb_read rb + int i) mod rb_end rb)) [0..<nat (rb_data_size rb)]"

definition rb_chunk :: "ringbuffer \<Rightarrow> bytes" where
  \<comment> \<open>the bytes the writer thread hands to \<open>net_send\<close>\<close>
  "rb_chunk rb =
     (case snd (ringbuffer_get_chunk rb) of
        None \<Rightarrow> [] | Some n \<Rightarrow> take (nat n) (drop (nat (rb_read rb)) (rb_mem rb)))"

definition rb_full :: "ringbuffer \<Rightarrow> bool" where
  "rb_full rb \<longleftrightarrow> rb_data_size rb = rb_end rb"

lemma mod_once: "0 \<le> a \<Longrightarrow> a < 2 * n \<Longrightarrow> a mod n = (if a < n then a else a - n)" for a n :: int
  using mod_pos_pos_trivial [of a n] mod_pos_pos_trivial [of "a - n" n] minus_mod_self2 [of a n]
  by auto

lemma rb_write_cases:
  assumes "rb_wf rb"
  shows "rb_write rb = (if rb_read rb + rb_data_size rb < rb_end rb then rb_read rb + rb_data_size rb
    else rb_read rb + rb_data_size rb - rb_end rb)"
  using assms mod_once [of "rb_read rb + rb_data_size rb" "rb_end rb"] by (auto simp: rb_wf_def)

lemma block_size:
  assumes "rb_wf rb"
  shows "continuous_block_size rb =
    (if rb_read rb + rb_data_size rb < rb_end rb then rb_end rb - (rb_read rb + rb_data_size rb)
     else rb_end rb - rb_data_size rb)"
  using assms unfolding continuous_block_size_def rb_write_cases [OF assms] by (auto simp: rb_wf_def)

lemma block_bounds:
  assumes "rb_wf rb"
  shows "0 \<le> continuous_block_size rb" "continuous_block_size rb \<le> rb_end rb - rb_data_size rb"
    "rb_write rb + continuous_block_size rb \<le> rb_end rb"
    "continuous_block_size rb = 0 \<longleftrightarrow> rb_full rb"
  using assms unfolding block_size [OF assms] rb_write_cases [OF assms] rb_full_def by (auto simp: rb_wf_def)

lemma rb_contents_nth:
  "i < nat (rb_data_size rb) \<Longrightarrow> rb_contents rb ! i = rb_mem rb ! nat ((rb_read rb + int i) mod rb_end rb)"
  by (simp add: rb_contents_def)

lemma length_rb_contents [simp]: "length (rb_contents rb) = nat (rb_data_size rb)"
  by (simp add: rb_contents_def)

lemma overwrite_nth:
  assumes "w + length bs \<le> length m" and "k < length m"
  shows "(take w m @ bs @ drop (w + length bs) m) ! k =
    (if w \<le> k \<and> k < w + length bs then bs ! (k - w) else m ! k)"
  using assms by (auto simp: nth_append min_def)

lemma put_block_effect:
  assumes wf: "rb_wf rb" and put: "ringbuffer_write_block rb bs = Some (rb', n)"
  shows "rb_wf rb' \<and> n \<le> length bs \<and> rb_contents rb' = rb_contents rb @ take n bs \<and> (bs \<noteq> [] \<longrightarrow> 0 < n)"
proof -
  let ?N = "rb_end rb" and ?r = "rb_read rb" and ?s = "rb_data_size rb" and ?w = "nat (rb_write rb)"
  note b = block_bounds [OF wf]
  have N: "0 < ?N" "0 \<le> ?r" "?r < ?N" "0 \<le> ?s" "?s \<le> ?N" using wf by (simp_all add: rb_wf_def)
  have ne: "continuous_block_size rb \<noteq> 0"
    and n: "n = (if continuous_block_size rb > int (length bs) then length bs else nat (continuous_block_size rb))"
    and rb': "rb' = rb\<lparr>rb_mem := take ?w (rb_mem rb) @ take n bs @ drop (?w + n) (rb_mem rb),
        rb_write := (if rb_write rb + int n = ?N then 0 else rb_write rb + int n),
        rb_data_size := ?s + int n\<rparr>"
    using put by (auto simp: ringbuffer_write_block_def Let_def split: if_splits)
  have nb: "n \<le> length bs" "int n \<le> continuous_block_size rb" "bs \<noteq> [] \<longrightarrow> 0 < n"
    using n b(1) ne by (auto split: if_splits)
  have w: "0 \<le> rb_write rb" "rb_write rb < ?N" using rb_write_cases [OF wf] N by auto
  have fit: "?w + n \<le> length (rb_mem rb)" using b(3) nb(2) w by linarith
  have ln: "length (take n bs) = n" using nb(1) by simp
  have len: "rb_end rb' = ?N" using fit nb(1) by (simp add: rb')
  have total: "?s + int n \<le> ?N" using b(2) nb(2) by linarith
  have wr: "rb_write rb = (?r + ?s) mod ?N" using wf by (simp add: rb_wf_def)
  have next_w: "(if rb_write rb + int n = ?N then 0 else rb_write rb + int n) = (?r + (?s + int n)) mod ?N"
  proof -
    have "(?r + (?s + int n)) mod ?N = (rb_write rb + int n) mod ?N"
      unfolding wr by (simp add: mod_simps add.assoc)
    also have "\<dots> = (if rb_write rb + int n = ?N then 0 else rb_write rb + int n)"
      using b(3) nb(2) w by auto
    finally show ?thesis by simp
  qed
  have wf': "rb_wf rb'"
    using N total len next_w by (simp add: rb_wf_def) (simp add: rb')
  have slot: "nat ((?r + int i) mod ?N) < length (rb_mem rb)" for i
    using N by (simp add: nat_less_iff)
  have cell: "rb_mem rb' ! nat ((?r + int i) mod ?N) =
      (if ?s \<le> int i then bs ! (i - nat ?s) else rb_mem rb ! nat ((?r + int i) mod ?N))"
    if i: "int i < ?s + int n" for i
  proof -
    let ?k = "nat ((?r + int i) mod ?N)"
    have at: "rb_mem rb' ! ?k = (if ?w \<le> ?k \<and> ?k < ?w + n then take n bs ! (?k - ?w) else rb_mem rb ! ?k)"
      using overwrite_nth [of ?w "take n bs" "rb_mem rb" ?k] fit slot [of i] unfolding ln by (simp add: rb')
    have pos: "(?r + int i) mod ?N = (if ?r + int i < ?N then ?r + int i else ?r + int i - ?N)"
      using N total i by (intro mod_once) linarith+
    show ?thesis
    proof (cases "?s \<le> int i")
      case True
      have "?w \<le> ?k" "?k < ?w + n" "?k - ?w = i - nat ?s"
        using True i N nb(2) b(3) unfolding pos rb_write_cases [OF wf] by (auto split: if_splits)
      moreover have "i - nat ?s < n" using True i N by linarith
      ultimately show ?thesis using True at by simp
    next
      case False
      have ns: "\<not> (?w \<le> ?k \<and> ?k < ?w + n)"
        using False i N nb(2) unfolding pos rb_write_cases [OF wf] block_size [OF wf] by (auto split: if_splits)
      show ?thesis unfolding at if_not_P [OF ns] using False by simp
    qed
  qed
  have "rb_contents rb' = rb_contents rb @ take n bs"
  proof (rule nth_equalityI)
    show "length (rb_contents rb') = length (rb_contents rb @ take n bs)"
      using N nb(1) by (simp add: rb' nat_add_distrib)
    fix i
    assume "i < length (rb_contents rb')"
    then have i: "int i < ?s + int n" using N by (simp add: rb')
    then have "rb_contents rb' ! i = rb_mem rb' ! nat ((?r + int i) mod ?N)"
      using len by (subst rb_contents_nth) (simp_all add: rb')
    also have "\<dots> = (rb_contents rb @ take n bs) ! i"
      using cell [OF i] i N by (auto simp: nth_append rb_contents_nth)
    finally show "rb_contents rb' ! i = (rb_contents rb @ take n bs) ! i" .
  qed
  with wf' nb show ?thesis by blast
qed

lemma rb_chunk_effect:
  assumes wf: "rb_wf rb" and n: "n \<le> length (rb_chunk rb)"
  shows "(\<exists>rest. rb_contents rb = rb_chunk rb @ rest) \<and> (rb_contents rb \<noteq> [] \<longrightarrow> rb_chunk rb \<noteq> []) \<and>
    rb_wf (ringbuffer_release_chunk rb (int n)) \<and>
    rb_contents (ringbuffer_release_chunk rb (int n)) = drop n (rb_contents rb)"
proof -
  let ?N = "rb_end rb" and ?r = "rb_read rb" and ?s = "rb_data_size rb"
  have N: "0 < ?N" "0 \<le> ?r" "?r < ?N" "0 \<le> ?s" "?s \<le> ?N" using wf by (simp_all add: rb_wf_def)
  define c where "c = (if ?s = 0 then 0 else if ?N - ?r > ?s then ?s else ?N - ?r)"
  have chunk: "rb_chunk rb = take (nat c) (drop (nat ?r) (rb_mem rb))"
    by (simp add: rb_chunk_def ringbuffer_get_chunk_def c_def Let_def)
  have c: "0 \<le> c" "c \<le> ?s" "?r + c \<le> ?N" "?s \<noteq> 0 \<Longrightarrow> 0 < c" using N by (auto simp: c_def)
  have lc: "length (rb_chunk rb) = nat c" using c N by (auto simp: chunk)
  have pre: "rb_chunk rb = take (nat c) (rb_contents rb)"
  proof (rule nth_equalityI)
    show "length (rb_chunk rb) = length (take (nat c) (rb_contents rb))" using c lc by simp
    fix i
    assume "i < length (rb_chunk rb)"
    then have i: "int i < c" using lc by simp
    then have "(?r + int i) mod ?N = ?r + int i" using c N by simp
    then show "rb_chunk rb ! i = take (nat c) (rb_contents rb) ! i"
      using i c N by (simp add: chunk rb_contents_nth nat_add_distrib)
  qed
  then have "rb_contents rb = rb_chunk rb @ drop (nat c) (rb_contents rb)"
    using append_take_drop_id [of "nat c" "rb_contents rb"] by simp
  moreover have "rb_contents rb \<noteq> [] \<longrightarrow> rb_chunk rb \<noteq> []"
    using c(4) lc by (auto simp flip: length_greater_0_conv)
  moreover have rel: "rb_wf (ringbuffer_release_chunk rb (int n))" 
    and "rb_contents (ringbuffer_release_chunk rb (int n)) = drop n (rb_contents rb)"
  proof -
    let ?rb' = "ringbuffer_release_chunk rb (int n)"
    have nc: "int n \<le> c" using n lc c by linarith
    have r': "rb_read ?rb' = (?r + int n) mod ?N"
      using nc c N by (auto simp: ringbuffer_release_chunk_def Let_def)
    have same: "rb_end ?rb' = ?N" "rb_mem ?rb' = rb_mem rb" "rb_data_size ?rb' = ?s - int n" "rb_write ?rb' = rb_write rb"
      by (simp_all add: ringbuffer_release_chunk_def Let_def)
    have "rb_write rb = ((?r + int n) mod ?N + (?s - int n)) mod ?N"
      using wf by (simp add: rb_wf_def mod_simps)
    then show "rb_wf ?rb'" using N nc c(2) unfolding rb_wf_def same(1) r' same by simp
    show "rb_contents ?rb' = drop n (rb_contents rb)"
    proof (rule nth_equalityI)
      show "length (rb_contents ?rb') = length (drop n (rb_contents rb))" by (simp add: same nat_diff_distrib')
      fix i
      assume "i < length (rb_contents ?rb')"
      then have i: "i < nat (?s - int n)" by (simp add: same)
      then have "n + i < nat ?s" by linarith
      moreover have "((?r + int n) mod ?N + int i) mod ?N = (?r + int (n + i)) mod ?N"
        by (simp add: mod_simps add.assoc)
      ultimately show "rb_contents ?rb' ! i = drop n (rb_contents rb) ! i"
        using i by (simp add: rb_contents_nth same r')
    qed
  qed
  ultimately show ?thesis by blast
qed

lemma put_block_sizes:
  assumes wf: "rb_wf rb" and put: "ringbuffer_write_block rb bs = Some (rb', n)"
  shows "rb_end rb' = rb_end rb \<and> rb_data_size rb' = rb_data_size rb + int n"
proof -
  have "length (rb_contents rb') = length (rb_contents rb) + n" and "rb_wf rb'"
    using put_block_effect [OF assms] by simp_all
  then have size: "rb_data_size rb' = rb_data_size rb + int n" using wf by (auto simp: rb_wf_def)
  have "nat (rb_write rb) + n \<le> length (rb_mem rb)" "n \<le> length bs"
    using put block_bounds(1,3) [OF wf] rb_write_cases [OF wf] wf
    by (auto simp: ringbuffer_write_block_def Let_def rb_wf_def split: if_splits)
  then have "rb_end rb' = rb_end rb"
    using put by (auto simp: ringbuffer_write_block_def Let_def split: if_splits)
  with size show ?thesis by simp
qed

lemma put_block_full: "rb_wf rb \<Longrightarrow> ringbuffer_write_block rb bs = None \<longleftrightarrow> rb_full rb"
  using block_bounds(4) by (simp add: ringbuffer_write_block_def Let_def)

interpretation rbq: byte_queue ringbuffer_write_block rb_chunk "\<lambda>rb n. ringbuffer_release_chunk rb (int n)"
    rb_contents rb_full rb_wf
proof
  show "\<exists>rest. rb_contents rb = rb_chunk rb @ rest" if "rb_wf rb" for rb
    using rb_chunk_effect [OF that, of 0] by simp
  show "rb_chunk rb \<noteq> []" if "rb_wf rb" "rb_contents rb \<noteq> []" for rb
    using rb_chunk_effect [OF that(1), of 0] that(2) by simp
qed (simp_all add: put_block_full put_block_effect rb_chunk_effect)

subsection \<open>Workers and the writer thread\<close>

text \<open>
  Any number of workers call \<open>ringbuffer_write\<close>; one writer thread reads chunks, hands them to
  the socket, which may take fewer bytes, and releases what was taken. A worker holds the
  mutex from its call to its return, except while it waits for free space. The record has,
  besides the buffer, the owner of the mutex, what each worker has left to write and was asked
  to write, the bytes in the order they were stored (with their worker), and those sent.
\<close>

record rb_system =
  sy_rb :: ringbuffer
  sy_owner :: "nat option"
  sy_pending :: "nat \<Rightarrow> bytes"
  sy_called :: "nat \<Rightarrow> bytes"
  sy_log :: "(nat \<times> char) list"
  sy_sent :: bytes

definition rb_start :: "bytes \<Rightarrow> rb_system" where
  "rb_start memory =
     \<lparr>sy_rb = ringbuffer_init \<lparr>rb_mem = [], rb_read = 0, rb_write = 0, rb_data_size = 0, rb_online = False,
        rb_stats = \<lparr>rs_overflows = 0, rs_underflows = 0, rs_reads = 0, rs_writes = 0\<rparr>\<rparr> memory,
      sy_owner = None, sy_pending = (\<lambda>_. []), sy_called = (\<lambda>_. []), sy_log = [], sy_sent = []\<rparr>"

inductive rb_step :: "rb_system \<Rightarrow> rb_system \<Rightarrow> bool" where
  call: "sy_pending s t = [] \<Longrightarrow> bs \<noteq> [] \<Longrightarrow>
    rb_step s (s\<lparr>sy_pending := (sy_pending s)(t := bs), sy_called := (sy_called s)(t := sy_called s t @ bs)\<rparr>)"
| lock: "sy_owner s = None \<Longrightarrow> sy_pending s t \<noteq> [] \<Longrightarrow> rb_step s (s\<lparr>sy_owner := Some t\<rparr>)"
| block: "sy_owner s = Some t \<Longrightarrow> ringbuffer_write_block (sy_rb s) (sy_pending s t) = Some (rb', n) \<Longrightarrow>
    rb_step s (s\<lparr>sy_rb := rb', sy_pending := (sy_pending s)(t := drop n (sy_pending s t)),
      sy_log := sy_log s @ map (Pair t) (take n (sy_pending s t)),
      sy_owner := (if n = length (sy_pending s t) then None else Some t)\<rparr>)"
| wait: "sy_owner s = Some t \<Longrightarrow> ringbuffer_write_block (sy_rb s) (sy_pending s t) = None \<Longrightarrow>
    rb_step s (s\<lparr>sy_owner := None\<rparr>)"
| send: "n \<le> length (rb_chunk (sy_rb s)) \<Longrightarrow>
    rb_step s (s\<lparr>sy_sent := sy_sent s @ take n (rb_chunk (sy_rb s)),
      sy_rb := ringbuffer_release_chunk (sy_rb s) (int n)\<rparr>)"

inductive rb_reachable :: "bytes \<Rightarrow> rb_system \<Rightarrow> bool" for memory where
  start: "rb_reachable memory (rb_start memory)"
| step: "rb_reachable memory s \<Longrightarrow> rb_step s s' \<Longrightarrow> rb_reachable memory s'"

inductive_cases rb_stepE: "rb_step s s'"

definition rb_invariant :: "rb_system \<Rightarrow> bool" where
  "rb_invariant s \<longleftrightarrow>
     rb_wf (sy_rb s) \<and> sy_sent s @ rb_contents (sy_rb s) = map snd (sy_log s) \<and>
     (\<forall>t. map snd (filter (\<lambda>e. fst e = t) (sy_log s)) @ sy_pending s t = sy_called s t)"

lemma filter_pairs: "map snd (filter (\<lambda>e. fst e = t) (map (Pair u) xs)) = (if t = u then xs else [])"
  by (induction xs) auto

lemma rb_invariant_start: "memory \<noteq> [] \<Longrightarrow> rb_invariant (rb_start memory)"
  by (simp add: rb_invariant_def rb_start_def ringbuffer_init_def ringbuffer_clear_def rb_wf_def
    rb_contents_def)

lemma rb_invariant_step: "rb_step s s' \<Longrightarrow> rb_invariant s \<Longrightarrow> rb_invariant s'"
proof (induction rule: rb_step.induct)
  case (call s t bs)
  then have "map snd (filter (\<lambda>e. fst e = t) (sy_log s)) = sy_called s t"
    by (metis append_Nil2 rb_invariant_def)
  with call show ?case by (auto simp: rb_invariant_def)
next
  case (block s t rb' n)
  have wf: "rb_wf (sy_rb s)" using block.prems by (simp add: rb_invariant_def)
  note p = rbq.put_some [OF wf block.hyps(2)]
  have "sy_sent s @ rb_contents rb' = (sy_sent s @ rb_contents (sy_rb s)) @ take n (sy_pending s t)"
    using p by simp
  also have "\<dots> = map snd (sy_log s @ map (Pair t) (take n (sy_pending s t)))"
    using block.prems by (simp add: rb_invariant_def comp_def)
  finally have log: "sy_sent s @ rb_contents rb' = map snd (sy_log s @ map (Pair t) (take n (sy_pending s t)))" .
  have "map snd (filter (\<lambda>e. fst e = u) (sy_log s @ map (Pair t) (take n (sy_pending s t)))) @
      ((sy_pending s)(t := drop n (sy_pending s t))) u = sy_called s u" for u
    using block.prems by (simp add: rb_invariant_def filter_pairs)
  then show ?case using log p by (simp add: rb_invariant_def)
next
  case (send n s)
  have wf: "rb_wf (sy_rb s)" using send.prems by (simp add: rb_invariant_def)
  show ?case
    using send.prems rbq.send_keeps [OF wf send.hyps, of "sy_sent s"] rbq.release_drop [OF wf send.hyps]
    by (simp add: rb_invariant_def)
qed (auto simp: rb_invariant_def)

lemma rb_invariant_reachable: "rb_reachable memory s \<Longrightarrow> memory \<noteq> [] \<Longrightarrow> rb_invariant s"
  by (induction rule: rb_reachable.induct) (auto intro: rb_invariant_start rb_invariant_step)


definition example_memory :: bytes where
  "example_memory = ''....''"

text \<open>An executable form of the steps, to build runs.\<close>

datatype rb_action = Call nat bytes | Lock nat | Block nat | Wait nat | Send nat

fun rb_act :: "rb_action \<Rightarrow> rb_system \<Rightarrow> rb_system option" where
  "rb_act (Call t bs) s =
     (if sy_pending s t = [] \<and> bs \<noteq> [] then
        Some (s\<lparr>sy_pending := (sy_pending s)(t := bs), sy_called := (sy_called s)(t := sy_called s t @ bs)\<rparr>)
      else None)"
| "rb_act (Lock t) s = (if sy_owner s = None \<and> sy_pending s t \<noteq> [] then Some (s\<lparr>sy_owner := Some t\<rparr>) else None)"
| "rb_act (Block t) s =
     (if sy_owner s \<noteq> Some t then None
      else map_option (\<lambda>(rb', n). s\<lparr>sy_rb := rb', sy_pending := (sy_pending s)(t := drop n (sy_pending s t)),
          sy_log := sy_log s @ map (Pair t) (take n (sy_pending s t)),
          sy_owner := (if n = length (sy_pending s t) then None else Some t)\<rparr>)
        (ringbuffer_write_block (sy_rb s) (sy_pending s t)))"
| "rb_act (Wait t) s =
     (if sy_owner s = Some t \<and> ringbuffer_write_block (sy_rb s) (sy_pending s t) = None
      then Some (s\<lparr>sy_owner := None\<rparr>) else None)"
| "rb_act (Send n) s =
     (if n \<le> length (rb_chunk (sy_rb s)) then
        Some (s\<lparr>sy_sent := sy_sent s @ take n (rb_chunk (sy_rb s)),
               sy_rb := ringbuffer_release_chunk (sy_rb s) (int n)\<rparr>)
      else None)"

primrec rb_run :: "rb_action list \<Rightarrow> rb_system \<Rightarrow> rb_system option" where
  "rb_run [] s = Some s"
| "rb_run (a # as) s = (case rb_act a s of None \<Rightarrow> None | Some s' \<Rightarrow> rb_run as s')"

lemma rb_act_step: "rb_act a s = Some s' \<Longrightarrow> rb_step s s'"
proof (cases a)
  case (Block t)
  assume "rb_act a s = Some s'"
  then obtain rb' n where o: "sy_owner s = Some t"
    and b: "ringbuffer_write_block (sy_rb s) (sy_pending s t) = Some (rb', n)"
    and s': "s' = s\<lparr>sy_rb := rb', sy_pending := (sy_pending s)(t := drop n (sy_pending s t)),
      sy_log := sy_log s @ map (Pair t) (take n (sy_pending s t)),
      sy_owner := (if n = length (sy_pending s t) then None else Some t)\<rparr>"
    by (auto simp: Block split: if_splits simp del: if_cancel)
  show "rb_step s s'" unfolding s' by (rule rb_step.block [OF o b])
qed (auto split: if_splits intro: rb_step.intros)

lemma rb_run_reachable: "rb_reachable memory s \<Longrightarrow> rb_run as s = Some s' \<Longrightarrow> rb_reachable memory s'"
proof (induction as arbitrary: s)
  case (Cons a as)
  then obtain s1 where "rb_act a s = Some s1" "rb_run as s1 = Some s'" by (auto split: option.splits)
  with Cons show ?case using rb_reachable.step rb_act_step by blast
qed simp

definition torn_actions :: "rb_action list" where
  \<comment> \<open>worker 1 fills the buffer and waits; all is sent; worker 2 is faster\<close>
  "torn_actions =
     [Call 1 ''aaaaaa'', Lock 1, Block 1, Wait 1, Send 4, Call 2 ''bb'', Lock 2, Block 2, Lock 1, Block 1]"

lemma torn_run:
  "\<exists>s. rb_run torn_actions (rb_start example_memory) = Some s \<and>
     sy_called s 1 = ''aaaaaa'' \<and> sy_pending s 1 = [] \<and> sy_called s 2 = ''bb'' \<and> sy_pending s 2 = [] \<and>
     sy_sent s @ rb_contents (sy_rb s) = ''aaaabbaa''"
  by (simp add: torn_actions_def example_memory_def rb_start_def ringbuffer_init_def ringbuffer_clear_def
    ringbuffer_write_block_def continuous_block_size_def rb_chunk_def ringbuffer_get_chunk_def
    ringbuffer_release_chunk_def rb_contents_def upt_rec eval_nat_numeral Let_def)



text \<open>
  A write that fits into the free space returns without waiting, with all of its
  bytes stored behind those that were there.
\<close>

theorem write_that_fits_returns:
  "rb_wf rb \<Longrightarrow> int (length bs) \<le> rb_end rb - rb_data_size rb \<Longrightarrow>
   \<exists>rb'. ringbuffer_write rb bs = (rb', []) \<and> rb_wf rb' \<and> rb_contents rb' = rb_contents rb @ bs"
proof (induction rb bs rule: ringbuffer_write.induct)
  case (1 rb bs)
  show ?case
  proof (cases "bs = []")
    case True
    then show ?thesis using 1(2)
      by (subst ringbuffer_write.simps) (simp add: rb_wf_def rb_contents_def)
  next
    case False
    then have "\<not> rb_full rb" using 1(3) by (auto simp: rb_full_def)
    then obtain rb1 n where b: "ringbuffer_write_block rb bs = Some (rb1, n)"
      using put_block_full [OF 1(2), of bs] by (cases "ringbuffer_write_block rb bs") auto
    note p = put_block_effect [OF 1(2) b] and e = put_block_sizes [OF 1(2) b]
    have n: "0 < n" "n \<le> length bs" using p False by simp_all
    then have "int (length (drop n bs)) \<le> rb_end rb1 - rb_data_size rb1" using e 1(3) by simp
    then obtain rb' where "ringbuffer_write rb1 (drop n bs) = (rb', [])" "rb_wf rb'"
      "rb_contents rb' = rb_contents rb1 @ drop n bs"
      using 1(1) [OF False b refl] n p by auto
    moreover have "ringbuffer_write rb bs = ringbuffer_write rb1 (drop n bs)"
      using False n by (subst ringbuffer_write.simps) (simp add: b)
    ultimately show ?thesis using p by simp
  qed
qed

theorem write_that_fits_returns_witness:
  "\<exists>rb'. ringbuffer_write (sy_rb (rb_start example_memory)) ''abc'' = (rb', []) \<and> rb_contents rb' = ''abc''"
proof -
  have "rb_wf (sy_rb (rb_start example_memory))"
    using rb_invariant_start [of example_memory] by (simp add: rb_invariant_def example_memory_def)
  then show ?thesis
    using write_that_fits_returns [of "sy_rb (rb_start example_memory)" "''abc''"]
    by (auto simp: rb_start_def ringbuffer_init_def ringbuffer_clear_def example_memory_def rb_contents_def)
qed

end
