(* ===== verification/Queue.thy ===== *)
theory Queue
  imports Prelude "HOL-Library.Multiset"
begin

text \<open>
  \<^verbatim>\<open>xmcomp/src/queue.h\<close> and \<^verbatim>\<open>xmcomp/src/queue.c\<close>: the two-stage queue of stanza blocks between the
  reader and the workers. Blocks live in a heap and are linked by their \<open>next\<close> pointers (0 is
  the null pointer). An operation that has to wait returns \<open>None\<close> in place of a block.
\<close>

record stanza_entry =
  se_buffer :: "bytes option"
  se_data_size :: int
  se_buffer_size :: int
  se_next :: addr

record queue_stats =
  qs_overflows :: int
  qs_underflows :: int
  qs_realloc_enlarges :: int
  qs_realloc_shortens :: int
  qs_mallocs :: int
  qs_data_pushes :: int
  qs_data_pops :: int
  qs_free_pushes :: int
  qs_free_pops :: int

record stanza_queue =
  sq_entry :: "addr \<Rightarrow> stanza_entry"
  sq_data_start :: addr
  sq_data_end :: addr
  sq_free :: addr
  sq_stats :: queue_stats
  sq_fixed_block_buffer_size :: int
  sq_network_buffer_size :: int

definition entry_zero :: stanza_entry where
  "entry_zero = \<lparr>se_buffer = None, se_data_size = 0, se_buffer_size = 0, se_next = 0\<rparr>"

definition set_next :: "addr \<Rightarrow> addr \<Rightarrow> (addr \<Rightarrow> stanza_entry) \<Rightarrow> addr \<Rightarrow> stanza_entry" where
  "set_next a b h = h(a := (h a)\<lparr>se_next := b\<rparr>)"

subsection \<open>Operations\<close>

definition queue_pop_free :: "stanza_queue \<Rightarrow> stanza_queue \<times> addr option" where
  "queue_pop_free q =
     (let stats = sq_stats q; block = sq_free q in
      if block = 0 then (q\<lparr>sq_stats := stats\<lparr>qs_overflows := qs_overflows stats + 1\<rparr>\<rparr>, None)
      else (q\<lparr>sq_free := se_next (sq_entry q block),
              sq_stats := stats\<lparr>qs_free_pops := qs_free_pops stats + 1\<rparr>\<rparr>, Some block))"

definition queue_pop_data :: "stanza_queue \<Rightarrow> stanza_queue \<times> addr option" where
  "queue_pop_data q =
     (let stats = sq_stats q; block = sq_data_start q in
      if block = 0 then (q\<lparr>sq_stats := stats\<lparr>qs_underflows := qs_underflows stats + 1\<rparr>\<rparr>, None)
      else (q\<lparr>sq_data_start := se_next (sq_entry q block),
              sq_data_end := (if sq_data_end q = block then 0 else sq_data_end q),
              sq_stats := stats\<lparr>qs_data_pops := qs_data_pops stats + 1\<rparr>\<rparr>, Some block))"

definition queue_push_data :: "stanza_queue \<Rightarrow> addr \<Rightarrow> stanza_queue" where
  "queue_push_data q stanza =
     (let stats = sq_stats q;
          h1 = set_next stanza 0 (sq_entry q);
          q1 = (if sq_data_end q \<noteq> 0 then q\<lparr>sq_entry := set_next (sq_data_end q) stanza h1\<rparr>
                else q\<lparr>sq_entry := h1, sq_data_start := stanza\<rparr>)
      in q1\<lparr>sq_data_end := stanza,
            sq_stats := stats\<lparr>qs_data_pushes := qs_data_pushes stats + 1\<rparr>\<rparr>)"

definition queue_push_free :: "stanza_queue \<Rightarrow> addr \<Rightarrow> stanza_queue" where
  "queue_push_free q stanza =
     (let stats = sq_stats q in
      q\<lparr>sq_entry := set_next stanza (sq_free q) (sq_entry q), sq_free := stanza,
        sq_stats := stats\<lparr>qs_free_pushes := qs_free_pushes stats + 1\<rparr>\<rparr>)"

text \<open>\<open>malloc\<close> gives the \<open>i\<close>-th block the address \<open>i\<close>.\<close>

fun queue_alloc :: "nat \<Rightarrow> stanza_queue \<Rightarrow> stanza_queue" where
  "queue_alloc 0 q = q"
| "queue_alloc (Suc i) q =
     (let q' = queue_alloc i q in
      q'\<lparr>sq_entry := (sq_entry q')(Suc i := entry_zero\<lparr>se_next := sq_free q'\<rparr>), sq_free := Suc i\<rparr>)"

definition queue_init :: "stanza_queue \<Rightarrow> nat \<Rightarrow> stanza_queue" where
  "queue_init q n = queue_alloc n (q\<lparr>sq_data_start := 0, sq_data_end := 0, sq_free := 0\<rparr>)"

subsection \<open>Lists of blocks\<close>

text \<open>The blocks from \<open>a\<close> on, linked by \<open>next\<close> up to the null pointer.\<close>

fun chain :: "(addr \<Rightarrow> stanza_entry) \<Rightarrow> addr \<Rightarrow> addr list \<Rightarrow> bool" where
  "chain h a [] \<longleftrightarrow> a = 0"
| "chain h a (x # xs) \<longleftrightarrow> a = x \<and> x \<noteq> 0 \<and> chain h (se_next (h x)) xs"

definition queue_rep :: "stanza_queue \<Rightarrow> addr list \<Rightarrow> addr list \<Rightarrow> bool" where
  \<comment> \<open>the data blocks in the order of arrival, and the free blocks\<close>
  "queue_rep q ds fs \<longleftrightarrow>
     chain (sq_entry q) (sq_data_start q) ds \<and> chain (sq_entry q) (sq_free q) fs \<and>
     sq_data_end q = (if ds = [] then 0 else last ds) \<and> distinct (ds @ fs)"

lemma chain_set_next: "a \<notin> set xs \<Longrightarrow> chain (set_next a b h) x xs = chain h x xs"
  by (induction xs arbitrary: x) (auto simp: set_next_def)

lemma chain_upd: "a \<notin> set xs \<Longrightarrow> chain (h(a := e)) x xs = chain h x xs"
  by (induction xs arbitrary: x) auto

lemma chain_nonzero: "chain h a xs \<Longrightarrow> 0 \<notin> set xs"
  by (induction xs arbitrary: a) auto

lemma chain_append:
  "chain h a (xs @ [z]) \<Longrightarrow> distinct (xs @ [z]) \<Longrightarrow> w \<notin> set (xs @ [z]) \<Longrightarrow> w \<noteq> 0 \<Longrightarrow> se_next (h w) = 0 \<Longrightarrow>
   chain (set_next z w h) a (xs @ [z, w])"
proof (induction xs arbitrary: a)
  case Nil
  then show ?case by (simp add: set_next_def)
next
  case (Cons x xs)
  then show ?case by (auto simp: set_next_def)
qed

lemma push_data_rep:
  assumes rep: "queue_rep q ds fs" and a: "a \<notin> set ds \<union> set fs" "a \<noteq> 0"
  shows "queue_rep (queue_push_data q a) (ds @ [a]) fs"
proof -
  have c: "chain (sq_entry q) (sq_data_start q) ds" "chain (sq_entry q) (sq_free q) fs"
    "sq_data_end q = (if ds = [] then 0 else last ds)" "distinct (ds @ fs)"
    using rep by (simp_all add: queue_rep_def)
  let ?h = "set_next a 0 (sq_entry q)"
  have h: "chain ?h (sq_data_start q) ds" "chain ?h (sq_free q) fs" "se_next (?h a) = 0"
    using c a by (simp_all add: chain_set_next) (simp add: set_next_def)
  show ?thesis
  proof (cases ds rule: rev_cases)
    case Nil
    with c h a show ?thesis by (simp add: queue_rep_def queue_push_data_def Let_def)
  next
    case (snoc xs z)
    then have z: "z \<noteq> 0" "z \<notin> set fs" using c(4) chain_nonzero [OF c(1)] by auto
    have "chain (set_next z a ?h) (sq_data_start q) (xs @ [z, a])"
      using h(1,3) c(4) a snoc by (intro chain_append) auto
    moreover have "chain (set_next z a ?h) (sq_free q) fs" using h(2) z by (simp add: chain_set_next)
    ultimately show ?thesis
      using c a z snoc by (simp add: queue_rep_def queue_push_data_def Let_def)
  qed
qed

lemma pop_data_some:
  "queue_rep q (d # ds) fs \<Longrightarrow> \<exists>q'. queue_pop_data q = (q', Some d) \<and> queue_rep q' ds fs"
proof -
  assume rep: "queue_rep q (d # ds) fs"
  then have "d \<notin> set ds" by (simp add: queue_rep_def)
  then have "last ds \<noteq> d" if "ds \<noteq> []" using last_in_set [OF that] by metis
  with rep show ?thesis by (auto simp: queue_rep_def queue_pop_data_def Let_def)
qed

lemma pop_data_none: "queue_rep q [] fs \<Longrightarrow> \<exists>q'. queue_pop_data q = (q', None) \<and> queue_rep q' [] fs"
  by (auto simp: queue_rep_def queue_pop_data_def Let_def)

lemma push_free_rep:
  assumes "queue_rep q ds fs" and "a \<notin> set ds \<union> set fs" and "a \<noteq> 0"
  shows "queue_rep (queue_push_free q a) ds (a # fs)"
  using assms by (auto simp: queue_rep_def queue_push_free_def Let_def chain_set_next)
    (simp_all add: set_next_def chain_set_next [unfolded set_next_def])

lemma pop_free_some:
  "queue_rep q ds (f # fs) \<Longrightarrow> \<exists>q'. queue_pop_free q = (q', Some f) \<and> queue_rep q' ds fs"
  by (auto simp: queue_rep_def queue_pop_free_def Let_def)

lemma pop_free_none: "queue_rep q ds [] \<Longrightarrow> \<exists>q'. queue_pop_free q = (q', None) \<and> queue_rep q' ds []"
  by (auto simp: queue_rep_def queue_pop_free_def Let_def)

definition all_blocks :: "nat \<Rightarrow> addr list" where
  "all_blocks n = rev [1..<Suc n]"

lemma all_blocks_simps [simp]:
  "all_blocks 0 = []" "all_blocks (Suc n) = Suc n # all_blocks n"
  "distinct (all_blocks n)" "a \<in> set (all_blocks n) \<longleftrightarrow> 1 \<le> a \<and> a \<le> n"
  by (auto simp: all_blocks_def)

lemma queue_init_rep: "queue_rep (queue_init q n) [] (all_blocks n)"
proof -
  let ?q = "q\<lparr>sq_data_start := 0, sq_data_end := 0, sq_free := 0\<rparr>"
  have "chain (sq_entry (queue_alloc n ?q)) (sq_free (queue_alloc n ?q)) (all_blocks n) \<and>
      sq_data_start (queue_alloc n ?q) = 0 \<and> sq_data_end (queue_alloc n ?q) = 0"
  proof (induction n)
    case 0
    show ?case by simp
  next
    case (Suc n)
    let ?q' = "queue_alloc n ?q"
    have "chain ((sq_entry ?q')(Suc n := entry_zero\<lparr>se_next := sq_free ?q'\<rparr>)) (Suc n) (all_blocks (Suc n))"
      using Suc chain_upd [of "Suc n" "all_blocks n"] by simp
    then show ?case using Suc by (simp add: Let_def fun_upd_def)
  qed
  then show ?thesis by (simp add: queue_rep_def queue_init_def)
qed

subsection \<open>The contract of a stage\<close>

text \<open>
  What the threads rely on in either stage: a block that is given back is kept, the stage
  hands out the first block it keeps, and makes the thread wait only when it keeps none.
\<close>

locale stage =
  fixes push :: "'q \<Rightarrow> addr \<Rightarrow> 'q"
    and pop :: "'q \<Rightarrow> 'q \<times> addr option"
    and rep :: "'q \<Rightarrow> addr list \<Rightarrow> addr list \<Rightarrow> bool"
  assumes push_rep: "rep q xs ys \<Longrightarrow> a \<notin> set xs \<union> set ys \<Longrightarrow> a \<noteq> 0 \<Longrightarrow>
      \<exists>xs'. rep (push q a) xs' ys \<and> mset xs' = add_mset a (mset xs)"
    and pop_some: "rep q (x # xs) ys \<Longrightarrow> \<exists>q'. pop q = (q', Some x) \<and> rep q' xs ys"
    and pop_none: "rep q [] ys \<Longrightarrow> \<exists>q'. pop q = (q', None) \<and> rep q' [] ys"
begin

lemma pop_rep:
  assumes "rep q xs ys" and "pop q = (q', r)"
  shows "(r = None \<longleftrightarrow> xs = []) \<and>
    (case r of None \<Rightarrow> rep q' xs ys | Some a \<Rightarrow> xs = a # tl xs \<and> rep q' (tl xs) ys)"
  using assms pop_some [of q "hd xs" "tl xs" ys] pop_none [of q ys] by (cases xs) auto

lemma waits_iff: "rep q xs ys \<Longrightarrow> snd (pop q) = None \<longleftrightarrow> xs = []"
  using pop_rep [of q xs ys "fst (pop q)" "snd (pop q)"] by simp

end

interpretation data_stage: stage queue_push_data queue_pop_data queue_rep
proof
  show "\<exists>xs'. queue_rep (queue_push_data q a) xs' ys \<and> mset xs' = add_mset a (mset xs)"
    if "queue_rep q xs ys" "a \<notin> set xs \<union> set ys" "a \<noteq> 0" for q xs ys a
    using push_data_rep [OF that] by (intro exI [of _ "xs @ [a]"]) simp
qed (simp_all add: pop_data_some pop_data_none)

interpretation free_stage: stage queue_push_free queue_pop_free "\<lambda>q fs ds. queue_rep q ds fs"
proof
  show "\<exists>fs'. queue_rep (queue_push_free q a) ds fs' \<and> mset fs' = add_mset a (mset fs)"
    if "queue_rep q ds fs" "a \<notin> set fs \<union> set ds" "a \<noteq> 0" for q ds fs a
    using push_free_rep [of q ds fs a] that by (intro exI [of _ "a # fs"]) auto
qed (simp_all add: pop_free_some pop_free_none)

subsection \<open>The life of a block\<close>

text \<open>
  The reader takes free blocks and pushes them with data; workers take data and give the
  blocks back. \<open>po_held\<close> are the blocks in the hands of threads, \<open>po_pushed\<close> and \<open>po_popped\<close>
  the data blocks in the order they went in and came out.
\<close>

record pool =
  po_queue :: stanza_queue
  po_held :: "addr list"
  po_pushed :: "addr list"
  po_popped :: "addr list"

inductive pool_step :: "pool \<Rightarrow> pool \<Rightarrow> bool" where
  take_free: "queue_pop_free (po_queue s) = (q', r) \<Longrightarrow>
    pool_step s (s\<lparr>po_queue := q', po_held := (case r of None \<Rightarrow> po_held s | Some a \<Rightarrow> a # po_held s)\<rparr>)"
| give_data: "a \<in> set (po_held s) \<Longrightarrow>
    pool_step s (s\<lparr>po_queue := queue_push_data (po_queue s) a, po_held := remove1 a (po_held s),
      po_pushed := po_pushed s @ [a]\<rparr>)"
| take_data: "queue_pop_data (po_queue s) = (q', r) \<Longrightarrow>
    pool_step s (s\<lparr>po_queue := q', po_held := (case r of None \<Rightarrow> po_held s | Some a \<Rightarrow> a # po_held s),
      po_popped := (case r of None \<Rightarrow> po_popped s | Some a \<Rightarrow> po_popped s @ [a])\<rparr>)"
| give_free: "a \<in> set (po_held s) \<Longrightarrow>
    pool_step s (s\<lparr>po_queue := queue_push_free (po_queue s) a, po_held := remove1 a (po_held s)\<rparr>)"

inductive pool_reachable :: "stanza_queue \<Rightarrow> nat \<Rightarrow> pool \<Rightarrow> bool" for q0 n where
  start: "pool_reachable q0 n \<lparr>po_queue = queue_init q0 n, po_held = [], po_pushed = [], po_popped = []\<rparr>"
| step: "pool_reachable q0 n s \<Longrightarrow> pool_step s s' \<Longrightarrow> pool_reachable q0 n s'"

definition pool_ok :: "nat \<Rightarrow> pool \<Rightarrow> addr list \<Rightarrow> addr list \<Rightarrow> bool" where
  "pool_ok n s ds fs \<longleftrightarrow>
     queue_rep (po_queue s) ds fs \<and> mset (ds @ fs @ po_held s) = mset (all_blocks n) \<and>
     po_pushed s = po_popped s @ ds"

lemma pool_held:
  assumes "pool_ok n s ds fs" and "a \<in> set (po_held s)"
  shows "a \<notin> set ds \<union> set fs" and "a \<noteq> 0"
proof -
  have m: "mset (ds @ fs @ po_held s) = mset (all_blocks n)" using assms(1) by (simp add: pool_ok_def)
  then have "distinct (ds @ fs @ po_held s)" using mset_eq_imp_distinct_iff all_blocks_simps(3) by blast
  then show "a \<notin> set ds \<union> set fs" using assms(2) by auto
  have "a \<in> set (ds @ fs @ po_held s)" using assms(2) by simp
  then have "a \<in> set (all_blocks n)" using m by (metis mset_eq_setD)
  then show "a \<noteq> 0" by simp
qed

lemma pool_ok_step: "pool_step s s' \<Longrightarrow> pool_ok n s ds fs \<Longrightarrow> \<exists>ds' fs'. pool_ok n s' ds' fs'"
proof (induction rule: pool_step.induct)
  case (take_free s q' r)
  have rep: "queue_rep (po_queue s) ds fs" using take_free.prems by (simp add: pool_ok_def)
  show ?case
    using free_stage.pop_rep [OF rep take_free.hyps] take_free.prems
    by (cases fs; cases r) (auto simp: pool_ok_def)
next
  case (give_data a s)
  note h = pool_held [OF give_data.prems give_data.hyps]
  have "queue_rep (queue_push_data (po_queue s) a) (ds @ [a]) fs"
    using give_data.prems h by (intro push_data_rep) (simp_all add: pool_ok_def)
  then show ?case
    using give_data by (intro exI [of _ "ds @ [a]"] exI [of _ fs]) (auto simp: pool_ok_def)
next
  case (take_data s q' r)
  have rep: "queue_rep (po_queue s) ds fs" using take_data.prems by (simp add: pool_ok_def)
  show ?case
    using data_stage.pop_rep [OF rep take_data.hyps] take_data.prems
    by (cases ds; cases r) (auto simp: pool_ok_def)
next
  case (give_free a s)
  note h = pool_held [OF give_free.prems give_free.hyps]
  have "queue_rep (queue_push_free (po_queue s) a) ds (a # fs)"
    using give_free.prems h by (intro push_free_rep) (simp_all add: pool_ok_def)
  then show ?case
    using give_free by (intro exI [of _ ds] exI [of _ "a # fs"]) (auto simp: pool_ok_def)
qed

text \<open>
  Property C24: whatever the reader and the workers do, each of the \<open>n\<close> blocks is at every moment
  in exactly one place (the data queue, the free queue, or the hands of one thread), the linked
  lists are intact, and data blocks come out in the order they went in.
\<close>

theorem blocks_are_conserved:
  assumes "pool_reachable q0 n s"
  shows "\<exists>ds fs. queue_rep (po_queue s) ds fs \<and> mset (ds @ fs @ po_held s) = mset (all_blocks n) \<and>
    po_pushed s = po_popped s @ ds"
proof -
  have "\<exists>ds fs. pool_ok n s ds fs"
    using assms
  proof induction
    case start
    show ?case using queue_init_rep [of q0 n] by (auto simp: pool_ok_def)
  next
    case (step s s')
    then show ?case using pool_ok_step by blast
  qed
  then show ?thesis by (simp add: pool_ok_def)
qed

definition queue_zero :: stanza_queue where
  "queue_zero =
     \<lparr>sq_entry = (\<lambda>_. entry_zero), sq_data_start = 0, sq_data_end = 0, sq_free = 0,
      sq_stats = \<lparr>qs_overflows = 0, qs_underflows = 0, qs_realloc_enlarges = 0, qs_realloc_shortens = 0,
        qs_mallocs = 0, qs_data_pushes = 0, qs_data_pops = 0, qs_free_pushes = 0, qs_free_pops = 0\<rparr>,
      sq_fixed_block_buffer_size = 0, sq_network_buffer_size = 0\<rparr>"

theorem blocks_are_conserved_witness:
  "\<exists>q' ds fs. queue_pop_free (queue_init queue_zero 2) = (q', Some 2) \<and> queue_rep q' ds fs \<and>
     mset (ds @ fs) + {#2#} = {#1, 2#}"
proof -
  let ?s = "\<lparr>po_queue = queue_init queue_zero 2, po_held = [], po_pushed = [], po_popped = []\<rparr>"
  have "queue_rep (queue_init queue_zero 2) [] [2, 1]"
    using queue_init_rep [of queue_zero 2] by (simp add: eval_nat_numeral)
  then obtain q' where q': "queue_pop_free (queue_init queue_zero 2) = (q', Some 2)"
    using pop_free_some by blast
  then have "pool_step ?s (?s\<lparr>po_queue := q', po_held := [2]\<rparr>)"
    using pool_step.take_free [of ?s q' "Some 2"] by simp
  then have "pool_reachable queue_zero 2 (?s\<lparr>po_queue := q', po_held := [2]\<rparr>)"
    by (rule pool_reachable.step [OF pool_reachable.start])
  from blocks_are_conserved [OF this] obtain ds fs where "queue_rep q' ds fs"
    "mset (ds @ fs @ [2]) = mset (all_blocks 2)" by auto
  moreover have "mset (all_blocks 2) = {#1, 2#}" by (simp add: eval_nat_numeral)
  ultimately show ?thesis using q' by auto
qed

end
