(* ===== verification/Builder.thy ===== *)
theory Builder
  imports Room Packet Ringbuffer Queue
begin

text \<open>
  \<^verbatim>\<open>src/builder.h\<close> and \<^verbatim>\<open>src/builder.c\<close>: the description of an outgoing stanza and its printing into
  a buffer of fixed size. A builder function appends to the buffer until a piece does not fit
  and reports whether everything did. The union \<open>sys_data\<close> is a datatype; \<open>SysNone\<close> is the
  zeroed union, whose pointers are null. The pointers a packet holds are kept by value, as they
  are when the packet is built.
\<close>

record muc_admin_item =
  mi_affiliation :: int
  mi_role :: int
  mi_jid :: jid
  mi_nick :: "bytes option"
  mi_reason_node :: "bytes option"

record xmpp_error =
  xe_code :: bytes
  xe_type :: bytes
  xe_name :: bytes
  xe_text :: bytes

record muc_user_node =
  mu_item :: muc_admin_item
  mu_status_codes :: "32 word"
  mu_resume :: "bytes option"

datatype sys_data =
    SysNone
  | SysError xmpp_error
  | SysPresence muc_user_node
  | SysRoom room
  | SysMucItems int "affiliation list"
  | SysStats queue_stats ringbuffer_stats

record builder_packet =
  bp_from_nick :: "bytes option"
  bp_from_host :: "bytes option"
  bp_from_node :: "bytes option"
  bp_to :: jid
  bp_name :: int
  bp_type :: int
  bp_iq_type :: int
  bp_delay :: int
  bp_header :: "bytes option"
  bp_user_data :: "bytes option"
  bp_sys_data :: sys_data

abbreviation BUILD_IQ_VERSION :: int where "BUILD_IQ_VERSION \<equiv> 1"
abbreviation BUILD_IQ_LAST :: int where "BUILD_IQ_LAST \<equiv> 2"
abbreviation BUILD_IQ_TIME :: int where "BUILD_IQ_TIME \<equiv> 3"
abbreviation BUILD_IQ_STATS :: int where "BUILD_IQ_STATS \<equiv> 4"
abbreviation BUILD_IQ_EMPTY :: int where "BUILD_IQ_EMPTY \<equiv> 5"
abbreviation BUILD_IQ_VCARD :: int where "BUILD_IQ_VCARD \<equiv> 6"
abbreviation BUILD_IQ_DISCO_INFO :: int where "BUILD_IQ_DISCO_INFO \<equiv> 11"
abbreviation BUILD_IQ_DISCO_ITEMS :: int where "BUILD_IQ_DISCO_ITEMS \<equiv> 12"
abbreviation BUILD_IQ_ROOM :: int where "BUILD_IQ_ROOM \<equiv> 20"
abbreviation BUILD_IQ_ROOM_DISCO_INFO :: int where "BUILD_IQ_ROOM_DISCO_INFO \<equiv> 21"
abbreviation BUILD_IQ_ROOM_DISCO_ITEMS :: int where "BUILD_IQ_ROOM_DISCO_ITEMS \<equiv> 22"
abbreviation BUILD_IQ_ROOM_AFFILIATIONS :: int where "BUILD_IQ_ROOM_AFFILIATIONS \<equiv> 23"
abbreviation BUILD_IQ_ROOM_CONFIG :: int where "BUILD_IQ_ROOM_CONFIG \<equiv> 24"

abbreviation STATUS_NON_ANONYMOUS :: "32 word" where "STATUS_NON_ANONYMOUS \<equiv> 0x1"
abbreviation STATUS_SELF_PRESENCE :: "32 word" where "STATUS_SELF_PRESENCE \<equiv> 0x2"
abbreviation STATUS_LOGGING_ENABLED :: "32 word" where "STATUS_LOGGING_ENABLED \<equiv> 0x4"
abbreviation STATUS_ROOM_CREATED :: "32 word" where "STATUS_ROOM_CREATED \<equiv> 0x8"
abbreviation STATUS_NICKNAME_ENFORCED :: "32 word" where "STATUS_NICKNAME_ENFORCED \<equiv> 0x10"
abbreviation STATUS_BANNED :: "32 word" where "STATUS_BANNED \<equiv> 0x20"
abbreviation STATUS_NICKNAME_CHANGED :: "32 word" where "STATUS_NICKNAME_CHANGED \<equiv> 0x40"
abbreviation STATUS_KICKED :: "32 word" where "STATUS_KICKED \<equiv> 0x80"
abbreviation STATUS_NONMEMBER_REMOVED :: "32 word" where "STATUS_NONMEMBER_REMOVED \<equiv> 0x100"

definition mi_zero :: muc_admin_item where
  "mi_zero = \<lparr>mi_affiliation = 0, mi_role = 0, mi_jid = jid_init, mi_nick = None, mi_reason_node = None\<rparr>"

definition mu_zero :: muc_user_node where
  "mu_zero = \<lparr>mu_item = mi_zero, mu_status_codes = 0, mu_resume = None\<rparr>"

definition bp_zero :: builder_packet where
  "bp_zero =
     \<lparr>bp_from_nick = None, bp_from_host = None, bp_from_node = None, bp_to = jid_init, bp_name = 0,
      bp_type = 0, bp_iq_type = 0, bp_delay = 0, bp_header = None, bp_user_data = None,
      bp_sys_data = SysNone\<rparr>"

subsection \<open>Appending to the buffer\<close>

record builder_buffer =
  bb_data :: bytes       \<comment> \<open>from \<open>data\<close> to \<open>data_end\<close>\<close>
  bb_size :: nat         \<comment> \<open>\<open>end - data\<close>\<close>

type_synonym push = "builder_buffer \<Rightarrow> (builder_buffer \<times> bool) run"

definition buf_push :: "bytes \<Rightarrow> push" where
  "buf_push bs b =
     (if length (bb_data b) + length bs > bb_size b then Ret (b, False)
      else Ret (b\<lparr>bb_data := bb_data b @ bs\<rparr>, True))"

text \<open>
  \<open>BUF_PUSH_FMT("%d", value)\<close>: \<open>snprintf\<close> returns the number of digits, and stores them only
  as far as there is room for them and a null character.
\<close>

definition buf_push_fmt :: "int \<Rightarrow> push" where
  "buf_push_fmt v b =
     (let s = show_int v; room = bb_size b - length (bb_data b) in
      if length s > room then Ret (b, False)
      else if length s = room then Ret (b\<lparr>bb_data := bb_data b @ butlast s @ [CHR 0x00]\<rparr>, True)
      else Ret (b\<lparr>bb_data := bb_data b @ s\<rparr>, True))"

definition push_and :: "push \<Rightarrow> push \<Rightarrow> push" where
  "push_and p q b = bind_run (p b) (\<lambda>(b', ok). if ok then q b' else Ret (b', False))"

definition push_nothing :: push where
  "push_nothing b = Ret (b, True)"

definition push_fault :: "fault \<Rightarrow> push" where
  "push_fault e b = Fault e"

primrec push_all :: "push list \<Rightarrow> push" where
  "push_all [] = push_nothing"
| "push_all (p # ps) = push_and p (push_all ps)"

definition push_if :: "bool \<Rightarrow> push \<Rightarrow> push" where
  "push_if c p = (if c then p else push_nothing)"

definition push_buf :: "bytes option \<Rightarrow> push" where
  "push_buf s = buf_push (buffer_bytes s)"

definition push_ifbpt :: "bytes option \<Rightarrow> push" where
  "push_ifbpt s = push_if (s \<noteq> None) (push_buf s)"

definition push_bool :: "bool \<Rightarrow> push" where
  "push_bool c = buf_push (if c then ''1'' else ''0'')"

definition push_lit :: "bytes \<Rightarrow> push" where
  "push_lit s = buf_push (lit s)"

text \<open>An entry of a table of names, at an index the code does not check.\<close>

definition push_name :: "bytes list \<Rightarrow> int \<Rightarrow> push" where
  "push_name names i =
     (if 0 \<le> i \<and> i < int (length names) then buf_push (names ! nat i) else push_fault OutOfBounds)"

subsection \<open>The parts of a stanza\<close>

definition status_code :: "32 word \<Rightarrow> bytes option" where
  \<comment> \<open>the chain of \<open>BUF_PUSH_STATUS\<close>: only the first code that is set\<close>
  "status_code codes =
     (if codes AND STATUS_NON_ANONYMOUS \<noteq> 0 then Some ''100''
      else if codes AND STATUS_SELF_PRESENCE \<noteq> 0 then Some ''110''
      else if codes AND STATUS_LOGGING_ENABLED \<noteq> 0 then Some ''170''
      else if codes AND STATUS_ROOM_CREATED \<noteq> 0 then Some ''201''
      else if codes AND STATUS_NICKNAME_ENFORCED \<noteq> 0 then Some ''210''
      else if codes AND STATUS_BANNED \<noteq> 0 then Some ''301''
      else if codes AND STATUS_NICKNAME_CHANGED \<noteq> 0 then Some ''303''
      else if codes AND STATUS_KICKED \<noteq> 0 then Some ''307''
      else if codes AND STATUS_NONMEMBER_REMOVED \<noteq> 0 then Some ''321'' else None)"

definition push_status :: "32 word \<Rightarrow> push" where
  "push_status codes =
     (case status_code codes of
        None \<Rightarrow> push_nothing
      | Some c \<Rightarrow> push_lit (''<status code=`'' @ c @ ''`/>''))"

definition build_presence_mucadm :: "muc_user_node \<Rightarrow> push" where
  "build_presence_mucadm node =
     (let item = mu_item node in
      push_all
       [push_lit ''<x xmlns=`http://jabber.org/protocol/muc#user`><item affiliation=`'',
        push_name affiliation_names (mi_affiliation item),
        push_lit ''` role=`'',
        push_name role_names (mi_role item),
        push_if (\<not> jid_empty (mi_jid item))
          (push_and (push_lit ''` jid=`'') (buf_push (jid_str (mi_jid item)))),
        push_if (mi_nick item \<noteq> None) (push_and (push_lit ''` nick=`'') (push_buf (mi_nick item))),
        (if mi_reason_node item = None then push_lit ''`/>''
         else push_all [push_lit ''`>'', push_buf (mi_reason_node item), push_lit ''</item>'']),
        push_status (mu_status_codes node),
        push_ifbpt (mu_resume node),
        push_lit ''</x>''])"

definition push_stat :: "bytes \<Rightarrow> int \<Rightarrow> bytes \<Rightarrow> push" where
  "push_stat name value units =
     push_all [push_lit (''<stat name=`'' @ name @ ''` units=`'' @ units @ ''` value=`''),
               buf_push_fmt value, push_lit ''`/>'']"

text \<open>
  The clock: \<open>timer_config.start\<close>, \<open>timer_config.ticks\<close> and what \<open>strftime\<close> gives for \<open>%z\<close> in
  the local time zone.
\<close>

record clock =
  ck_start :: int
  ck_ticks :: int
  ck_zone :: bytes

abbreviation TIMER_RESOLUTION :: int where "TIMER_RESOLUTION \<equiv> 10"

definition timer_ticks :: "clock \<Rightarrow> int" where
  "timer_ticks ck = ck_ticks ck"

definition timer_time :: "clock \<Rightarrow> int" where
  "timer_time ck = ck_start ck + ck_ticks ck div TIMER_RESOLUTION"

definition build_stats :: "clock \<Rightarrow> queue_stats \<Rightarrow> ringbuffer_stats \<Rightarrow> push" where
  "build_stats ck qs rs =
     push_all
      [push_stat ''queue/overflows'' (qs_overflows qs) ''times'',
       push_stat ''queue/underflows'' (qs_underflows qs) ''times'',
       push_stat ''queue/realloc_enlarges'' (qs_realloc_enlarges qs) ''times'',
       push_stat ''queue/realloc_shortens'' (qs_realloc_shortens qs) ''times'',
       push_stat ''queue/mallocs'' (qs_mallocs qs) ''times'',
       push_stat ''queue/data_pushes'' (qs_data_pushes qs) ''times'',
       push_stat ''queue/data_pops'' (qs_data_pops qs) ''times'',
       push_stat ''queue/free_pushes'' (qs_free_pushes qs) ''times'',
       push_stat ''queue/free_pops'' (qs_free_pops qs) ''times'',
       push_stat ''ringbuffer/underflows'' (rs_underflows rs) ''times'',
       push_stat ''ringbuffer/overflows'' (rs_overflows rs) ''times'',
       push_stat ''ringbuffer/reads'' (rs_reads rs) ''times'',
       push_stat ''ringbuffer/writes'' (rs_writes rs) ''times'',
       push_stat ''time/uptime'' (timer_ticks ck div TIMER_RESOLUTION) ''seconds'']"

definition build_room_items :: "room \<Rightarrow> bytes option \<Rightarrow> push" where
  "build_room_items r hostname =
     push_all (map (\<lambda>p. push_all
       [push_lit ''<item name=`'', push_buf (p_nick p), push_lit ''` jid=`'', push_buf (room_node r),
        push_lit ''@'', push_buf hostname, push_lit ''/'', push_buf (p_nick p), push_lit ''`/>''])
       (dls_values (room_participants r)))"

definition push_feature :: "bool \<Rightarrow> bytes \<Rightarrow> bytes \<Rightarrow> push" where
  "push_feature test if_true if_false =
     push_lit (''<feature var=`'' @ (if test then if_true else if_false) @ ''`/>'')"

definition build_room_info :: "room \<Rightarrow> push" where
  "build_room_info r =
     push_all
      [push_lit ''<identity category=`conference` type=`text` name=`'',
       push_buf (if buffer_size (room_title r) = 0 then room_node r else room_title r),
       push_lit (''`/><feature var=`http://jabber.org/protocol/muc`/>'' @
                 ''<feature var=`http://jabber.org/protocol/disco#info`/>''),
       push_if (has_flag r MUC_FLAG_PUBLICPARTICIPANTS)
         (push_lit ''<feature var=`http://jabber.org/protocol/disco#items`/>''),
       push_feature (has_flag r MUC_FLAG_PUBLICROOM) ''muc_public'' ''muc_hidden'',
       push_feature (has_flag r MUC_FLAG_PERSISTENTROOM) ''muc_persistent'' ''muc_temporary'',
       push_feature (has_flag r MUC_FLAG_MEMBERSONLY) ''muc_membersonly'' ''muc_open'',
       push_feature (has_flag r MUC_FLAG_SEMIANONYMOUS) ''muc_semianonymous'' ''muc_nonanonymous'',
       push_feature (has_flag r MUC_FLAG_MODERATEDROOM) ''muc_moderated'' ''muc_unmoderated'',
       push_feature (has_flag r MUC_FLAG_PASSWORDPROTECTEDROOM) ''muc_passwordprotected'' ''muc_unsecured'']"

definition build_component_items :: push where
  "build_component_items = push_nothing"

definition build_room_affiliations :: "affiliation list \<Rightarrow> int \<Rightarrow> push" where
  "build_room_affiliations affs affiliation =
     push_all (map (\<lambda>aff. push_all
       [push_lit ''<item affiliation=`'', push_name affiliation_names affiliation,
        push_lit ''` jid=`'', buf_push (jid_str (af_jid aff)),
        (if af_reason_node aff = None then push_lit ''`><reason/></item>''
         else push_all [push_lit ''`>'', push_buf (af_reason_node aff), push_lit ''</item>''])]) affs)"

definition push_field :: "bytes \<Rightarrow> bytes \<Rightarrow> bytes \<Rightarrow> push \<Rightarrow> push \<Rightarrow> push" where
  "push_field kind label var data appendix =
     push_all
      [push_lit (''<field type=`'' @ kind @ ''` label=`'' @ label @ ''` var=`'' @ var @ ''`><value>''),
       data, push_lit ''</value>'', appendix, push_lit ''</field>'']"

definition push_flag_field :: "room \<Rightarrow> bytes \<Rightarrow> bytes \<Rightarrow> 32 word \<Rightarrow> push" where
  "push_flag_field r label var flag =
     push_field ''boolean'' label var (push_bool (has_flag r flag)) push_nothing"

definition build_room_config :: "room \<Rightarrow> push" where
  "build_room_config r =
     push_all
      [push_lit (''<instructions>You need an x:data capable client to configure room</instructions>'' @
         ''<x xmlns=`jabber:x:data` type=`form`><title>Configuration of room ''),
       push_buf (room_node r),
       push_lit ''</title>'',
       push_field ''hidden'' '''' ''FORM_TYPE''
         (push_lit ''http://jabber.org/protocol/muc#roomconfig'') push_nothing,
       push_field ''text-single'' ''Room title'' ''muc#roomconfig_roomname''
         (push_buf (room_title r)) push_nothing,
       push_field ''text-single'' ''Room description'' ''muc#roomconfig_roomdesc''
         (push_buf (room_description r)) push_nothing,
       push_flag_field r ''Make room persistent'' ''muc#roomconfig_persistentroom'' MUC_FLAG_PERSISTENTROOM,
       push_flag_field r ''Make room public searchable'' ''muc#roomconfig_publicroom'' MUC_FLAG_PUBLICROOM,
       push_flag_field r ''Make participants list public'' ''public_list'' MUC_FLAG_PUBLICPARTICIPANTS,
       push_flag_field r ''Make room password protected'' ''muc#roomconfig_passwordprotectedroom''
         MUC_FLAG_PASSWORDPROTECTEDROOM,
       push_field ''text-private'' ''Password'' ''muc#roomconfig_roomsecret''
         (push_buf (room_password r)) push_nothing,
       push_field ''list-single'' ''Maximum Number of Occupants'' ''muc#roomconfig_maxusers''
         (buf_push_fmt (dls_max_size (room_participants r)))
         (push_lit (concat (map (\<lambda>n. ''<option label=`'' @ n @ ''`><value>'' @ n @ ''</value></option>'')
            [''5'', ''10'', ''20'', ''30'', ''50'', ''100'', ''200'', ''500'', ''1000'']))),
       push_field ''list-single'' ''Present real Jabber IDs to'' ''muc#roomconfig_whois''
         (push_lit (if has_flag r MUC_FLAG_SEMIANONYMOUS then ''moderators'' else ''anyone''))
         (push_lit (''<option label=`moderators only`><value>moderators</value></option>'' @
                    ''<option label=`anyone`><value>anyone</value></option>'')),
       push_flag_field r ''Make room members-only'' ''muc#roomconfig_membersonly'' MUC_FLAG_MEMBERSONLY,
       push_flag_field r ''Make room moderated'' ''muc#roomconfig_moderatedroom'' MUC_FLAG_MODERATEDROOM,
       push_field ''boolean'' ''Default users as participants'' ''members_by_default''
         (push_bool (room_default_role r = ROLE_PARTICIPANT)) push_nothing,
       push_flag_field r ''Allow users to change the subject'' ''muc#roomconfig_changesubject''
         MUC_FLAG_CHANGESUBJECT,
       push_flag_field r ''Allow users to send private messages'' ''allow_private_messages'' MUC_FLAG_ALLOWPM,
       push_flag_field r ''Allow users to query other users'' ''allow_query_users'' MUC_FLAG_IQ_PROXY,
       push_flag_field r ''Allow users to send invites'' ''muc#roomconfig_allowinvites'' MUC_FLAG_INVITES,
       push_flag_field r ''Allow visitors to send private messages'' ''muc#roomconfig_allowvisitorspm''
         MUC_FLAG_VISITORSPM,
       push_flag_field r ''Allow visitors to send custom status and change nickname''
         ''muc#roomconfig_allowvisitorpresence'' MUC_FLAG_VISITORPRESENCE,
       push_flag_field r ''Enable built-in bot (MewCat)'' ''muc#roomconfig_mewcat'' MUC_FLAG_MEWCAT,
       push_lit ''</x>'']"

text \<open>
  \<open>gmtime_r\<close> and \<open>strftime\<close> of the C library: the proleptic Gregorian calendar, counted in eras
  of 400 years that start on the first of March.
\<close>

definition civil_from_days :: "int \<Rightarrow> int \<times> int \<times> int" where
  "civil_from_days days =
     (let z = days + 719468;
          era = z div 146097;
          doe = z - era * 146097;
          yoe = (doe - doe div 1460 + doe div 36524 - doe div 146096) div 365;
          doy = doe - (365 * yoe + yoe div 4 - yoe div 100);
          mp = (5 * doy + 2) div 153;
          d = doy - (153 * mp + 2) div 5 + 1;
          m = (if mp < 10 then mp + 3 else mp - 9)
      in (yoe + era * 400 + (if m \<le> 2 then 1 else 0), m, d))"

definition two_digits :: "int \<Rightarrow> bytes" where
  "two_digits v = (if v < 10 then ''0'' @ show_int v else show_int v)"

definition format_time :: "int \<Rightarrow> bool \<Rightarrow> bytes" where
  "format_time t utc_mark =
     (case civil_from_days (t div 86400) of (y, m, d) \<Rightarrow>
       let s = t mod 86400; dash = (if utc_mark then ''-'' else [])
       in show_int y @ dash @ two_digits m @ dash @ two_digits d @ ''T'' @
          two_digits (s div 3600) @ '':'' @ two_digits (s div 60 mod 60) @ '':'' @ two_digits (s mod 60))"

text \<open>\<open>strftime\<close> returns 0 unless the text and a null character fit.\<close>

definition push_strftime :: "bytes \<Rightarrow> push" where
  "push_strftime s b =
     (if length (bb_data b) + length s + 1 > bb_size b then Ret (b, False)
      else Ret (b\<lparr>bb_data := bb_data b @ s\<rparr>, True))"

definition build_strftime :: "int \<Rightarrow> bool \<Rightarrow> push" where
  "build_strftime t utc_mark =
     push_and (push_strftime (format_time t utc_mark)) (push_if utc_mark (push_lit ''Z''))"

definition build_iq_time :: "clock \<Rightarrow> push" where
  "build_iq_time ck =
     (let z = ck_zone ck; tzo = (if length z = 5 then take 3 z @ '':'' @ drop 3 z else z) in
      push_all
       [push_lit ''<tzo>'', buf_push tzo, push_lit ''</tzo><utc>'',
        build_strftime (timer_time ck) True, push_lit ''</utc>''])"

definition build_error :: "xmpp_error \<Rightarrow> push" where
  "build_error e =
     push_all
      [push_lit ''<error code=`'', buf_push (xe_code e), push_lit ''` type=`'', buf_push (xe_type e),
       push_lit ''`><'', buf_push (xe_name e),
       push_lit ('' xmlns=`urn:ietf:params:xml:ns:xmpp-stanzas`/>'' @
                 ''<text xmlns=`urn:ietf:params:xml:ns:xmpp-stanzas`>''),
       buf_push (xe_text e), push_lit ''</text></error>'']"

subsection \<open>The stanza\<close>

definition push_stanza_type :: "int \<Rightarrow> int \<Rightarrow> push" where
  "push_stanza_type name type =
     (if type = STANZA_ERROR then push_lit ''error''
      else if name = STANZA_IQ then
        (if type = STANZA_IQ_GET then push_lit ''get''
         else if type = STANZA_IQ_SET then push_lit ''set''
         else if type = STANZA_IQ_RESULT then push_lit ''result'' else push_nothing)
      else if name = STANZA_MESSAGE then
        (if type = STANZA_MESSAGE_CHAT then push_lit ''chat''
         else if type = STANZA_MESSAGE_GROUPCHAT then push_lit ''groupchat'' else push_nothing)
      else if name = STANZA_PRESENCE then
        (if type = STANZA_PRESENCE_UNAVAILABLE then push_lit ''unavailable'' else push_nothing)
      else push_nothing)"

definition push_from :: "builder_packet \<Rightarrow> push" where
  \<comment> \<open>\<open>[node@]host\<close>\<close>
  "push_from p =
     push_and (push_if (bp_from_node p \<noteq> None) (push_and (push_buf (bp_from_node p)) (push_lit ''@'')))
       (push_buf (bp_from_host p))"

definition push_open_tag :: "int \<Rightarrow> push" where
  "push_open_tag name =
     (if name = STANZA_MESSAGE then push_lit ''<message''
      else if name = STANZA_PRESENCE then push_lit ''<presence''
      else if name = STANZA_IQ then push_lit ''<iq'' else push_nothing)"

definition push_close_tag :: "int \<Rightarrow> push" where
  "push_close_tag name =
     (if name = STANZA_MESSAGE then push_lit ''</message>''
      else if name = STANZA_PRESENCE then push_lit ''</presence>''
      else if name = STANZA_IQ then push_lit ''</iq>'' else push_nothing)"

text \<open>The union read as each of its members; the zeroed union has null pointers.\<close>

definition build_presence_part :: "sys_data \<Rightarrow> push" where
  "build_presence_part d =
     (case d of SysPresence node \<Rightarrow> build_presence_mucadm node
      | SysNone \<Rightarrow> build_presence_mucadm mu_zero
      | _ \<Rightarrow> push_fault TypePunning)"

definition with_room :: "sys_data \<Rightarrow> (room \<Rightarrow> push) \<Rightarrow> push" where
  "with_room d f =
     (case d of SysRoom r \<Rightarrow> f r | SysNone \<Rightarrow> push_fault NullDereference | _ \<Rightarrow> push_fault TypePunning)"

definition build_iq_part :: "clock \<Rightarrow> builder_packet \<Rightarrow> push" where
  "build_iq_part ck p =
     (let t = bp_iq_type p; d = bp_sys_data p in
      if t = BUILD_IQ_EMPTY then push_nothing
      else if t = BUILD_IQ_VERSION then
        (case d of SysNone \<Rightarrow>
           push_all
            [push_lit (''<query xmlns=`jabber:iq:version`><name>Mukite http://mukite.org/</name>'' @
                       ''<version>git</version><os>''),
             push_lit [], push_lit ''/'', push_lit [], push_lit '' '', push_lit [],
             push_lit ''</os></query>'']
         | _ \<Rightarrow> push_fault TypePunning)
      else if t = BUILD_IQ_LAST then
        push_all
         [push_lit ''<query xmlns=`jabber:iq:last` seconds=`'',
          buf_push_fmt (timer_ticks ck div TIMER_RESOLUTION), push_lit ''`/>'']
      else if t = BUILD_IQ_TIME then
        push_all [push_lit ''<time xmlns=`urn:xmpp:time`>'', build_iq_time ck, push_lit ''</time>'']
      else if t = BUILD_IQ_STATS then
        push_all
         [push_lit ''<query xmlns=`http://jabber.org/protocol/stats`>'',
          (case d of SysStats qs rs \<Rightarrow> build_stats ck qs rs
           | SysNone \<Rightarrow> push_and (push_lit ''<stat name=`queue/overflows` units=`times` value=`'')
                         (push_fault NullDereference)
           | _ \<Rightarrow> push_fault TypePunning),
          push_lit ''</query>'']
      else if t = BUILD_IQ_DISCO_INFO \<or> t = BUILD_IQ_ROOM_DISCO_INFO then
        push_all
         [push_lit ''<query xmlns=`http://jabber.org/protocol/disco#info`>'',
          (if t > BUILD_IQ_ROOM then with_room d build_room_info
           else push_lit (''<identity category=`conference` type=`text` name=`Chatrooms`/>'' @
                          ''<feature var=`http://jabber.org/protocol/disco#info`/>'' @
                          ''<feature var=`http://jabber.org/protocol/disco#items`/>'' @
                          ''<feature var=`http://jabber.org/protocol/muc`/>'' @
                          ''<feature var=`jabber:iq:last`/>'' @
                          ''<feature var=`jabber:iq:version`/>'' @
                          ''<feature var=`urn:xmpp:time`/>'')),
          push_lit ''</query>'']
      else if t = BUILD_IQ_DISCO_ITEMS \<or> t = BUILD_IQ_ROOM_DISCO_ITEMS then
        push_all
         [push_lit ''<query xmlns=`http://jabber.org/protocol/disco#items`>'',
          (if t > BUILD_IQ_ROOM then with_room d (\<lambda>r. build_room_items r (bp_from_host p))
           else build_component_items),
          push_lit ''</query>'']
      else if t = BUILD_IQ_ROOM_AFFILIATIONS then
        push_all
         [push_lit ''<query xmlns=`http://jabber.org/protocol/muc#admin`>'',
          (case d of SysMucItems affiliation items \<Rightarrow> build_room_affiliations items affiliation
           | SysNone \<Rightarrow> build_room_affiliations [] 0
           | _ \<Rightarrow> push_fault TypePunning),
          push_lit ''</query>'']
      else if t = BUILD_IQ_ROOM_CONFIG then
        push_all
         [push_lit ''<query xmlns=`http://jabber.org/protocol/muc#owner`>'',
          with_room d build_room_config,
          push_lit ''</query>'']
      else if t = BUILD_IQ_VCARD then
        push_lit (''<vCard xmlns=`vcard-temp`><FN>Mukite XMPP Component</FN>'' @
                  ''<URL>http://mukite.org/</URL></vCard>'')
      else push_nothing)"

definition build_delay :: "builder_packet \<Rightarrow> push" where
  "build_delay p =
     push_all
      [push_lit ''<delay xmlns=`urn:xmpp:delay` from=`'', push_from p, push_lit ''` stamp=`'',
       build_strftime (bp_delay p) True,
       push_lit ''`/><x xmlns=`jabber:x:delay` stamp=`'',
       build_strftime (bp_delay p) False,
       push_lit ''`/>'']"

definition builder_build :: "clock \<Rightarrow> builder_packet \<Rightarrow> push" where
  "builder_build ck p =
     push_all
      [push_open_tag (bp_name p),
       push_ifbpt (bp_header p),
       push_lit '' from=`'',
       push_from p,
       push_if (bp_from_nick p \<noteq> None) (push_and (push_lit ''/'') (push_buf (bp_from_nick p))),
       push_if (\<not> jid_empty (bp_to p)) (push_and (push_lit ''` to=`'') (buf_push (jid_str (bp_to p)))),
       push_if (bp_type p \<noteq> 0) (push_and (push_lit ''` type=`'') (push_stanza_type (bp_name p) (bp_type p))),
       push_lit ''`>'',
       push_ifbpt (bp_user_data p),
       (if bp_type p = STANZA_ERROR then
          (case bp_sys_data p of SysError e \<Rightarrow> build_error e
           | SysNone \<Rightarrow> push_nothing
           | _ \<Rightarrow> push_fault TypePunning)
        else if bp_name p = STANZA_PRESENCE then build_presence_part (bp_sys_data p)
        else if bp_name p = STANZA_IQ then build_iq_part ck p
        else push_nothing),
       push_if (bp_delay p \<noteq> 0) (build_delay p),
       push_close_tag (bp_name p)]"

subsection \<open>What a builder function prints\<close>

text \<open>
  \<open>prints p t\<close>: whatever is in the buffer, \<open>p\<close> appends \<open>t\<close> when there is room for more than
  \<open>t\<close>, never goes beyond the end of the buffer, and fails when \<open>t\<close> does not fit. When \<open>t\<close>
  fits exactly, \<open>prints\<close> only says that the buffer is then full (a number loses its last digit
  there); \<open>prints_exactly\<close> says that \<open>t\<close> is appended in that case too.
\<close>

definition prints :: "push \<Rightarrow> bytes \<Rightarrow> bool" where
  "prints p t \<longleftrightarrow>
     (\<forall>b. length (bb_data b) \<le> bb_size b \<longrightarrow>
        (\<exists>b' ok. p b = Ret (b', ok) \<and> bb_size b' = bb_size b \<and> length (bb_data b') \<le> bb_size b \<and>
           (length (bb_data b) + length t < bb_size b \<longrightarrow> ok \<and> bb_data b' = bb_data b @ t) \<and>
           (bb_size b \<le> length (bb_data b) + length t \<and> ok \<longrightarrow>
              length (bb_data b') = bb_size b \<and> bb_size b = length (bb_data b) + length t)))"

definition prints_exactly :: "push \<Rightarrow> bytes \<Rightarrow> bool" where
  "prints_exactly p t \<longleftrightarrow>
     prints p t \<and>
     (\<forall>b. length (bb_data b) + length t = bb_size b \<longrightarrow>
        (\<exists>b'. p b = Ret (b', True) \<and> bb_data b' = bb_data b @ t))"

named_theorems printing "what the builder functions print"

lemma printsE:
  assumes "prints p t" and "length (bb_data b) \<le> bb_size b"
  obtains b' ok where "p b = Ret (b', ok)" "bb_size b' = bb_size b" "length (bb_data b') \<le> bb_size b"
    "length (bb_data b) + length t < bb_size b \<Longrightarrow> ok \<and> bb_data b' = bb_data b @ t"
    "bb_size b \<le> length (bb_data b) + length t \<Longrightarrow> ok \<Longrightarrow>
      length (bb_data b') = bb_size b \<and> bb_size b = length (bb_data b) + length t"
  using assms unfolding prints_def by blast

lemma prints_push [printing]: "prints_exactly (buf_push t) t"
  by (auto simp: prints_exactly_def prints_def buf_push_def)

lemma prints_exactly_prints: "prints_exactly p t \<Longrightarrow> prints p t"
  by (simp add: prints_exactly_def)

lemma prints_nothing [printing]: "prints_exactly push_nothing []"
  by (auto simp: prints_exactly_def prints_def push_nothing_def)

lemma prints_fmt [printing]: "prints (buf_push_fmt v) (show_int v)"
proof -
  define n where "n = show_int v"
  have ne: "n \<noteq> []" by (simp add: n_def show_int_def)
  show ?thesis
    unfolding prints_def n_def [symmetric]
  proof (intro allI impI)
    fix b :: builder_buffer
    assume b: "length (bb_data b) \<le> bb_size b"
    consider "length (bb_data b) + length n < bb_size b" | "length (bb_data b) + length n = bb_size b"
      | "bb_size b < length (bb_data b) + length n" by linarith
    then show "\<exists>b' ok. buf_push_fmt v b = Ret (b', ok) \<and> bb_size b' = bb_size b \<and> length (bb_data b') \<le> bb_size b \<and>
        (length (bb_data b) + length n < bb_size b \<longrightarrow> ok \<and> bb_data b' = bb_data b @ n) \<and>
        (bb_size b \<le> length (bb_data b) + length n \<and> ok \<longrightarrow>
          length (bb_data b') = bb_size b \<and> bb_size b = length (bb_data b) + length n)"
    proof cases
      case 1
      then have "buf_push_fmt v b = Ret (b\<lparr>bb_data := bb_data b @ n\<rparr>, True)"
        by (auto simp: buf_push_fmt_def Let_def n_def [symmetric])
      then show ?thesis using 1 by (intro exI [of _ True] exI) auto
    next
      case 2
      then have "length n = bb_size b - length (bb_data b)" using b by simp
      then have "buf_push_fmt v b = Ret (b\<lparr>bb_data := bb_data b @ butlast n @ [CHR 0x00]\<rparr>, True)"
        by (simp add: buf_push_fmt_def Let_def n_def [symmetric])
      moreover have "length (butlast n @ [CHR 0x00]) = length n" using ne by simp
      ultimately show ?thesis using 2 by (intro exI [of _ True] exI) auto
    next
      case 3
      then have "buf_push_fmt v b = Ret (b, False)"
        using b by (auto simp: buf_push_fmt_def Let_def n_def [symmetric])
      then show ?thesis using 3 b by (intro exI [of _ False] exI) auto
    qed
  qed
qed

lemma prints_strftime [printing]: "prints (push_strftime t) t"
  by (auto simp: prints_def push_strftime_def)

lemma prints_and:
  assumes p: "prints p t" and q: "prints q s"
  shows "prints (push_and p q) (t @ s)"
  unfolding prints_def
proof (intro allI impI)
  fix b :: builder_buffer
  assume b: "length (bb_data b) \<le> bb_size b"
  from printsE [OF p b] obtain b1 ok1 where 1: "p b = Ret (b1, ok1)" "bb_size b1 = bb_size b"
    "length (bb_data b1) \<le> bb_size b"
    "length (bb_data b) + length t < bb_size b \<Longrightarrow> ok1 \<and> bb_data b1 = bb_data b @ t"
    "bb_size b \<le> length (bb_data b) + length t \<Longrightarrow> ok1 \<Longrightarrow>
      length (bb_data b1) = bb_size b \<and> bb_size b = length (bb_data b) + length t" by blast
  show "\<exists>b' ok. push_and p q b = Ret (b', ok) \<and> bb_size b' = bb_size b \<and> length (bb_data b') \<le> bb_size b \<and>
      (length (bb_data b) + length (t @ s) < bb_size b \<longrightarrow> ok \<and> bb_data b' = bb_data b @ t @ s) \<and>
      (bb_size b \<le> length (bb_data b) + length (t @ s) \<and> ok \<longrightarrow>
        length (bb_data b') = bb_size b \<and> bb_size b = length (bb_data b) + length (t @ s))"
  proof (cases ok1)
    case False
    then have "bb_size b \<le> length (bb_data b) + length t" using 1(4) by force
    then show ?thesis using 1 False by (intro exI [of _ b1] exI [of _ False]) (simp add: push_and_def)
  next
    case True
    have b1: "length (bb_data b1) \<le> bb_size b1" using 1 by simp
    from printsE [OF q b1] obtain b2 ok2 where 2: "q b1 = Ret (b2, ok2)" "bb_size b2 = bb_size b1"
      "length (bb_data b2) \<le> bb_size b1"
      "length (bb_data b1) + length s < bb_size b1 \<Longrightarrow> ok2 \<and> bb_data b2 = bb_data b1 @ s"
      "bb_size b1 \<le> length (bb_data b1) + length s \<Longrightarrow> ok2 \<Longrightarrow>
        length (bb_data b2) = bb_size b1 \<and> bb_size b1 = length (bb_data b1) + length s" by blast
    have r: "push_and p q b = Ret (b2, ok2)" using 1 2 True by (simp add: push_and_def)
    show ?thesis
    proof (cases "length (bb_data b) + length t < bb_size b")
      case True
      then have "bb_data b1 = bb_data b @ t" using 1 by simp
      then show ?thesis using r 2 1(2) by (intro exI [of _ b2] exI [of _ ok2]) auto
    next
      case False
      then have "length (bb_data b1) = bb_size b" "bb_size b = length (bb_data b) + length t"
        using 1 True by simp_all
      then show ?thesis using r 2 1(2) by (intro exI [of _ b2] exI [of _ ok2]) auto
    qed
  qed
qed

lemma prints_exactly_and:
  assumes p: "prints p t" and q: "prints_exactly q s" and s: "s \<noteq> [] \<or> prints_exactly p t"
  shows "prints_exactly (push_and p q) (t @ s)"
  unfolding prints_exactly_def
proof (intro conjI allI impI)
  show "prints (push_and p q) (t @ s)" using prints_and p q prints_exactly_prints by blast
  fix b :: builder_buffer
  assume full: "length (bb_data b) + length (t @ s) = bb_size b"
  then have b: "length (bb_data b) \<le> bb_size b" by simp
  have "\<exists>b1. p b = Ret (b1, True) \<and> bb_data b1 = bb_data b @ t \<and> bb_size b1 = bb_size b"
  proof (cases "s = []")
    case True
    then have e: "prints_exactly p t" using s by simp
    then obtain b1 where "p b = Ret (b1, True)" "bb_data b1 = bb_data b @ t"
      using full True unfolding prints_exactly_def by auto
    then show ?thesis using printsE [OF p b] by force
  next
    case False
    then have "0 < length s" by simp
    then have "length (bb_data b) + length t < bb_size b" using full unfolding length_append by linarith
    then show ?thesis using printsE [OF p b] by metis
  qed
  then obtain b1 where 1: "p b = Ret (b1, True)" "bb_data b1 = bb_data b @ t" "bb_size b1 = bb_size b" by blast
  then have "length (bb_data b1) + length s = bb_size b1" using full by simp
  then obtain b2 where "q b1 = Ret (b2, True)" "bb_data b2 = bb_data b1 @ s"
    using q unfolding prints_exactly_def by blast
  then show "\<exists>b'. push_and p q b = Ret (b', True) \<and> bb_data b' = bb_data b @ t @ s"
    using 1 by (simp add: push_and_def)
qed

subsection \<open>Every part prints\<close>

definition printable :: "push \<Rightarrow> bool" where
  "printable p \<longleftrightarrow> (\<exists>t. prints p t)"

lemma prints_printable: "prints p t \<Longrightarrow> printable p"
  by (auto simp: printable_def)

lemma printable_and [printing]: "printable p \<Longrightarrow> printable q \<Longrightarrow> printable (push_and p q)"
  unfolding printable_def using prints_and by blast

lemma printable_basic [printing]:
  "printable (buf_push t)" "printable (buf_push_fmt v)" "printable push_nothing" "printable (push_strftime t)"
  "printable (push_buf s)" "printable (push_lit t)" "printable (push_bool c)"
  unfolding push_buf_def push_lit_def push_bool_def
  by (rule prints_printable, rule prints_push [THEN prints_exactly_prints] prints_nothing [THEN prints_exactly_prints]
    prints_fmt prints_strftime)+

lemma printable_all [printing]: "(\<And>p. p \<in> set ps \<Longrightarrow> printable p) \<Longrightarrow> printable (push_all ps)"
  by (induction ps) (auto intro: printing)

lemma printable_if [printing]: "(c \<Longrightarrow> printable p) \<Longrightarrow> printable (push_if c p)"
  by (auto simp: push_if_def intro: printing)

lemma printable_ifbpt [printing]: "printable (push_ifbpt s)"
  by (simp add: push_ifbpt_def printing)

lemma printable_name [printing]:
  "0 \<le> i \<Longrightarrow> i < int (length names) \<Longrightarrow> printable (push_name names i)"
  by (simp add: push_name_def printing)

lemma printable_status [printing]: "printable (push_status codes)"
  by (auto simp: push_status_def intro: printing split: option.split)

definition affiliation_ok :: "int \<Rightarrow> bool" where
  "affiliation_ok i \<longleftrightarrow> 0 \<le> i \<and> i < int (length affiliation_names)"

definition role_ok :: "int \<Rightarrow> bool" where
  "role_ok i \<longleftrightarrow> 0 \<le> i \<and> i < int (length role_names)"

lemma printable_mucadm [printing]:
  "affiliation_ok (mi_affiliation (mu_item node)) \<Longrightarrow> role_ok (mi_role (mu_item node)) \<Longrightarrow>
   printable (build_presence_mucadm node)"
  by (auto simp: build_presence_mucadm_def Let_def affiliation_ok_def role_ok_def intro!: printing)

lemma printable_stat [printing]: "printable (push_stat n v u)"
  by (auto simp: push_stat_def intro!: printing)

lemma printable_stats [printing]: "printable (build_stats ck qs rs)"
  by (auto simp: build_stats_def intro!: printing)

lemma printable_room_items [printing]: "printable (build_room_items r h)"
  by (auto simp: build_room_items_def intro!: printing)

lemma printable_feature [printing]: "printable (push_feature c a b)"
  by (simp add: push_feature_def printing)

lemma printable_room_info [printing]: "printable (build_room_info r)"
  by (auto simp: build_room_info_def intro!: printing)

lemma printable_room_affiliations [printing]:
  "affs = [] \<or> affiliation_ok i \<Longrightarrow> printable (build_room_affiliations affs i)"
  by (auto simp: build_room_affiliations_def affiliation_ok_def intro!: printing)

lemma printable_field [printing]:
  "printable d \<Longrightarrow> printable a \<Longrightarrow> printable (push_field ty l v d a)"
  by (auto simp: push_field_def intro!: printing)

lemma printable_flag_field [printing]: "printable (push_flag_field r l v f)"
  by (simp add: push_flag_field_def printing)

lemma printable_room_config [printing]: "printable (build_room_config r)"
  by (auto simp: build_room_config_def intro!: printing)

lemma printable_times [printing]: "printable (build_strftime t u)" "printable (build_iq_time ck)"
  by (auto simp: build_strftime_def build_iq_time_def Let_def intro!: printing)

lemma printable_error [printing]: "printable (build_error e)"
  by (auto simp: build_error_def intro!: printing)

text \<open>A packet whose union matches its kind, with affiliations and roles that have names.\<close>

definition packet_ok :: "builder_packet \<Rightarrow> bool" where
  "packet_ok p \<longleftrightarrow>
     bp_name p \<in> {STANZA_IQ, STANZA_MESSAGE, STANZA_PRESENCE} \<and>
     (if bp_type p = STANZA_ERROR then bp_sys_data p = SysNone \<or> (\<exists>e. bp_sys_data p = SysError e)
      else if bp_name p = STANZA_PRESENCE then
        (\<exists>n. bp_sys_data p = SysPresence n \<and> affiliation_ok (mi_affiliation (mu_item n)) \<and>
             role_ok (mi_role (mu_item n)))
      else if bp_name p = STANZA_IQ then
        (if bp_iq_type p = BUILD_IQ_VERSION then bp_sys_data p = SysNone
         else if bp_iq_type p = BUILD_IQ_STATS then \<exists>qs rs. bp_sys_data p = SysStats qs rs
         else if bp_iq_type p \<in> {BUILD_IQ_ROOM_DISCO_INFO, BUILD_IQ_ROOM_DISCO_ITEMS, BUILD_IQ_ROOM_CONFIG}
           then \<exists>r. bp_sys_data p = SysRoom r
         else if bp_iq_type p = BUILD_IQ_ROOM_AFFILIATIONS
           then \<exists>i items. bp_sys_data p = SysMucItems i items \<and> (items = [] \<or> affiliation_ok i)
         else True)
      else True)"

lemma printable_iq_part:
  "packet_ok p \<Longrightarrow> bp_type p \<noteq> STANZA_ERROR \<Longrightarrow> bp_name p = STANZA_IQ \<Longrightarrow> printable (build_iq_part ck p)"
  by (auto simp: packet_ok_def build_iq_part_def with_room_def build_component_items_def Let_def
      split: if_splits intro!: printing)

lemma printable_stanza_type [printing]: "printable (push_stanza_type n t)"
  by (simp add: push_stanza_type_def printing)

lemma printable_from [printing]: "printable (push_from p)"
  by (auto simp: push_from_def intro!: printing)

lemma printable_delay [printing]: "printable (build_delay p)"
  by (auto simp: build_delay_def intro!: printing)

lemma printable_open [printing]: "printable (push_open_tag n)"
  by (simp add: push_open_tag_def printing)

subsection \<open>Whole stanzas\<close>

lemma prints_close:
  assumes "n \<in> {STANZA_IQ, STANZA_MESSAGE, STANZA_PRESENCE}"
  obtains t where "t \<noteq> []" and "prints_exactly (push_close_tag n) t"
  using assms prints_push [of "lit ''</iq>''"] prints_push [of "lit ''</message>''"]
    prints_push [of "lit ''</presence>''"]
  by (force simp: push_close_tag_def push_lit_def lit_def)

text \<open>A list of pushes that ends in the closing tag.\<close>

lemma prints_all_close:
  assumes "\<And>p. p \<in> set ps \<Longrightarrow> printable p" and "n \<in> {STANZA_IQ, STANZA_MESSAGE, STANZA_PRESENCE}"
  shows "\<exists>t. t \<noteq> [] \<and> prints_exactly (push_all (ps @ [push_close_tag n])) t"
  using assms(1)
proof (induction ps)
  case Nil
  obtain t where "t \<noteq> []" "prints_exactly (push_close_tag n) t" using prints_close [OF assms(2)] .
  then show ?case
    using prints_exactly_and [OF prints_exactly_prints prints_nothing, of "push_close_tag n" t] by auto
next
  case (Cons p ps)
  then obtain t where t: "t \<noteq> []" "prints_exactly (push_all (ps @ [push_close_tag n])) t" by auto
  obtain s where "prints p s" using Cons.prems by (auto simp: printable_def)
  with t prints_exactly_and [of p s "push_all (ps @ [push_close_tag n])" t] show ?case
    by (intro exI [of _ "s @ t"]) simp
qed

lemma builder_build_prints:
  assumes "packet_ok p"
  shows "\<exists>t. prints_exactly (builder_build ck p) t"
proof -
  have n: "bp_name p \<in> {STANZA_IQ, STANZA_MESSAGE, STANZA_PRESENCE}" using assms by (simp add: packet_ok_def)
  have err: "bp_sys_data p = SysNone \<or> (\<exists>e. bp_sys_data p = SysError e)" if "bp_type p = STANZA_ERROR"
    using assms that by (simp add: packet_ok_def)
  have pres: "\<exists>m. bp_sys_data p = SysPresence m \<and> affiliation_ok (mi_affiliation (mu_item m)) \<and> role_ok (mi_role (mu_item m))"
    if "bp_type p \<noteq> STANZA_ERROR" "bp_name p = STANZA_PRESENCE"
    using assms that by (simp add: packet_ok_def)
  have body: "printable (if bp_type p = STANZA_ERROR then
          (case bp_sys_data p of SysError e \<Rightarrow> build_error e | SysNone \<Rightarrow> push_nothing | _ \<Rightarrow> push_fault TypePunning)
        else if bp_name p = STANZA_PRESENCE then build_presence_part (bp_sys_data p)
        else if bp_name p = STANZA_IQ then build_iq_part ck p
        else push_nothing)"
    using err pres printable_iq_part [OF assms, of ck]
    by (auto simp: build_presence_part_def printing)
  have "\<exists>t. t \<noteq> [] \<and> prints_exactly (push_all (
      [push_open_tag (bp_name p),
       push_ifbpt (bp_header p),
       push_lit '' from=`'',
       push_from p,
       push_if (bp_from_nick p \<noteq> None) (push_and (push_lit ''/'') (push_buf (bp_from_nick p))),
       push_if (\<not> jid_empty (bp_to p)) (push_and (push_lit ''` to=`'') (buf_push (jid_str (bp_to p)))),
       push_if (bp_type p \<noteq> 0) (push_and (push_lit ''` type=`'') (push_stanza_type (bp_name p) (bp_type p))),
       push_lit ''`>'',
       push_ifbpt (bp_user_data p),
       (if bp_type p = STANZA_ERROR then
          (case bp_sys_data p of SysError e \<Rightarrow> build_error e | SysNone \<Rightarrow> push_nothing | _ \<Rightarrow> push_fault TypePunning)
        else if bp_name p = STANZA_PRESENCE then build_presence_part (bp_sys_data p)
        else if bp_name p = STANZA_IQ then build_iq_part ck p
        else push_nothing),
       push_if (bp_delay p \<noteq> 0) (build_delay p)] @ [push_close_tag (bp_name p)])) t"
    by (rule prints_all_close [OF _ n]) (auto intro!: printing body)
  then show ?thesis by (auto simp: builder_build_def)
qed

text \<open>
  Property C6: for every packet whose union matches its kind there is one text, and building it into
  an empty buffer of any size gives exactly this text if it fits and fails if it does not; the
  buffer is never exceeded and the process never ends.
\<close>

theorem builder_is_bounded:
  assumes "packet_ok p"
  shows "\<exists>t. \<forall>n. \<exists>b. builder_build ck p \<lparr>bb_data = [], bb_size = n\<rparr> = Ret (b, length t \<le> n) \<and>
    length (bb_data b) \<le> n \<and> (length t \<le> n \<longrightarrow> bb_data b = t)"
proof -
  obtain t where t: "prints_exactly (builder_build ck p) t" using builder_build_prints [OF assms] by blast
  have "\<exists>b. builder_build ck p \<lparr>bb_data = [], bb_size = n\<rparr> = Ret (b, length t \<le> n) \<and>
      length (bb_data b) \<le> n \<and> (length t \<le> n \<longrightarrow> bb_data b = t)" for n
  proof -
    let ?b = "\<lparr>bb_data = [], bb_size = n\<rparr> :: builder_buffer"
    from printsE [OF prints_exactly_prints [OF t], of ?b] obtain b' ok where
      b': "builder_build ck p ?b = Ret (b', ok)" "length (bb_data b') \<le> n"
        "length t < n \<longrightarrow> ok \<and> bb_data b' = t" "n \<le> length t \<and> ok \<longrightarrow> n = length t"
      by simp (metis)
    consider "length t < n" | "length t = n" | "n < length t" by linarith
    then show ?thesis
    proof cases
      case 2
      then obtain b'' where "builder_build ck p ?b = Ret (b'', True)" "bb_data b'' = t"
        using t [unfolded prints_exactly_def, THEN conjunct2, rule_format, of ?b] by auto
      with 2 show ?thesis by auto
    qed (use b' in auto)
  qed
  then show ?thesis by blast
qed

definition example_packet :: builder_packet where
  "example_packet = bp_zero\<lparr>bp_name := STANZA_MESSAGE, bp_type := STANZA_MESSAGE_GROUPCHAT,
     bp_from_host := Some ''h'', bp_from_node := Some ''tea'', bp_from_nick := Some ''Ann'',
     bp_to := \<lparr>jid_node = Some ''bob'', jid_host = Some ''h'', jid_resource = None\<rparr>, bp_user_data := Some ''hi''\<rparr>"

theorem builder_is_bounded_witness:
  "\<exists>b. builder_build \<lparr>ck_start = 0, ck_ticks = 0, ck_zone = ''+0000''\<rparr> example_packet \<lparr>bb_data = [], bb_size = 10\<rparr> = Ret (b, False)
     \<and> length (bb_data b) \<le> 10"
proof -
  let ?ck = "\<lparr>ck_start = 0, ck_ticks = 0, ck_zone = ''+0000''\<rparr>"
  have "packet_ok example_packet" by (simp add: packet_ok_def example_packet_def bp_zero_def)
  from builder_is_bounded [OF this, of ?ck] obtain t where
    t: "\<forall>n. \<exists>b. builder_build ?ck example_packet \<lparr>bb_data = [], bb_size = n\<rparr> = Ret (b, length t \<le> n) \<and>
      length (bb_data b) \<le> n \<and> (length t \<le> n \<longrightarrow> bb_data b = t)" by blast
  moreover have "(case builder_build ?ck example_packet \<lparr>bb_data = [], bb_size = 10\<rparr> of Ret (b, ok) \<Rightarrow> \<not> ok | Fault _ \<Rightarrow> False)"
    by code_simp
  moreover obtain b where "builder_build ?ck example_packet \<lparr>bb_data = [], bb_size = 10\<rparr> = Ret (b, length t \<le> 10)"
    "length (bb_data b) \<le> 10" using t by blast
  ultimately show ?thesis by auto
qed

text \<open>The text of a message from an occupant.\<close>

lemma prints_exactly_all_Cons:
  "prints_exactly p t \<Longrightarrow> prints_exactly (push_all ps) s \<Longrightarrow> prints_exactly (push_all (p # ps)) (t @ s)"
  using prints_exactly_and [OF prints_exactly_prints] by simp

lemma prints_exactly_basic [printing]:
  "prints_exactly (push_buf s) (buffer_bytes s)" "prints_exactly (push_lit l) (lit l)"
  "prints_exactly (push_ifbpt s) (buffer_bytes s)"
  by (simp_all add: push_buf_def push_lit_def push_ifbpt_def push_if_def prints_push prints_nothing)

definition message_text :: "builder_packet \<Rightarrow> bytes \<Rightarrow> bytes \<Rightarrow> bytes" where
  "message_text p node kind =
     ''<message'' @ buffer_bytes (bp_header p) @ lit '' from=`'' @ node @ ''@'' @
     buffer_bytes (bp_from_host p) @ ''/'' @ buffer_bytes (bp_from_nick p) @ lit ''` to=`'' @
     jid_str (bp_to p) @ lit ''` type=`'' @ kind @ lit ''`>'' @ buffer_bytes (bp_user_data p) @ ''</message>''"

text \<open>
  The stanza that carries a message of an occupant to another is the message's own header
  attributes, the sender's room address, the receiver's address and the message's contents.
\<close>

lemma prints_message:
  assumes "bp_name p = STANZA_MESSAGE" and "bp_type p \<in> {STANZA_MESSAGE_CHAT, STANZA_MESSAGE_GROUPCHAT}"
    and "bp_from_node p = Some node" and "bp_from_nick p \<noteq> None" and "\<not> jid_empty (bp_to p)" and "bp_delay p = 0"
  shows "prints_exactly (builder_build ck p)
    (message_text p node (if bp_type p = STANZA_MESSAGE_CHAT then ''chat'' else ''groupchat''))"
proof -
  let ?kind = "if bp_type p = STANZA_MESSAGE_CHAT then ''chat'' else ''groupchat''"
  have two: "prints_exactly (push_and q r) (t @ u)" if "prints_exactly q t" "prints_exactly r u" for q r t u
    using prints_exactly_and prints_exactly_prints that by blast
  have type: "prints_exactly (push_stanza_type STANZA_MESSAGE (bp_type p)) ?kind"
    using assms(2) prints_exactly_basic(2) [of "''chat''"] prints_exactly_basic(2) [of "''groupchat''"]
    by (auto simp: push_stanza_type_def lit_def)
  have from_eq: "push_from p = push_and (push_and (push_buf (Some node)) (push_lit ''@'')) (push_buf (bp_from_host p))"
    by (simp add: push_from_def assms(3) push_if_def)
  have "prints_exactly (push_all
      [push_lit ''<message'', push_ifbpt (bp_header p), push_lit '' from=`'', push_from p,
       push_and (push_lit ''/'') (push_buf (bp_from_nick p)),
       push_and (push_lit ''` to=`'') (buf_push (jid_str (bp_to p))),
       push_and (push_lit ''` type=`'') (push_stanza_type STANZA_MESSAGE (bp_type p)),
       push_lit ''`>'', push_ifbpt (bp_user_data p), push_nothing, push_nothing, push_lit ''</message>''])
     (lit ''<message'' @ buffer_bytes (bp_header p) @ lit '' from=`'' @
      ((buffer_bytes (Some node) @ lit ''@'') @ buffer_bytes (bp_from_host p)) @
      (lit ''/'' @ buffer_bytes (bp_from_nick p)) @ (lit ''` to=`'' @ jid_str (bp_to p)) @
      (lit ''` type=`'' @ ?kind) @ lit ''`>'' @ buffer_bytes (bp_user_data p) @ [] @ [] @ lit ''</message>'' @ [])"
    unfolding from_eq
    by (intro prints_exactly_all_Cons two type prints_exactly_basic prints_push prints_nothing)
      (simp add: prints_nothing)
  moreover have "builder_build ck p = push_all
      [push_lit ''<message'', push_ifbpt (bp_header p), push_lit '' from=`'', push_from p,
       push_and (push_lit ''/'') (push_buf (bp_from_nick p)),
       push_and (push_lit ''` to=`'') (buf_push (jid_str (bp_to p))),
       push_and (push_lit ''` type=`'') (push_stanza_type STANZA_MESSAGE (bp_type p)),
       push_lit ''`>'', push_ifbpt (bp_user_data p), push_nothing, push_nothing, push_lit ''</message>'']"
    using assms by (auto simp: builder_build_def push_open_tag_def push_close_tag_def push_if_def)
  moreover have "lit ''<message'' = ''<message''" "lit ''@'' = ''@''" "lit ''/'' = ''/''" "lit ''</message>'' = ''</message>''"
    by (simp_all add: lit_def)
  ultimately show ?thesis by (simp add: message_text_def)
qed

lemma example_message_text:
  "prints_exactly (builder_build \<lparr>ck_start = 0, ck_ticks = 0, ck_zone = ''+0000''\<rparr> example_packet)
     (lit ''<message from=`tea@h/Ann` to=`bob@h` type=`groupchat`>hi</message>'')"
  using prints_message [of example_packet "''tea''"]
  by (simp add: example_packet_def bp_zero_def jid_empty_def message_text_def jid_str_def lit_def)

end
