(* ===== verification/Sending.thy ===== *)
theory Sending
  imports Builder
begin

text \<open>
  The outgoing half of a room (\<^verbatim>\<open>src/room/room.c\<close>) and \<^verbatim>\<open>worker_send\<close> and \<^verbatim>\<open>worker_bounce\<close> of
  \<^verbatim>\<open>src/worker.c\<close>. While a stanza is routed, the packets handed to \<open>worker_send\<close> are collected in
  order (\<open>cx_out\<close>), each with the contents it has at that moment; \<open>worker_send\<close> itself is the
  printing of one packet and its writing into the ring buffer.
\<close>

subsection \<open>Errors\<close>

definition xmpp_error :: "bytes \<Rightarrow> bytes \<Rightarrow> bytes \<Rightarrow> bytes \<Rightarrow> xmpp_error" where
  "xmpp_error code name kind text = \<lparr>xe_code = code, xe_type = kind, xe_name = name, xe_text = text\<rparr>"

definition error_definitions :: "xmpp_error list" where
  "error_definitions =
     [xmpp_error ''406'' ''not-acceptable'' ''modify''
        ''Only participants are allowed to send messages to this conference'',
      xmpp_error ''404'' ''item-not-found'' ''cancel''
        ''Recipient is not in the conference room'',
      xmpp_error ''403'' ''forbidden'' ''cancel''
        ''Visitors are not allowed to send private messages in this room'',
      xmpp_error ''403'' ''forbidden'' ''cancel''
        ''Visitors are not allowed to send messages to the public chat in a moderated room'',
      xmpp_error [] ''conflict'' ''modify''
        ''This nickname is already in use by another occupant'',
      xmpp_error [] ''not-allowed'' ''wait''
        ''Maximum number of occupants has been reached for this room'',
      xmpp_error ''403'' ''forbidden'' ''cancel'' ''You are banned from this room'',
      xmpp_error ''403'' ''forbidden'' ''cancel'' ''Only members are allowed to enter this room'',
      xmpp_error ''406'' ''not-acceptable'' ''modify''
        ''Only occupants are allowed to send queries to the conference'',
      xmpp_error ''405'' ''not-allowed'' ''cancel''
        ''Queries to the conference occupants are not allowed in this room'',
      xmpp_error ''400'' ''bad-request'' ''modify'' [],
      xmpp_error ''403'' ''forbidden'' ''cancel''
        ''This kind of action requires higher privileges than you have'',
      xmpp_error ''500'' ''resource-constraint'' ''wait'' ''Traffic rate limit exceeded'',
      xmpp_error ''403'' ''forbidden'' ''cancel''
        ''Visitors are not allowed to update their presence in this room'',
      xmpp_error ''403'' ''not-authorized'' ''modify''
        ''This room is password protected and the password was not supplied or is incorrect'',
      xmpp_error ''403'' ''forbidden'' ''cancel''
        ''Private messages are not allowed in this room'',
      xmpp_error ''501'' ''feature-not-implemented'' ''cancel''
        ''This service does not provide the requested feature'',
      xmpp_error ''400'' ''jid-malformed'' ''modify'' ''You should specify a room nickname'']"

abbreviation ERROR_EXTERNAL_MESSAGE :: nat where "ERROR_EXTERNAL_MESSAGE \<equiv> 0"
abbreviation ERROR_RECIPIENT_NOT_IN_ROOM :: nat where "ERROR_RECIPIENT_NOT_IN_ROOM \<equiv> 1"
abbreviation ERROR_NO_VISITORS_PM :: nat where "ERROR_NO_VISITORS_PM \<equiv> 2"
abbreviation ERROR_NO_VISITORS_PUBLIC :: nat where "ERROR_NO_VISITORS_PUBLIC \<equiv> 3"
abbreviation ERROR_OCCUPANT_CONFLICT :: nat where "ERROR_OCCUPANT_CONFLICT \<equiv> 4"
abbreviation ERROR_OCCUPANTS_LIMIT :: nat where "ERROR_OCCUPANTS_LIMIT \<equiv> 5"
abbreviation ERROR_BANNED :: nat where "ERROR_BANNED \<equiv> 6"
abbreviation ERROR_MEMBERS_ONLY :: nat where "ERROR_MEMBERS_ONLY \<equiv> 7"
abbreviation ERROR_EXTERNAL_IQ :: nat where "ERROR_EXTERNAL_IQ \<equiv> 8"
abbreviation ERROR_IQ_PROHIBITED :: nat where "ERROR_IQ_PROHIBITED \<equiv> 9"
abbreviation ERROR_IQ_BAD :: nat where "ERROR_IQ_BAD \<equiv> 10"
abbreviation ERROR_PRIVILEGE_LEVEL :: nat where "ERROR_PRIVILEGE_LEVEL \<equiv> 11"
abbreviation ERROR_TRAFFIC_RATE :: nat where "ERROR_TRAFFIC_RATE \<equiv> 12"
abbreviation ERROR_PASSWORD :: nat where "ERROR_PASSWORD \<equiv> 14"
abbreviation ERROR_NO_PM :: nat where "ERROR_NO_PM \<equiv> 15"
abbreviation ERROR_NOT_IMPLEMENTED :: nat where "ERROR_NOT_IMPLEMENTED \<equiv> 16"
abbreviation ERROR_JID_MALFORMED :: nat where "ERROR_JID_MALFORMED \<equiv> 17"

subsection \<open>The state of routing one stanza\<close>

record ctx =
  cx_room :: room
  cx_in :: packet
  cx_out :: "builder_packet list"

definition emit :: "builder_packet list \<Rightarrow> ctx \<Rightarrow> ctx" where
  "emit ps c = c\<lparr>cx_out := cx_out c @ ps\<rparr>"

definition with_cleanup :: "nat \<Rightarrow> ctx \<Rightarrow> ctx run" where
  "with_cleanup mode c = bind_run (packet_cleanup (cx_in c) mode) (\<lambda>p. Ret (c\<lparr>cx_in := p\<rparr>))"

definition ingress_header :: "ctx \<Rightarrow> bytes option run" where
  "ingress_header c = load (ip_mem (cx_in c)) (ip_header (cx_in c))"

definition ingress_inner :: "ctx \<Rightarrow> bytes option run" where
  "ingress_inner c = load (ip_mem (cx_in c)) (ip_inner (cx_in c))"

text \<open>\<open>worker_bounce\<close>; the node is null when the room is not known.\<close>

definition bounce_packet :: "packet \<Rightarrow> xmpp_error \<Rightarrow> bytes option \<Rightarrow> (packet \<times> builder_packet) run" where
  "bounce_packet p e node =
     bind_run (packet_cleanup p (PACKET_CLEANUP_TO OR PACKET_CLEANUP_SWITCH_FROM_TO)) (\<lambda>p.
     bind_run (load (ip_mem p) (ip_header p)) (\<lambda>header.
     bind_run (load (ip_mem p) (ip_inner p)) (\<lambda>inner.
       Ret (p, bp_zero\<lparr>bp_name := ip_name p, bp_type := STANZA_ERROR, bp_from_node := node,
                       bp_header := header, bp_sys_data := SysError e, bp_user_data := inner\<rparr>))))"

definition worker_bounce :: "nat \<Rightarrow> ctx \<Rightarrow> ctx run" where
  "worker_bounce e c =
     bind_run (bounce_packet (cx_in c) (error_definitions ! e) (room_node (cx_room c))) (\<lambda>(p, egress).
       Ret (emit [egress] (c\<lparr>cx_in := p\<rparr>)))"

subsection \<open>Presence and subject\<close>

definition room_config_status_codes :: "room \<Rightarrow> 32 word" where
  "room_config_status_codes r =
     (if \<not> has_flag r MUC_FLAG_SEMIANONYMOUS then STATUS_NON_ANONYMOUS else 0) OR
     (if has_flag r MUC_FLAG_ENABLELOGGING then STATUS_LOGGING_ENABLED else 0) OR
     (if has_flag r MUC_FLAG_JUST_CREATED then STATUS_ROOM_CREATED else 0)"

definition sees_jid :: "room \<Rightarrow> addr \<Rightarrow> bool" where
  "sees_jid r receiver \<longleftrightarrow>
     p_role (occupant r receiver) = ROLE_MODERATOR \<or> \<not> has_flag r MUC_FLAG_SEMIANONYMOUS"

text \<open>The packet \<open>room_broadcast_presence\<close> sends to one receiver.\<close>

definition broadcast_packet :: "room \<Rightarrow> addr \<Rightarrow> bytes option \<Rightarrow> 32 word \<Rightarrow> addr \<Rightarrow> builder_packet" where
  "broadcast_packet r sender new_nick status_codes receiver =
     (let s = occupant r sender;
          item = \<lparr>mi_affiliation = p_affiliation s, mi_role = p_role s,
                  mi_jid = (if sees_jid r receiver then p_jid s else jid_init),
                  mi_nick = new_nick, mi_reason_node = p_reason_node s\<rparr>;
          codes = (if receiver = sender then room_config_status_codes r OR STATUS_SELF_PRESENCE OR status_codes
                   else status_codes)
      in bp_zero\<lparr>bp_name := STANZA_PRESENCE,
           bp_type := (if p_role s = ROLE_NONE \<or> status_codes AND STATUS_NICKNAME_CHANGED \<noteq> 0
                       then STANZA_PRESENCE_UNAVAILABLE else 0),
           bp_user_data := p_presence s, bp_from_nick := p_nick s, bp_from_node := room_node r,
           bp_to := p_jid (occupant r receiver),
           bp_sys_data := SysPresence \<lparr>mu_item = item, mu_status_codes = codes, mu_resume = None\<rparr>\<rparr>)"

definition room_broadcast_presence :: "addr \<Rightarrow> bytes option \<Rightarrow> 32 word \<Rightarrow> ctx \<Rightarrow> ctx" where
  "room_broadcast_presence sender new_nick status_codes c =
     emit (map (broadcast_packet (cx_room c) sender new_nick status_codes) (occupants (cx_room c))) c"

definition room_subject_send :: "addr \<Rightarrow> ctx \<Rightarrow> ctx" where
  "room_subject_send receiver c =
     (let r = cx_room c in
      if room_subject_node r \<noteq> None then
        emit [bp_zero\<lparr>bp_name := STANZA_MESSAGE, bp_type := STANZA_MESSAGE_GROUPCHAT,
                      bp_to := p_jid (occupant r receiver), bp_from_nick := room_subject_nick r,
                      bp_from_node := room_node r, bp_user_data := room_subject_node r\<rparr>] c
      else c)"

text \<open>The presence of an occupant that \<open>room_presences_send\<close> sends to a newcomer.\<close>

definition introduction_packet :: "room \<Rightarrow> addr \<Rightarrow> addr \<Rightarrow> builder_packet" where
  "introduction_packet r receiver sender =
     (let s = occupant r sender;
          item = mi_zero\<lparr>mi_affiliation := p_affiliation s, mi_role := p_role s,
                         mi_jid := (if sees_jid r receiver then p_jid s else jid_init)\<rparr>
      in bp_zero\<lparr>bp_name := STANZA_PRESENCE, bp_from_node := room_node r, bp_from_nick := p_nick s,
           bp_user_data := p_presence s, bp_to := p_jid (occupant r receiver),
           bp_sys_data := SysPresence (mu_zero\<lparr>mu_item := item\<rparr>)\<rparr>)"

definition room_presences_send :: "addr \<Rightarrow> ctx \<Rightarrow> ctx" where
  "room_presences_send receiver c =
     emit (map (introduction_packet (cx_room c) receiver)
             (filter (\<lambda>a. a \<noteq> receiver) (occupants (cx_room c)))) c"

subsection \<open>Sending\<close>

text \<open>
  \<open>worker_send\<close>: the packet is printed into the worker's buffer and, if it fitted, written into
  the ring buffer; what is left to write when the ring buffer is full is the second result.
\<close>

definition worker_send ::
  "clock \<Rightarrow> bytes option \<Rightarrow> nat \<Rightarrow> ringbuffer \<Rightarrow> builder_packet \<Rightarrow> (ringbuffer \<times> bytes \<times> bool) run" where
  "worker_send ck hostname allocated rb p =
     bind_run (builder_build ck (p\<lparr>bp_from_host := hostname\<rparr>) \<lparr>bb_data = [], bb_size = allocated\<rparr>)
       (\<lambda>(b, ok). if ok then (case ringbuffer_write rb (bb_data b) of (rb', rest) \<Rightarrow> Ret (rb', rest, True))
                  else Ret (rb, [], False))"

lemma cx_emit [simp]:
  "cx_room (emit ps c) = cx_room c" "cx_in (emit ps c) = cx_in c" "cx_out (emit ps c) = cx_out c @ ps"
  by (simp_all add: emit_def)

text \<open>
  Property C7: a presence broadcast reaches every occupant once, in the order of the list, from the
  sender's room address; it is marked unavailable exactly for a sender who leaves or changes
  his nickname; and the sender's real address is shown only to moderators, unless the room is
  not semi-anonymous.
\<close>

theorem broadcast_to_all:
  assumes "room_broadcast_presence s nick codes c = c'"
  shows "\<exists>ps. cx_out c' = cx_out c @ ps \<and> cx_room c' = cx_room c \<and>
    map bp_to ps = map (\<lambda>a. p_jid (occupant (cx_room c) a)) (occupants (cx_room c)) \<and>
    (\<forall>p \<in> set ps. bp_name p = STANZA_PRESENCE \<and> bp_from_node p = room_node (cx_room c) \<and>
       bp_from_nick p = p_nick (occupant (cx_room c) s) \<and>
       (bp_type p = STANZA_PRESENCE_UNAVAILABLE \<longleftrightarrow>
          p_role (occupant (cx_room c) s) = ROLE_NONE \<or> codes AND STATUS_NICKNAME_CHANGED \<noteq> 0)) \<and>
    (\<forall>i < length ps. \<exists>node. bp_sys_data (ps ! i) = SysPresence node \<and>
       (mi_jid (mu_item node) = p_jid (occupant (cx_room c) s) \<or> mi_jid (mu_item node) = jid_init) \<and>
       (has_flag (cx_room c) MUC_FLAG_SEMIANONYMOUS \<longrightarrow>
          p_role (occupant (cx_room c) (occupants (cx_room c) ! i)) \<noteq> ROLE_MODERATOR \<longrightarrow>
          mi_jid (mu_item node) = jid_init))"
proof -
  let ?ps = "map (broadcast_packet (cx_room c) s nick codes) (occupants (cx_room c))"
  have "cx_out c' = cx_out c @ ?ps" "cx_room c' = cx_room c"
    using assms by (auto simp: room_broadcast_presence_def)
  then show ?thesis
    by (intro exI [of _ ?ps]) (auto simp: broadcast_packet_def Let_def bp_zero_def sees_jid_def)
qed

definition example_ctx :: ctx where
  "example_ctx = \<lparr>cx_room = example_room, cx_in = packet_zero [], cx_out = []\<rparr>"

theorem broadcast_to_all_witness:
  "\<exists>p. cx_out (room_broadcast_presence 1 None 0 example_ctx) = [p] \<and> bp_to p = example_jid \<and>
     bp_from_nick p = Some ''Ann''"
proof -
  have o: "occupants (cx_room example_ctx) = [1]" "occupant (cx_room example_ctx) 1 =
      participant_zero\<lparr>p_jid := example_jid, p_nick := Some ''Ann'', p_affiliation := AFFIL_OWNER, p_role := ROLE_MODERATOR\<rparr>"
    by (simp_all add: example_ctx_def occupants_def occupant_def example_room_def room_init_def Let_def
      dls_prepend_def dls_init_def utlist_ref_def)
  obtain ps where "cx_out (room_broadcast_presence 1 None 0 example_ctx) = cx_out example_ctx @ ps"
    "map bp_to ps = [example_jid]" "\<forall>p \<in> set ps. bp_from_nick p = Some ''Ann''"
    using broadcast_to_all [OF refl, of 1 None 0 example_ctx] o by auto
  then show ?thesis by (auto simp: example_ctx_def)
qed

end
