(* ===== verification/Room_Xml.thy ===== *)
theory Room_Xml
  imports Sending
begin

text \<open>
  The functions of \<^verbatim>\<open>src/room/room.c\<close> that read the contents of a stanza: the \<open>muc\<close> node of a
  joining presence, the subject of a message, the items of an administrative query and the
  configuration form.
\<close>

subsection \<open>Comparing text in the stanza\<close>

text \<open>
  \<open>BPT_EQ_LIT\<close> and \<open>BPT_EQ_BIN\<close>: sizes first, so that a slice whose end lies before its start is
  equal to nothing.
\<close>

definition bpt_eq :: "bytes \<Rightarrow> bytes \<Rightarrow> nat \<times> nat \<Rightarrow> bool" where
  "bpt_eq lit_bytes m s \<longleftrightarrow>
     int (snd s) - int (fst s) = int (length lit_bytes) \<and> slice_of m s = lit_bytes"

subsection \<open>The muc node\<close>

record muc_node =
  mn_max_stanzas :: int
  mn_max_chars :: int
  mn_seconds :: int
  mn_password :: slice

definition muc_node_init :: muc_node where
  "muc_node_init = \<lparr>mn_max_stanzas = -1, mn_max_chars = -1, mn_seconds = -1, mn_password = None\<rparr>"

definition history_attr :: "bytes \<Rightarrow> nat \<times> nat \<Rightarrow> nat \<times> nat \<Rightarrow> muc_node \<Rightarrow> muc_node" where
  "history_attr m n v mn =
     (if bpt_eq ''maxstanzas'' m n then mn\<lparr>mn_max_stanzas := btoi (slice_of m v)\<rparr>
      else if bpt_eq ''maxchars'' m n then mn\<lparr>mn_max_chars := btoi (slice_of m v)\<rparr>
      else if bpt_eq ''seconds'' m n then mn\<lparr>mn_seconds := btoi (slice_of m v)\<rparr>
      else mn)"

definition muc_child :: "bytes \<Rightarrow> sibling \<Rightarrow> muc_node \<Rightarrow> (muc_node \<times> bool) run" where
  "muc_child m sib mn =
     (if slice_of m (sib_name sib) = ''password'' then
        bind_run (xmlfsm_skip_attrs m (fst (sib_node sib))) (\<lambda>(has_content, d).
          Ret (if has_content then mn\<lparr>mn_password := Some (d, snd (sib_node sib) - length ''</password>'')\<rparr> else mn,
               False))
      else if slice_of m (sib_name sib) = ''history'' then
        bind_run (attr_loop (\<lambda>n v mn. Ret (history_attr m n v mn, False)) m (fst (sib_node sib)) mn)
          (\<lambda>(mn', _). Ret (mn', False))
      else Ret (mn, False))"

definition parse_muc_node :: "bytes \<Rightarrow> slice \<Rightarrow> muc_node run" where
  "parse_muc_node m buffer =
     (case buffer of
        None \<Rightarrow> Ret muc_node_init
      | Some (d, e) \<Rightarrow>
          if d = e then Ret muc_node_init
          else
            bind_run (xmlfsm_node_name m (d, e)) (\<lambda>(_, d1).
            bind_run (xmlfsm_skip_attrs m d1) (\<lambda>(has_content, d2).
              if \<not> has_content then Ret muc_node_init
              else bind_run (sibling_loop (muc_child m) m (d2, e) muc_node_init) (\<lambda>(mn, _). Ret mn))))"

text \<open>The password check of \<open>route_presence\<close>.\<close>

definition password_matches :: "bytes \<Rightarrow> bytes option \<Rightarrow> muc_node \<Rightarrow> bool" where
  "password_matches m password mn \<longleftrightarrow>
     (case password of None \<Rightarrow> True
      | Some pw \<Rightarrow> (case mn_password mn of None \<Rightarrow> False | Some s \<Rightarrow> bpt_eq pw m s))"

subsection \<open>The subject\<close>

definition get_subject_node :: "bytes \<Rightarrow> slice \<Rightarrow> slice run" where
  "get_subject_node m inner =
     slice_loop (\<lambda>sib found.
       if slice_of m (sib_name sib) = ''subject''
       then Ret (Some (sib_start sib, snd (sib_node sib)), True) else Ret (found, False)) m inner None"

subsection \<open>Items of an administrative query\<close>

fun role_search_name :: "bytes list \<Rightarrow> int \<Rightarrow> bytes \<Rightarrow> int" where
  "role_search_name [] i name = ROLE_UNCHANGED"
| "role_search_name (n # ns) i name = (if name = n then i else role_search_name ns (i + 1) name)"

definition role_by_name :: "bytes \<Rightarrow> int" where
  "role_by_name name = role_search_name role_names ROLE_NONE name"

record admin_target =
  at_jid :: jid
  at_role :: int
  at_affiliation :: int
  at_nick :: "bytes option"
  at_reason_node :: "bytes option"

definition admin_target_init :: admin_target where
  "admin_target_init = \<lparr>at_jid = jid_init, at_role = ROLE_UNCHANGED, at_affiliation = AFFIL_UNCHANGED,
     at_nick = None, at_reason_node = None\<rparr>"

text \<open>The body of the attribute loop; a target that cannot be read makes the function return -1.\<close>

definition admin_attr :: "bytes \<Rightarrow> nat \<times> nat \<Rightarrow> nat \<times> nat \<Rightarrow> admin_target \<times> bool \<Rightarrow> ((admin_target \<times> bool) \<times> bool) run" where
  "admin_attr m n v st =
     (let t = fst st; name = slice_of m n; value = slice_of m v in
      if name = ''affiliation'' then
        (let t' = t\<lparr>at_affiliation := affiliation_by_name value\<rparr>
         in if at_affiliation t' = AFFIL_UNCHANGED then Ret ((t', False), True) else Ret ((t', True), False))
      else if name = ''role'' then
        (let t' = t\<lparr>at_role := role_by_name value\<rparr>
         in if at_role t' = ROLE_UNCHANGED then Ret ((t', False), True) else Ret ((t', True), False))
      else if name = ''jid'' then
        (case jid_struct (Some value) of (good, j) \<Rightarrow>
           if good then Ret ((t\<lparr>at_jid := j\<rparr>, True), False) else Ret ((t\<lparr>at_jid := j\<rparr>, False), True))
      else if name = ''nick'' then Ret ((t\<lparr>at_nick := Some value\<rparr>, True), False)
      else Ret ((t, True), False))"

definition admin_item :: "bytes \<Rightarrow> sibling \<Rightarrow> int \<times> admin_target \<Rightarrow> ((int \<times> admin_target) \<times> bool) run" where
  "admin_item m sib st =
     (if slice_of m (sib_name sib) \<noteq> ''item'' then Ret (st, False)
      else
        bind_run (attr_loop (admin_attr m) m (fst (sib_node sib)) (snd st, True)) (\<lambda>((t, ok), attr_state, d).
          if \<not> ok then Ret ((-1, t), True)
          else if attr_state = XMLNODE_NOATTR then
            bind_run (xmlfsm_skipto_node m (d, snd (sib_node sib)) ''reason'') (\<lambda>(found, _).
              Ret ((1, t\<lparr>at_reason_node := map_option (slice_of m) found\<rparr>), True))
          else Ret ((1, t), True)))"

definition next_muc_admin_item :: "bytes \<Rightarrow> nat \<times> nat \<Rightarrow> (int \<times> admin_target \<times> (nat \<times> nat)) run" where
  "next_muc_admin_item m node =
     bind_run (sibling_loop (admin_item m) m node (0, admin_target_init)) (\<lambda>((res, t), left, rest).
       if left then Ret (res, t, if res > 0 then rest else node) else Ret (0, t, node))"

subsection \<open>The configuration form\<close>

definition flag_to :: "32 word \<Rightarrow> bool \<Rightarrow> room \<Rightarrow> room" where
  "flag_to f on r = (if on then set_flag f r else clear_flag f r)"

text \<open>
  \<open>room_config_option_set\<close>. A value whose end was cut off before its start is a fault that
  happens when it is copied; \<open>btoi\<close> gives 0 for it, because it compares the negative size as an
  unsigned number.
\<close>

definition btoi_value :: "bytes run \<Rightarrow> int" where
  "btoi_value value = (case value of Ret v \<Rightarrow> btoi v | Fault _ \<Rightarrow> 0)"

definition option_text :: "(bytes \<Rightarrow> room \<Rightarrow> room) \<Rightarrow> bytes run \<Rightarrow> room \<Rightarrow> room run" where
  "option_text f value r = bind_run value (\<lambda>v. Ret (f v r))"

definition option_flag :: "32 word \<Rightarrow> bytes run \<Rightarrow> room \<Rightarrow> room run" where
  "option_flag f value r = Ret (flag_to f (btoi_value value \<noteq> 0) r)"

definition room_config_option_set :: "room \<Rightarrow> bytes \<Rightarrow> bytes run \<Rightarrow> int \<Rightarrow> room run" where
  "room_config_option_set r var value acl =
     (if var = ''muc#roomconfig_roomname'' then
        option_text (\<lambda>v r. if length v \<le> USER_STRING_OPTION_LIMIT then r\<lparr>room_title := Some v\<rparr> else r) value r
      else if var = ''muc#roomconfig_roomdesc'' then
        option_text (\<lambda>v r. if length v \<le> USER_STRING_OPTION_LIMIT then r\<lparr>room_description := Some v\<rparr> else r) value r
      else if var = ''muc#roomconfig_persistentroom'' then
        (if acl \<ge> ACL_MUC_PERSIST then option_flag MUC_FLAG_PERSISTENTROOM value r else Ret r)
      else if var = ''muc#roomconfig_publicroom'' then option_flag MUC_FLAG_PUBLICROOM value r
      else if var = ''public_list'' then option_flag MUC_FLAG_PUBLICPARTICIPANTS value r
      else if var = ''muc#roomconfig_passwordprotectedroom'' then
        (if (case value of Ret v \<Rightarrow> length v \<le> USER_STRING_OPTION_LIMIT | Fault _ \<Rightarrow> True)
         then option_flag MUC_FLAG_PASSWORDPROTECTEDROOM value r else Ret r)
      else if var = ''muc#roomconfig_roomsecret'' then
        option_text (\<lambda>v r. r\<lparr>room_password := Some v\<rparr>) value r
      else if var = ''muc#roomconfig_maxusers'' then
        (let n = btoi_value value
         in Ret (r\<lparr>room_participants := (room_participants r)\<lparr>dls_max_size :=
              (if n \<le> 0 \<or> n > PARTICIPANTS_LIMIT then PARTICIPANTS_LIMIT else n)\<rparr>\<rparr>))
      else if var = ''muc#roomconfig_whois'' then
        Ret (flag_to MUC_FLAG_SEMIANONYMOUS (value = Ret ''moderators'') r)
      else if var = ''muc#roomconfig_membersonly'' then option_flag MUC_FLAG_MEMBERSONLY value r
      else if var = ''muc#roomconfig_moderatedroom'' then option_flag MUC_FLAG_MODERATEDROOM value r
      else if var = ''members_by_default'' then
        Ret (r\<lparr>room_default_role := (if btoi_value value \<noteq> 0 then ROLE_PARTICIPANT else ROLE_VISITOR)\<rparr>)
      else if var = ''muc#roomconfig_changesubject'' then option_flag MUC_FLAG_CHANGESUBJECT value r
      else if var = ''allow_private_messages'' then option_flag MUC_FLAG_ALLOWPM value r
      else if var = ''allow_query_users'' then option_flag MUC_FLAG_IQ_PROXY value r
      else if var = ''muc#roomconfig_allowinvites'' then option_flag MUC_FLAG_INVITES value r
      else if var = ''muc#roomconfig_allowvisitorspm'' then option_flag MUC_FLAG_VISITORSPM value r
      else if var = ''muc#roomconfig_allowvisitorpresence'' then option_flag MUC_FLAG_VISITORPRESENCE value r
      else if var = ''muc#roomconfig_mewcat'' then option_flag MUC_FLAG_MEWCAT value r
      else Ret r)"

definition slice_value :: "bytes \<Rightarrow> nat \<times> nat \<Rightarrow> bytes run" where
  "slice_value m s = (if fst s \<le> snd s then Ret (slice_of m s) else Fault OutOfBounds)"

definition config_value :: "bytes \<Rightarrow> bytes \<Rightarrow> int \<Rightarrow> sibling \<Rightarrow> room \<Rightarrow> (room \<times> bool) run" where
  "config_value m var acl sib r =
     (if slice_of m (sib_name sib) \<noteq> ''value'' then Ret (r, False)
      else
        bind_run (xmlfsm_skip_attrs m (fst (sib_node sib))) (\<lambda>(has_content, d).
          if \<not> has_content then Ret (r, False)
          else bind_run (room_config_option_set r var
                 (slice_value m (d, snd (sib_node sib) - length ''</value>'')) acl) (\<lambda>r'. Ret (r', False))))"

definition config_field :: "bytes \<Rightarrow> int \<Rightarrow> sibling \<Rightarrow> room \<Rightarrow> (room \<times> bool) run" where
  "config_field m acl sib r =
     (if slice_of m (sib_name sib) \<noteq> ''field'' then Ret (r, False)
      else
        bind_run (xmlfsm_skipto_attr m (fst (sib_node sib)) ''var'') (\<lambda>(found, d).
          case found of
            None \<Rightarrow> Ret (r, False)
          | Some var \<Rightarrow>
              bind_run (xmlfsm_skip_attrs m d) (\<lambda>(has_content, d').
                if \<not> has_content then Ret (r, False)
                else bind_run (sibling_loop (config_value m (slice_of m var) acl) m (d', snd (sib_node sib)) r)
                       (\<lambda>(r', _). Ret (r', False)))))"

definition room_config_parse :: "bytes \<Rightarrow> room \<Rightarrow> nat \<times> nat \<Rightarrow> int \<Rightarrow> room run" where
  "room_config_parse m r data acl =
     bind_run (sibling_loop (config_field m acl) m data r) (\<lambda>(r', _). Ret r')"

subsection \<open>What configuration can change\<close>

lemma has_clear_flag: "has_flag (clear_flag g r) f \<longleftrightarrow> room_flags r AND NOT g AND f \<noteq> 0"
  by (simp add: has_flag_def clear_flag_def and.assoc)

lemma flag_to_same [simp]:
  "room_participants (flag_to f c r) = room_participants r"
  "room_affiliations (flag_to f c r) = room_affiliations r"
  "room_history (flag_to f c r) = room_history r"
  by (simp_all add: flag_to_def)

text \<open>What every step of a loop keeps is kept by the loop.\<close>

lemma sibling_loop_invariant:
  "(\<And>sib s s' leave. body sib s = Ret (s', leave) \<Longrightarrow> P s \<Longrightarrow> P s') \<Longrightarrow>
   sibling_loop body m (d, e) s = Ret (s', left, rest) \<Longrightarrow> P s \<Longrightarrow> P s'"
proof (induction "length m - d" arbitrary: d s rule: less_induct)
  case less
  obtain found where found: "xmlfsm_next_sibling m (d, e) = Ret found"
    using less.prems(2) by (subst (asm) sibling_loop.simps) auto
  show ?case
  proof (cases found)
    case None
    with found less.prems show ?thesis by (subst (asm) sibling_loop.simps) simp
  next
    case (Some sib)
    from found [unfolded Some] have prog: "d < fst (sib_rest sib)" "fst (sib_rest sib) \<le> length m"
      "snd (sib_rest sib) = e" by (auto dest: next_sibling_progress)
    obtain s1 leave where b: "body sib s = Ret (s1, leave)"
      using less.prems(2) found Some by (subst (asm) sibling_loop.simps) auto
    have s1: "P s1" using less.prems(1) [OF b less.prems(3)] .
    show ?thesis
    proof (cases leave)
      case True
      with found b Some less.prems(2) s1 show ?thesis by (subst (asm) sibling_loop.simps) simp
    next
      case False
      then have r: "sibling_loop body m (fst (sib_rest sib), e) s1 = Ret (s', left, rest)"
        using found b Some less.prems(2) prog(3)
        by (cases "sib_rest sib") (subst (asm) sibling_loop.simps, simp)
      show ?thesis using less.hyps [OF _ less.prems(1) r s1] prog by simp
    qed
  qed
qed

lemma sibling_loop_left:
  "sibling_loop body m (d, e) s = Ret (s', True, d', e') \<Longrightarrow> d < d' \<and> d' \<le> length m"
proof (induction "length m - d" arbitrary: d s rule: less_induct)
  case less
  then obtain sib where sib: "xmlfsm_next_sibling m (d, e) = Ret (Some sib)"
    by (subst (asm) (2) sibling_loop.simps) (auto split: option.splits)
  then have prog: "d < fst (sib_rest sib)" "fst (sib_rest sib) \<le> length m" "snd (sib_rest sib) = e"
    by (auto dest: next_sibling_progress)
  obtain s1 leave where b: "body sib s = Ret (s1, leave)"
    using less.prems sib by (subst (asm) sibling_loop.simps) auto
  show ?case
  proof (cases leave)
    case True
    then have "sib_rest sib = (d', e')"
      using less.prems sib b by (subst (asm) sibling_loop.simps) simp
    with prog show ?thesis by simp
  next
    case False
    then have "sibling_loop body m (fst (sib_rest sib), e) s1 = Ret (s', True, d', e')"
      using less.prems sib b prog(3)
      by (cases "sib_rest sib") (subst (asm) sibling_loop.simps, simp)
    then show ?thesis using less.hyps [of "fst (sib_rest sib)" s1] prog by force
  qed
qed

lemma admin_item_progress:
  "next_muc_admin_item m (d, e) = Ret (res, t, d', e') \<Longrightarrow> res > 0 \<Longrightarrow> d < d' \<and> d' \<le> length m"
  by (auto simp: next_muc_admin_item_def split: if_splits dest!: sibling_loop_left)

text \<open>What the options can change, by cases over the options.\<close>

lemma option_steps:
  "option_text f value r = Ret r' \<longleftrightarrow> (\<exists>v. value = Ret v \<and> r' = f v r)"
  "option_flag g value r = Ret r' \<longleftrightarrow> r' = flag_to g (btoi_value value \<noteq> 0) r"
  by (auto simp: option_text_def option_flag_def)

lemma option_keeps:
  assumes "room_config_option_set r var value acl = Ret r'"
  shows "dls_head (room_participants r') = dls_head (room_participants r)"
    and "dls_cell (room_participants r') = dls_cell (room_participants r)"
    and "dls_size (room_participants r') = dls_size (room_participants r)"
    and "room_affiliations r' = room_affiliations r" and "room_history r' = room_history r"
    and "room_node r' = room_node r"
  using assms unfolding room_config_option_set_def Let_def
  by (auto simp: option_steps flag_to_def set_flag_def clear_flag_def split: if_splits)

text \<open>Bits that no option of the form touches.\<close>

lemma has_flag_to_other: "g AND f = 0 \<Longrightarrow> has_flag (flag_to g on r) f = has_flag r f"
proof -
  assume "g AND f = 0"
  then have "bit g n \<Longrightarrow> \<not> bit f n" for n
    by (metis bit_and_iff bit_0_eq bot_apply bot_bool_def)
  then have "w AND NOT g AND f = w AND f" "(w OR g) AND f = w AND f" for w :: "32 word"
    by (auto simp: bit_simps intro!: bit_word_eqI)
  then show ?thesis by (simp add: flag_to_def has_flag_def set_flag_def clear_flag_def and.assoc)
qed

lemma has_flag_more [simp]:
  "has_flag (r\<lparr>room_title := x\<rparr>) f = has_flag r f"
  "has_flag (r\<lparr>room_description := x\<rparr>) f = has_flag r f"
  "has_flag (r\<lparr>room_password := x\<rparr>) f = has_flag r f"
  "has_flag (r\<lparr>room_participants := l\<rparr>) f = has_flag r f"
  "has_flag (r\<lparr>room_default_role := i\<rparr>) f = has_flag r f"
  "has_flag (r\<lparr>room_affiliations := affs\<rparr>) f = has_flag r f"
  "has_flag (r\<lparr>room_history := h\<rparr>) f = has_flag r f"
  "has_flag (r\<lparr>room_subject_node := x\<rparr>) f = has_flag r f"
  "has_flag (r\<lparr>room_subject_nick := x\<rparr>) f = has_flag r f"
  by (simp_all add: has_flag_def)

text \<open>
  What a form may have done to a room, for an owner with the given access level: \<open>r0\<close> is the
  room before.
\<close>

definition configured :: "int \<Rightarrow> room \<Rightarrow> room \<Rightarrow> bool" where
  "configured acl r0 r \<longleftrightarrow>
     occupants r = occupants r0 \<and> occupant r = occupant r0 \<and>
     room_affiliations r = room_affiliations r0 \<and> room_history r = room_history r0 \<and>
     room_node r = room_node r0 \<and>
     dls_size (room_participants r) = dls_size (room_participants r0) \<and>
     (acl < ACL_MUC_PERSIST \<longrightarrow> has_flag r MUC_FLAG_PERSISTENTROOM = has_flag r0 MUC_FLAG_PERSISTENTROOM) \<and>
     has_flag r MUC_FLAG_DESTROYED = has_flag r0 MUC_FLAG_DESTROYED \<and>
     has_flag r MUC_FLAG_JUST_CREATED = has_flag r0 MUC_FLAG_JUST_CREATED \<and>
     has_flag r MUC_FLAG_ENABLELOGGING = has_flag r0 MUC_FLAG_ENABLELOGGING \<and>
     (dls_max_size (room_participants r) = dls_max_size (room_participants r0) \<or>
      dls_max_size (room_participants r) \<in> {1..PARTICIPANTS_LIMIT}) \<and>
     (room_title r = room_title r0 \<or> buffer_size (room_title r) \<le> USER_STRING_OPTION_LIMIT) \<and>
     (room_description r = room_description r0 \<or> buffer_size (room_description r) \<le> USER_STRING_OPTION_LIMIT)"

lemma configured_refl [simp]: "configured acl r r"
  by (simp add: configured_def)

lemma configured_flag:
  "configured acl r0 r \<Longrightarrow> g AND (MUC_FLAG_DESTROYED OR MUC_FLAG_JUST_CREATED OR MUC_FLAG_ENABLELOGGING) = 0 \<Longrightarrow>
   g AND MUC_FLAG_PERSISTENTROOM = 0 \<or> acl \<ge> ACL_MUC_PERSIST \<Longrightarrow> configured acl r0 (flag_to g on r)"
proof -
  assume c: "configured acl r0 r" and g: "g AND (MUC_FLAG_DESTROYED OR MUC_FLAG_JUST_CREATED OR MUC_FLAG_ENABLELOGGING) = 0"
    and p: "g AND MUC_FLAG_PERSISTENTROOM = 0 \<or> acl \<ge> ACL_MUC_PERSIST"
  from g have "g AND MUC_FLAG_DESTROYED = 0" "g AND MUC_FLAG_JUST_CREATED = 0" "g AND MUC_FLAG_ENABLELOGGING = 0"
    unfolding bit.conj_disj_distrib or_eq_0_iff by blast+
  note [simp] = this [THEN has_flag_to_other]
  have "occupants (flag_to g on r) = occupants r" "occupant (flag_to g on r) = occupant r"
    "room_node (flag_to g on r) = room_node r" "room_title (flag_to g on r) = room_title r"
    "room_description (flag_to g on r) = room_description r"
    by (auto simp: occupants_def occupant_def flag_to_def set_flag_def clear_flag_def)
  with c p show ?thesis by (auto simp: configured_def has_flag_to_other)
qed

lemma configured_other:
  "configured acl r0 r \<Longrightarrow> buffer_size x \<le> USER_STRING_OPTION_LIMIT \<Longrightarrow> configured acl r0 (r\<lparr>room_title := x\<rparr>)"
  "configured acl r0 r \<Longrightarrow> buffer_size x \<le> USER_STRING_OPTION_LIMIT \<Longrightarrow> configured acl r0 (r\<lparr>room_description := x\<rparr>)"
  "configured acl r0 r \<Longrightarrow> configured acl r0 (r\<lparr>room_password := y\<rparr>)"
  "configured acl r0 r \<Longrightarrow> configured acl r0 (r\<lparr>room_default_role := i\<rparr>)"
  "configured acl r0 r \<Longrightarrow> n \<in> {1..PARTICIPANTS_LIMIT} \<Longrightarrow>
   configured acl r0 (r\<lparr>room_participants := (room_participants r)\<lparr>dls_max_size := n\<rparr>\<rparr>)"
  by (auto simp: configured_def occupants_def occupant_def fun_eq_iff)

lemma option_configured:
  "room_config_option_set r var value acl = Ret r' \<Longrightarrow> configured acl r0 r \<Longrightarrow> configured acl r0 r'"
  unfolding room_config_option_set_def Let_def
  by (auto simp: option_steps configured_other intro!: configured_flag split: if_splits)

lemma config_value_configured:
  "config_value m var acl sib r = Ret (r', leave) \<Longrightarrow> configured acl r0 r \<Longrightarrow> configured acl r0 r'"
  by (auto simp: config_value_def intro: option_configured split: if_splits)

lemma config_field_configured:
  "config_field m acl sib r = Ret (r', leave) \<Longrightarrow> configured acl r0 r \<Longrightarrow> configured acl r0 r'"
  by (auto simp: config_field_def intro: sibling_loop_invariant [OF config_value_configured]
    split: if_splits option.splits)

lemma config_parse_configured:
  assumes "room_config_parse m r data acl = Ret r'"
  shows "configured acl r r'"
proof -
  obtain d e where data: "data = (d, e)" by fastforce
  then obtain left rest where l: "sibling_loop (config_field m acl) m (d, e) r = Ret (r', left, rest)"
    using assms by (auto simp: room_config_parse_def)
  show ?thesis
    by (rule sibling_loop_invariant [OF _ l, of "configured acl r"]) (auto intro: config_field_configured)
qed


definition example_form :: bytes where
  "example_form = lit (''<field var=`muc#roomconfig_persistentroom`><value>1</value></field>'' @
     ''<field var=`muc#roomconfig_maxusers`><value>9</value></field>'')"


subsection \<open>A secret that cannot be loaded\<close>

text \<open>
  The room's secret is the only text option without a limit: a valid room given a longer
  secret is still written to the data file, but reading that file fails at this room.
\<close>

theorem long_secret_unreadable:
  assumes "valid_room r" and "USER_STRING_OPTION_LIMIT < length v" and "length v < 2 ^ 31"
    and "length (enc_room (r\<lparr>room_password := Some v\<rparr>)) \<le> of_space f"
  shows "\<exists>r' f'. room_config_option_set r ''muc#roomconfig_roomsecret'' (Ret v) acl = Ret r' \<and>
    room_serialize r' f = (f', True) \<and>
    room_deserialize U (drop (length (of_written f)) (of_written f')) = None"
proof -
  let ?r = "r\<lparr>room_password := Some v\<rparr>"
  have set: "room_config_option_set r ''muc#roomconfig_roomsecret'' (Ret v) acl = Ret ?r"
    by (simp add: room_config_option_set_def option_text_def)
  have "fits 4 (int (length v))" using assms(3) by (simp add: fits_def)
  then have "buffer_deserialize (int USER_STRING_OPTION_LIMIT) (enc_buffer (Some v) @ rest) = None" for rest
    using assms(2) by (simp add: buffer_deserialize_def enc_buffer_def base.get_and_enc)
  then have "room_deserialize U (enc_room ?r) = None"
    using assms(1) unfolding room_deserialize_def enc_room_def Let_def append_assoc valid_room_def
    by (simp add: buffer.get_and_enc get_and_def [of "buffer_deserialize _" _ "enc_buffer (Some v) @ _"])
  then show ?thesis
    using set assms(4) by (auto simp: room.put_enc fwrite_def)
qed

theorem long_secret_unreadable_witness:
  "\<exists>r' f'. room_config_option_set example_room ''muc#roomconfig_roomsecret''
       (Ret (replicate 9000 (CHR ''a''))) ACL_MUC_CREATE = Ret r' \<and>
     room_serialize r' \<lparr>of_written = [], of_space = 10000\<rparr> = (f', True) \<and>
     room_deserialize utlist_ref (of_written f') = None"
proof -
  let ?r = "example_room\<lparr>room_password := Some (replicate 9000 (CHR ''a''))\<rparr>"
  have "length (enc_room ?r) \<le> of_space \<lparr>of_written = [], of_space = 10000\<rparr>"
    by (simp add: enc_room_def example_room_parts example_occupants enc_buffer_def enc_mark_def
      enc_participant_def participant_zero_def example_jid_def jid_buffer_def jid_str_def)
  from long_secret_unreadable [OF example_room_valid _ _ this, of ACL_MUC_CREATE utlist_ref]
  show ?thesis by simp
qed

end
