(* ===== verification/Routing.thy ===== *)
theory Routing
  imports Room_Xml
begin

text \<open>
  The routing of one stanza by a room (\<^verbatim>\<open>src/room/room.c\<close>): \<open>route_message\<close>, \<open>route_presence\<close>,
  \<open>route_iq\<close> and \<open>room_route\<close>. The state is the room, the incoming packet (whose block the
  cleanups overwrite) and the packets sent so far.

  The build without \<open>MEWCAT\<close> is modelled.
\<close>

subsection \<open>What the room relies on\<close>

text \<open>
  The list macros, and what is found behind the pointers when the array of affiliation lists is
  passed as an array of pointers to lists (lines 613 and 1065 of the source convert it with a
  cast): the faults and values depend on the platform.
\<close>

record platform =
  pf_utlist :: utlist
  pf_pun :: "affiliations \<Rightarrow> nat \<Rightarrow> affiliation dls run"

text \<open>
  Two instances: the pointers the code means to pass, and the ones a machine with 8-byte
  pointers finds. There the first pointer is the \<open>head\<close> of the list of outcasts: null when
  nobody is banned, and an affiliation taken for a list otherwise.
\<close>

definition pun_intended :: "affiliations \<Rightarrow> nat \<Rightarrow> affiliation dls run" where
  "pun_intended affs i = Ret (affs ! i)"

definition pun_lp64 :: "affiliations \<Rightarrow> nat \<Rightarrow> affiliation dls run" where
  "pun_lp64 affs i = (if dls_head (affs ! 0) = [] then Fault NullDereference else Fault TypePunning)"

subsection \<open>Messages\<close>

definition set_room :: "(room \<Rightarrow> room) \<Rightarrow> ctx \<Rightarrow> ctx" where
  "set_room f c = c\<lparr>cx_room := f (cx_room c)\<rparr>"

definition find_sender :: "ctx \<Rightarrow> addr option" where
  "find_sender c = participants_find_by_jid (room_participants (cx_room c)) (ip_real_from (cx_in c))"

definition find_recipient :: "ctx \<Rightarrow> addr option" where
  "find_recipient c = participants_find_by_nick (room_participants (cx_room c)) (jid_resource (ip_proxy_to (cx_in c)))"

abbreviation PACKET_CLEANUP_FROM_TO :: nat where
  "PACKET_CLEANUP_FROM_TO \<equiv> 3"       \<comment> \<open>\<open>PACKET_CLEANUP_FROM | PACKET_CLEANUP_TO\<close>\<close>

text \<open>The packet as it is when \<open>worker_send\<close> is called: the header and the contents after the cleanup.\<close>

definition message_packet :: "ctx \<Rightarrow> addr \<Rightarrow> bytes option \<Rightarrow> bytes option \<Rightarrow> addr \<Rightarrow> builder_packet" where
  "message_packet c sender header inner receiver =
     bp_zero\<lparr>bp_name := STANZA_MESSAGE, bp_type := ip_type (cx_in c), bp_header := header,
       bp_from_node := room_node (cx_room c), bp_from_nick := p_nick (occupant (cx_room c) sender),
       bp_user_data := inner, bp_to := p_jid (occupant (cx_room c) receiver)\<rparr>"

text \<open>The change of subject: an error to bounce, or the new state.\<close>

definition change_subject :: "addr \<Rightarrow> slice \<Rightarrow> ctx \<Rightarrow> (nat option \<times> ctx) run" where
  "change_subject sender subject c =
     (case subject of
        None \<Rightarrow> Ret (None, c)
      | Some (a, b) \<Rightarrow>
          if p_role (occupant (cx_room c) sender) < ROLE_MODERATOR \<and>
             \<not> has_flag (cx_room c) MUC_FLAG_CHANGESUBJECT then Ret (Some ERROR_PRIVILEGE_LEVEL, c)
          else if int b - int a > int USER_STRING_OPTION_LIMIT then Ret (Some ERROR_IQ_BAD, c)
          else bind_run (load (ip_mem (cx_in c)) subject) (\<lambda>node.
            Ret (None, set_room (\<lambda>r. r\<lparr>room_subject_nick := buffer_ptr_cpy (p_nick (occupant r sender)),
                                       room_subject_node := buffer_ptr_cpy node\<rparr>) c)))"

text \<open>
  \<open>history_entry_set_inner\<close> through the pointer \<open>history_entries_push\<close> returned: a null pointer is
  followed unless the contents are refused first.
\<close>

definition history_store :: "bytes option \<Rightarrow> history_entry dls \<times> addr option \<Rightarrow> history_entry dls run" where
  "history_store inner pushed =
     (case pushed of
        (h, Some a) \<Rightarrow> Ret (dls_update h a (\<lambda>e. fst (history_entry_set_inner e inner)))
      | (h, None) \<Rightarrow>
          if buffer_size inner > MAX_HISTORY_INNER_SIZE then Ret h else Fault NullDereference)"

lemma history_store_code [code]:
  "history_store inner pushed =
     (case pushed of
        (h, Some a) \<Rightarrow> Ret (dls_update h a (\<lambda>e. fst (history_entry_set_inner e inner)))
      | (h, None) \<Rightarrow> if int (buffer_size inner) > 65000 then Ret h else Fault NullDereference)"
  by (simp add: history_store_def split: prod.split option.split)

definition route_public_message :: "platform \<Rightarrow> int \<Rightarrow> int \<Rightarrow> int \<Rightarrow> addr \<Rightarrow> ctx \<Rightarrow> ctx run" where
  \<comment> \<open>\<open>now\<close> and \<open>now'\<close> are the two readings of \<open>timer_ticks\<close>\<close>
  "route_public_message P deciseconds_limit now now' sender c =
     (let s = occupant (cx_room c) sender in
      if has_flag (cx_room c) MUC_FLAG_MODERATEDROOM \<and> p_role s < ROLE_PARTICIPANT
      then worker_bounce ERROR_NO_VISITORS_PUBLIC c
      else if now - p_last_message_time s < deciseconds_limit
      then worker_bounce ERROR_TRAFFIC_RATE c
      else
        let c1 = set_room (update_participant sender (\<lambda>p. p\<lparr>p_last_message_time := now'\<rparr>)) c in
        bind_run (get_subject_node (ip_mem (cx_in c1)) (ip_inner (cx_in c1))) (\<lambda>subject.
        bind_run (change_subject sender subject c1) (\<lambda>(error, c2).
          case error of
            Some e \<Rightarrow> worker_bounce e c2
          | None \<Rightarrow>
              bind_run (with_cleanup PACKET_CLEANUP_FROM_TO c2) (\<lambda>c3.
              bind_run (ingress_header c3) (\<lambda>header.
              bind_run (ingress_inner c3) (\<lambda>inner.
              bind_run (history_entries_push (pf_utlist P) (room_history (cx_room c3))) (\<lambda>pushed.
              bind_run (history_store inner pushed) (\<lambda>h.
                let c4 = set_room (\<lambda>r. r\<lparr>room_history := h\<rparr>) c3 in
                Ret (emit (map (message_packet c4 sender header inner) (occupants (cx_room c4))) c4))))))))) "

definition route_private_message :: "addr \<Rightarrow> ctx \<Rightarrow> ctx run" where
  "route_private_message sender c =
     (case find_recipient c of
        None \<Rightarrow> worker_bounce ERROR_RECIPIENT_NOT_IN_ROOM c
      | Some receiver \<Rightarrow>
          if p_role (occupant (cx_room c) sender) = ROLE_VISITOR \<and> \<not> has_flag (cx_room c) MUC_FLAG_VISITORSPM
          then worker_bounce ERROR_NO_VISITORS_PM c
          else if \<not> has_flag (cx_room c) MUC_FLAG_ALLOWPM then worker_bounce ERROR_NO_PM c
          else
            bind_run (with_cleanup PACKET_CLEANUP_FROM_TO c) (\<lambda>c1.
            bind_run (ingress_header c1) (\<lambda>header.
            bind_run (ingress_inner c1) (\<lambda>inner.
              Ret (emit [message_packet c1 sender header inner receiver] c1)))))"

definition route_message :: "platform \<Rightarrow> int \<Rightarrow> int \<Rightarrow> int \<Rightarrow> ctx \<Rightarrow> ctx run" where
  "route_message P deciseconds_limit now now' c =
     (case find_sender c of
        None \<Rightarrow> worker_bounce ERROR_EXTERNAL_MESSAGE c
      | Some sender \<Rightarrow>
          if jid_resource (ip_proxy_to (cx_in c)) = None
          then route_public_message P deciseconds_limit now now' sender c
          else route_private_message sender c)"

subsection \<open>Presence\<close>

text \<open>
  A presence from an occupant. The second result is the sender when the handler goes on, and
  \<open>None\<close> where it returns.
\<close>

definition presence_of_occupant :: "addr \<Rightarrow> ctx \<Rightarrow> (ctx \<times> addr option) run" where
  "presence_of_occupant sender c =
     (if ip_type (cx_in c) \<noteq> STANZA_PRESENCE_UNAVAILABLE \<and> jid_resource (ip_proxy_to (cx_in c)) \<noteq> None then
        (case find_recipient c of
           Some receiver \<Rightarrow>
             if receiver = sender then
               bind_run (with_cleanup PACKET_CLEANUP_FROM_TO c) (\<lambda>c. Ret (c, Some sender))
             else bind_run (worker_bounce ERROR_OCCUPANT_CONFLICT c) (\<lambda>c. Ret (c, None))
         | None \<Rightarrow>
             if p_role (occupant (cx_room c) sender) \<le> ROLE_VISITOR \<and>
                \<not> has_flag (cx_room c) MUC_FLAG_VISITORPRESENCE then Ret (c, None)
             else
               let new_nick = buffer_ptr_cpy (jid_resource (ip_proxy_to (cx_in c)));
                   c1 = room_broadcast_presence sender new_nick STATUS_NICKNAME_CHANGED c
               in Ret (set_room (update_participant sender (\<lambda>p. p\<lparr>p_nick := new_nick\<rparr>)) c1, Some sender))
      else bind_run (with_cleanup PACKET_CLEANUP_FROM_TO c) (\<lambda>c. Ret (c, Some sender)))"

text \<open>The affiliation a newcomer gets, or the error that refuses him.\<close>

definition admission :: "platform \<Rightarrow> acl_config \<Rightarrow> muc_node \<Rightarrow> ctx \<Rightarrow> (nat + int) run" where
  "admission P acl mn c =
     (let r = cx_room c; j = ip_real_from (cx_in c) in
      if acl_role acl j \<ge> ACL_MUC_ADMIN then Ret (Inr AFFIL_OWNER)
      else if dls_size (room_participants r) \<ge> dls_max_size (room_participants r)
      then Ret (Inl ERROR_OCCUPANTS_LIMIT)
      else
        bind_run (affiliationss_get_by_jid (pf_pun P (room_affiliations r)) acl j) (\<lambda>affiliation.
          Ret (if affiliation = AFFIL_OUTCAST then Inl ERROR_BANNED
               else if affiliation < AFFIL_OWNER \<and> has_flag r MUC_FLAG_PASSWORDPROTECTEDROOM \<and>
                       \<not> password_matches (ip_mem (cx_in c)) (room_password r) mn then Inl ERROR_PASSWORD
               else if has_flag r MUC_FLAG_MEMBERSONLY \<and> affiliation < AFFIL_MEMBER then Inl ERROR_MEMBERS_ONLY
               else Inr affiliation)))"

definition found_room :: "platform \<Rightarrow> ctx \<Rightarrow> ctx" where
  \<comment> \<open>the first one to enter a new room becomes its owner\<close>
  "found_room P c =
     (if has_flag (cx_room c) MUC_FLAG_JUST_CREATED then
        set_room (\<lambda>r. r\<lparr>room_affiliations := fst (affiliationss_add (pf_utlist P) (room_affiliations r) None
                           AFFIL_OWNER (ip_real_from (cx_in c)) None)\<rparr>) c
      else c)"

definition presence_of_stranger :: "platform \<Rightarrow> acl_config \<Rightarrow> muc_node \<Rightarrow> ctx \<Rightarrow> (ctx \<times> addr option) run" where
  "presence_of_stranger P acl mn c =
     (if ip_type (cx_in c) = STANZA_PRESENCE_UNAVAILABLE then Ret (c, None)
      else if jid_resource (ip_proxy_to (cx_in c)) = None then
        bind_run (worker_bounce ERROR_JID_MALFORMED c) (\<lambda>c. Ret (c, None))
      else if find_recipient c \<noteq> None then
        bind_run (worker_bounce ERROR_OCCUPANT_CONFLICT c) (\<lambda>c. Ret (c, None))
      else
        let c1 = found_room P c in
        bind_run (admission P acl mn c1) (\<lambda>admitted.
          case admitted of
            Inl e \<Rightarrow> bind_run (worker_bounce e c1) (\<lambda>c. Ret (c, None))
          | Inr affiliation \<Rightarrow>
              (case room_join (pf_utlist P) (cx_room c1) (ip_real_from (cx_in c1))
                      (jid_resource (ip_proxy_to (cx_in c1))) affiliation of (r, a) \<Rightarrow>
                 bind_run (with_cleanup PACKET_CLEANUP_FROM_TO (c1\<lparr>cx_room := r\<rparr>)) (\<lambda>c2.
                   Ret (room_presences_send a c2, Some a)))))"

text \<open>
  The rest of the handler. The presence is first a pointer into the stanza, and is copied at the
  end when it is not empty and not longer than the limit.
\<close>

definition kept_presence :: "bytes option \<Rightarrow> bytes option" where
  "kept_presence b =
     (if int (buffer_size b) \<le> REASONABLE_RAW_LIMIT \<and> buffer_size b \<noteq> 0 then b else None)"

definition presence_tail :: "platform \<Rightarrow> bool \<Rightarrow> addr \<Rightarrow> ctx \<Rightarrow> ctx run" where
  "presence_tail P just_joined sender c =
     (let update = (p_role (occupant (cx_room c) sender) > ROLE_VISITOR \<or>
                    has_flag (cx_room c) MUC_FLAG_VISITORPRESENCE) in
      bind_run (if update then ingress_inner c else Ret None) (\<lambda>inner.
       let unavailable = (ip_type (cx_in c) = STANZA_PRESENCE_UNAVAILABLE);
           c1 = set_room (update_participant sender (\<lambda>p. if update then p\<lparr>p_presence := inner\<rparr> else p)) c;
           c2 = (if unavailable then set_room (update_participant sender (\<lambda>p. p\<lparr>p_role := ROLE_NONE\<rparr>)) c1 else c1);
           c3 = room_broadcast_presence sender None 0 c2;
           c4 = (if unavailable then
                   set_room (\<lambda>r. room_leave (pf_utlist P)
                     (update_participant sender (\<lambda>p. p\<lparr>p_presence := None\<rparr>) r) sender) c3
                 else
                   set_room (update_participant sender (\<lambda>p. p\<lparr>p_presence := kept_presence (p_presence p)\<rparr>))
                     (if just_joined then room_subject_send sender c3 else c3))
       in Ret (set_room (clear_flag MUC_FLAG_JUST_CREATED) c4)))"

definition route_presence :: "platform \<Rightarrow> acl_config \<Rightarrow> ctx \<Rightarrow> ctx run" where
  "route_presence P acl c =
     bind_run (parse_muc_node (ip_mem (cx_in c)) (ip_muc (cx_in c))) (\<lambda>mn.
       case find_sender c of
         Some sender \<Rightarrow>
           bind_run (presence_of_occupant sender c) (\<lambda>(c, goes_on).
             case goes_on of None \<Rightarrow> Ret c | Some a \<Rightarrow> presence_tail P False a c)
       | None \<Rightarrow>
           bind_run (presence_of_stranger P acl mn c) (\<lambda>(c, goes_on).
             case goes_on of None \<Rightarrow> Ret c | Some a \<Rightarrow> presence_tail P True a c))"

subsection \<open>Queries to an occupant\<close>

text \<open>
  A query is passed on without the name of the stanza, its header and the room's name, as the
  source does; a vCard request goes to the bare address.
\<close>

definition asks_vcard :: "packet \<Rightarrow> bool run" where
  "asks_vcard p =
     (case ip_inner p of
        None \<Rightarrow> Ret False
      | Some buffer \<Rightarrow>
          bind_run (xmlfsm_next_sibling (ip_mem p) buffer) (\<lambda>found.
            Ret (case found of None \<Rightarrow> False | Some sib \<Rightarrow> slice_of (ip_mem p) (sib_name sib) = ''vCard'')))"

definition route_iq_occupant :: "addr option \<Rightarrow> ctx \<Rightarrow> ctx run" where
  "route_iq_occupant sender c =
     (case sender of
        None \<Rightarrow> worker_bounce ERROR_EXTERNAL_IQ c
      | Some s \<Rightarrow>
          if \<not> has_flag (cx_room c) MUC_FLAG_IQ_PROXY then worker_bounce ERROR_IQ_PROHIBITED c
          else
            (case find_recipient c of
               None \<Rightarrow> worker_bounce ERROR_RECIPIENT_NOT_IN_ROOM c
             | Some receiver \<Rightarrow>
                 bind_run (with_cleanup PACKET_CLEANUP_FROM_TO c) (\<lambda>c1.
                 bind_run (if ip_type (cx_in c1) = STANZA_IQ_GET then asks_vcard (cx_in c1) else Ret False) (\<lambda>vcard.
                 bind_run (ingress_inner c1) (\<lambda>inner.
                   let j = p_jid (occupant (cx_room c1) receiver) in
                   Ret (emit [bp_zero\<lparr>bp_from_nick := p_nick (occupant (cx_room c1) s), bp_user_data := inner,
                     bp_to := (if vcard then j\<lparr>jid_resource := None\<rparr> else j)\<rparr>] c1))))))"

subsection \<open>Queries to the room\<close>

text \<open>The namespace of the \<open>query\<close> node, what follows its attributes, and whether it is empty.\<close>

type_synonym query = "bytes \<times> (nat \<times> nat) \<times> bool"

definition find_query :: "bytes \<Rightarrow> slice \<Rightarrow> query option run" where
  "find_query m inner =
     slice_loop (\<lambda>sib found.
       if slice_of m (sib_name sib) \<noteq> ''query'' then Ret (found, False)
       else
         bind_run (xmlfsm_skipto_attr m (fst (sib_node sib)) ''xmlns'') (\<lambda>(xmlns, d).
           case xmlns of
             None \<Rightarrow> Ret (found, False)
           | Some v \<Rightarrow>
               bind_run (xmlfsm_skip_attrs m d) (\<lambda>(has_content, d').
                 Ret (Some (slice_of m v, (d', snd (sib_node sib)), \<not> has_content), True))))
       m inner None"

definition disco_info_ns :: bytes where "disco_info_ns = ''http://jabber.org/protocol/disco#info''"
definition disco_items_ns :: bytes where "disco_items_ns = ''http://jabber.org/protocol/disco#items''"
definition muc_admin_ns :: bytes where "muc_admin_ns = ''http://jabber.org/protocol/muc#admin''"
definition muc_owner_ns :: bytes where "muc_owner_ns = ''http://jabber.org/protocol/muc#owner''"

text \<open>
  What the branches of the handler leave: an error to bounce, or the kind of reply (0 for none)
  with its data, and the occupants affected (the first and the last of the chain).
\<close>

datatype iq_result =
    IqBounce nat
  | IqReply int sys_data "addr \<times> addr"

definition room_reply :: "ctx \<Rightarrow> int \<Rightarrow> iq_result" where
  "room_reply c t = IqReply t (SysRoom (cx_room c)) (0, 0)"

text \<open>The check of the privilege to read or change the configuration or the affiliations.\<close>

definition refuse_below :: "int \<Rightarrow> addr option \<Rightarrow> ctx \<Rightarrow> nat option" where
  "refuse_below affiliation sender c =
     (case sender of
        None \<Rightarrow> Some ERROR_EXTERNAL_IQ
      | Some s \<Rightarrow> if p_affiliation (occupant (cx_room c) s) < affiliation then Some ERROR_PRIVILEGE_LEVEL else None)"

definition iq_get :: "addr option \<Rightarrow> query \<Rightarrow> ctx \<Rightarrow> iq_result run" where
  "iq_get sender q c =
     (case q of (xmlns, node, is_empty) \<Rightarrow>
        if xmlns = disco_info_ns then Ret (room_reply c BUILD_IQ_ROOM_DISCO_INFO)
        else if xmlns = disco_items_ns then
          Ret (if has_flag (cx_room c) MUC_FLAG_PUBLICPARTICIPANTS then room_reply c BUILD_IQ_ROOM_DISCO_ITEMS
               else IqBounce ERROR_NOT_IMPLEMENTED)
        else if xmlns = muc_admin_ns then
          (if is_empty then Ret (IqBounce ERROR_IQ_BAD)
           else
             case refuse_below AFFIL_ADMIN sender c of
               Some e \<Rightarrow> Ret (IqBounce e)
             | None \<Rightarrow>
                 bind_run (next_muc_admin_item (ip_mem (cx_in c)) node) (\<lambda>(res, t, _).
                   Ret (if res \<le> 0 \<or> at_affiliation t = AFFIL_UNCHANGED \<or> at_affiliation t = AFFIL_NONE
                        then IqBounce ERROR_IQ_BAD
                        else IqReply BUILD_IQ_ROOM_AFFILIATIONS
                               (SysMucItems (at_affiliation t)
                                 (dls_values (room_affiliations (cx_room c) ! nat (at_affiliation t)))) (0, 0))))
        else if xmlns = muc_owner_ns then
          (case refuse_below AFFIL_OWNER sender c of
             Some e \<Rightarrow> Ret (IqBounce e)
           | None \<Rightarrow> Ret (room_reply c BUILD_IQ_ROOM_CONFIG))
        else Ret (IqReply 0 SysNone (0, 0)))"

subsection \<open>Changing roles and affiliations\<close>

type_synonym affected = "addr \<times> addr"

definition affect :: "addr \<Rightarrow> bytes option \<Rightarrow> room \<times> affected \<Rightarrow> room \<times> affected" where
  "affect a reason_node st =
     (case participant_set_affected (room_participants (fst st)) (snd st) a reason_node of
        (l, ch) \<Rightarrow> ((fst st)\<lparr>room_participants := l\<rparr>, ch))"

definition admin_target_bad :: "admin_target \<Rightarrow> bool" where
  "admin_target_bad t \<longleftrightarrow>
     (at_role t \<noteq> ROLE_UNCHANGED \<and> buffer_size (at_nick t) = 0) \<or>
     (at_affiliation t \<noteq> AFFIL_UNCHANGED \<and> jid_empty (at_jid t)) \<or>
     (at_role t = ROLE_UNCHANGED) = (at_affiliation t = AFFIL_UNCHANGED)"

definition may_change_role :: "participant \<Rightarrow> participant \<Rightarrow> int \<Rightarrow> bool" where
  "may_change_role sender receiver role \<longleftrightarrow>
     \<not> (p_affiliation receiver \<ge> AFFIL_ADMIN \<or>
        (p_affiliation sender < AFFIL_ADMIN \<and> (p_role receiver \<ge> ROLE_MODERATOR \<or> role \<ge> ROLE_MODERATOR)))"

definition change_role :: "addr \<Rightarrow> admin_target \<Rightarrow> room \<times> affected \<Rightarrow> nat option \<times> room \<times> affected" where
  "change_role sender t st =
     (if at_role t = ROLE_UNCHANGED then (None, st)
      else
        (case participants_find_by_nick (room_participants (fst st)) (at_nick t) of
           None \<Rightarrow> (Some ERROR_RECIPIENT_NOT_IN_ROOM, st)
         | Some receiver \<Rightarrow>
             if \<not> may_change_role (occupant (fst st) sender) (occupant (fst st) receiver) (at_role t)
             then (Some ERROR_PRIVILEGE_LEVEL, st)
             else (None, affect receiver (at_reason_node t)
                     (update_participant receiver (\<lambda>p. p\<lparr>p_role := at_role t\<rparr>) (fst st), snd st))))"

text \<open>The loop that gives every occupant the affiliation the lists now have for him.\<close>

definition refresh_role :: "int \<Rightarrow> int" where
  "refresh_role affiliation =
     (if affiliation \<ge> AFFIL_ADMIN then ROLE_MODERATOR
      else if affiliation = AFFIL_OUTCAST then ROLE_NONE else ROLE_PARTICIPANT)"

fun refresh_affiliations ::
  "platform \<Rightarrow> acl_config \<Rightarrow> bytes option \<Rightarrow> addr list \<Rightarrow> room \<times> affected \<Rightarrow> (room \<times> affected) run" where
  "refresh_affiliations P acl reason_node [] st = Ret st"
| "refresh_affiliations P acl reason_node (a # as) st =
     bind_run (affiliationss_get_by_jid (pf_pun P (room_affiliations (fst st))) acl
                 (p_jid (occupant (fst st) a))) (\<lambda>affiliation.
       refresh_affiliations P acl reason_node as
         (if affiliation \<noteq> p_affiliation (occupant (fst st) a) then
            affect a reason_node
              (update_participant a
                 (\<lambda>p. p\<lparr>p_role := refresh_role affiliation, p_affiliation := affiliation\<rparr>) (fst st), snd st)
          else st))"

definition change_affiliation ::
  "platform \<Rightarrow> acl_config \<Rightarrow> addr \<Rightarrow> admin_target \<Rightarrow> room \<times> affected \<Rightarrow> (nat option \<times> room \<times> affected) run" where
  "change_affiliation P acl sender t st =
     (if at_affiliation t = AFFIL_UNCHANGED then Ret (None, st)
      else if p_affiliation (occupant (fst st) sender) < AFFIL_ADMIN then Ret (Some ERROR_PRIVILEGE_LEVEL, st)
      else
        (case affiliationss_add (pf_utlist P) (room_affiliations (fst st)) (Some (occupant (fst st) sender))
                (at_affiliation t) (at_jid t) (at_reason_node t) of
           (affs, False) \<Rightarrow> Ret (Some ERROR_PRIVILEGE_LEVEL, st)
         | (affs, True) \<Rightarrow>
             let r = (fst st)\<lparr>room_affiliations := affs\<rparr> in
             bind_run (refresh_affiliations P acl (at_reason_node t) (occupants r) (r, snd st)) (\<lambda>st'.
               Ret (None, st'))))"

definition admin_step ::
  "platform \<Rightarrow> acl_config \<Rightarrow> addr \<Rightarrow> admin_target \<Rightarrow> room \<times> affected \<Rightarrow> (nat option \<times> room \<times> affected) run" where
  "admin_step P acl sender t st =
     (if admin_target_bad t then Ret (Some ERROR_IQ_BAD, st)
      else
        (case change_role sender t st of
           (Some e, st1) \<Rightarrow> Ret (Some e, st1)
         | (None, st1) \<Rightarrow> change_affiliation P acl sender t st1))"

function admin_loop ::
  "platform \<Rightarrow> acl_config \<Rightarrow> addr \<Rightarrow> bytes \<Rightarrow> nat \<times> nat \<Rightarrow> room \<times> affected \<Rightarrow> (nat option \<times> room \<times> affected) run" where
  "admin_loop P acl sender m (d, e) st =
     bind_run (next_muc_admin_item m (d, e)) (\<lambda>(admin_state, t, rest).
       if admin_state = 0 then Ret (None, st)
       else if admin_state < 0 then Ret (Some ERROR_IQ_BAD, st)
       else bind_run (admin_step P acl sender t st) (\<lambda>(error, st').
         case error of Some err \<Rightarrow> Ret (Some err, st') | None \<Rightarrow> admin_loop P acl sender m rest st'))"
  by pat_completeness auto
termination
  by (relation "measure (\<lambda>(P, acl, sender, m, (d, e), st). length m - d)")
    (auto dest!: admin_item_progress)

declare admin_loop.simps [simp del]

definition iq_set_admin :: "platform \<Rightarrow> acl_config \<Rightarrow> addr option \<Rightarrow> query \<Rightarrow> ctx \<Rightarrow> (room \<times> iq_result) run" where
  "iq_set_admin P acl sender q c =
     (case q of (_, node, is_empty) \<Rightarrow>
        if is_empty then Ret (cx_room c, IqBounce ERROR_IQ_BAD)
        else
          case sender of
            None \<Rightarrow> Ret (cx_room c, IqBounce ERROR_EXTERNAL_IQ)
          | Some s \<Rightarrow>
              if p_role (occupant (cx_room c) s) < ROLE_MODERATOR
              then Ret (cx_room c, IqBounce ERROR_PRIVILEGE_LEVEL)
              else
                bind_run (admin_loop P acl s (ip_mem (cx_in c)) node (cx_room c, 0, 0)) (\<lambda>(error, r, ch).
                  Ret (r, case error of Some e \<Rightarrow> IqBounce e
                          | None \<Rightarrow> IqReply BUILD_IQ_ROOM_AFFILIATIONS (SysMucItems 0 []) ch)))"

subsection \<open>Destroying and configuring\<close>

text \<open>The loops over all occupants.\<close>

fun affect_all :: "(participant \<Rightarrow> bool) \<Rightarrow> (participant \<Rightarrow> participant) \<Rightarrow> bytes option \<Rightarrow> addr list \<Rightarrow>
    room \<times> affected \<Rightarrow> room \<times> affected" where
  "affect_all test f reason_node [] st = st"
| "affect_all test f reason_node (a # as) st =
     affect_all test f reason_node as
       (if test (occupant (fst st) a)
        then affect a reason_node (update_participant a f (fst st), snd st) else st)"

definition members_only_reason :: bytes where
  "members_only_reason = ''<reason>Room policy switched to members-only</reason>''"

definition destroy_room :: "bytes option \<Rightarrow> room \<Rightarrow> room \<times> iq_result" where
  "destroy_room node r =
     (let st = affect_all (\<lambda>_. True) (\<lambda>p. p\<lparr>p_role := ROLE_NONE, p_affiliation := AFFIL_NONE\<rparr>) None
                 (occupants r) (set_flag MUC_FLAG_DESTROYED r, 0, 0)
      in (fst st, IqReply BUILD_IQ_EMPTY
            (if occupants r = [] then SysNone else SysPresence (mu_zero\<lparr>mu_resume := node\<rparr>)) (snd st)))"

definition enforce_members_only :: "room \<Rightarrow> room \<times> affected" where
  "enforce_members_only r =
     (if has_flag r MUC_FLAG_MEMBERSONLY then
        affect_all (\<lambda>p. p_affiliation p < AFFIL_MEMBER) (\<lambda>p. p\<lparr>p_role := ROLE_NONE\<rparr>)
          (Some members_only_reason) (occupants r) (r, 0, 0)
      else (r, 0, 0))"

definition configure_room :: "bytes \<Rightarrow> int \<Rightarrow> sibling \<Rightarrow> room \<Rightarrow> (room \<times> iq_result) run" where
  "configure_room m acl sib r =
     bind_run (xmlfsm_skip_attrs m (fst (sib_node sib))) (\<lambda>(has_content, d).
     bind_run (if has_content then room_config_parse m r (d, snd (sib_node sib)) acl else Ret r) (\<lambda>r'.
       let st = enforce_members_only r' in Ret (fst st, IqReply BUILD_IQ_EMPTY SysNone (snd st))))"

definition owner_node :: "bytes \<Rightarrow> acl_config \<Rightarrow> addr \<Rightarrow> sibling \<Rightarrow> room \<times> iq_result \<Rightarrow>
    ((room \<times> iq_result) \<times> bool) run" where
  "owner_node m acl sender sib st =
     (let r = fst st in
      if slice_of m (sib_name sib) = ''destroy'' then
        Ret (destroy_room (Some (slice_of m (sib_start sib, snd (sib_node sib)))) r, True)
      else if slice_of m (sib_name sib) = ''x'' then
        bind_run (configure_room m (acl_role acl (p_jid (occupant r sender))) sib r) (\<lambda>st'. Ret (st', True))
      else Ret (st, False))"

definition iq_set_owner :: "acl_config \<Rightarrow> addr option \<Rightarrow> query \<Rightarrow> ctx \<Rightarrow> (room \<times> iq_result) run" where
  "iq_set_owner acl sender q c =
     (case q of (_, node, is_empty) \<Rightarrow>
        if is_empty then Ret (cx_room c, IqBounce ERROR_IQ_BAD)
        else
          case sender of
            None \<Rightarrow> Ret (cx_room c, IqBounce ERROR_EXTERNAL_IQ)
          | Some s \<Rightarrow>
              if p_affiliation (occupant (cx_room c) s) < AFFIL_OWNER
              then Ret (cx_room c, IqBounce ERROR_PRIVILEGE_LEVEL)
              else
                bind_run (sibling_loop (owner_node (ip_mem (cx_in c)) acl s) (ip_mem (cx_in c)) node
                            (cx_room c, IqReply 0 SysNone (0, 0))) (\<lambda>(st, _). Ret st))"

subsection \<open>The affected occupants\<close>

text \<open>The role an affected occupant ends with, and the status codes his presence carries.\<close>

definition affected_outcome :: "room \<Rightarrow> participant \<Rightarrow> int \<times> 32 word" where
  "affected_outcome r p =
     (if has_flag r MUC_FLAG_DESTROYED then (ROLE_NONE, 0)
      else if p_affiliation p = AFFIL_OUTCAST then (ROLE_NONE, STATUS_BANNED)
      else if has_flag r MUC_FLAG_MEMBERSONLY \<and> p_affiliation p < AFFIL_MEMBER
      then (ROLE_NONE, STATUS_NONMEMBER_REMOVED)
      else if p_role p = ROLE_NONE then (ROLE_NONE, STATUS_KICKED)
      else (p_role p, 0))"

definition settle_affected :: "platform \<Rightarrow> addr \<Rightarrow> ctx \<Rightarrow> ctx" where
  "settle_affected P a c =
     (case affected_outcome (cx_room c) (occupant (cx_room c) a) of (role, codes) \<Rightarrow>
        let c1 = set_room (update_participant a (\<lambda>p. p\<lparr>p_included := False, p_role := role,
                   p_presence := (if role = ROLE_NONE then None else p_presence p)\<rparr>)) c;
            c2 = room_broadcast_presence a None codes c1;
            c3 = set_room (update_participant a (\<lambda>p. p\<lparr>p_reason_node := None\<rparr>)) c2
        in if role = ROLE_NONE then set_room (\<lambda>r. room_leave (pf_utlist P) r a) c3 else c3)"

text \<open>
  The loop follows the chain. It is given one step more than there are occupants, which is
  enough (\<open>affected_loop_returns\<close>).
\<close>

fun affected_loop :: "platform \<Rightarrow> nat \<Rightarrow> addr \<Rightarrow> ctx \<Rightarrow> ctx run" where
  "affected_loop P 0 current c = Fault Unbounded"
| "affected_loop P (Suc n) current c =
     (if current = 0 then Ret c
      else affected_loop P n (p_next_affected (occupant (cx_room c) current)) (settle_affected P current c))"

subsection \<open>Dispatch\<close>

definition iq_finish :: "platform \<Rightarrow> iq_result \<Rightarrow> ctx \<Rightarrow> ctx run" where
  "iq_finish P result c =
     (case result of
        IqBounce e \<Rightarrow> worker_bounce e c
      | IqReply t d ch \<Rightarrow>
          if t = 0 then worker_bounce ERROR_NOT_IMPLEMENTED c
          else
            bind_run (with_cleanup PACKET_CLEANUP_SWITCH_FROM_TO c) (\<lambda>c1.
              affected_loop P (Suc (length (occupants (cx_room c1)))) (fst ch)
                (emit [bp_zero\<lparr>bp_type := STANZA_IQ_RESULT, bp_iq_type := t, bp_sys_data := d\<rparr>] c1)))"

definition iq_query :: "platform \<Rightarrow> acl_config \<Rightarrow> addr option \<Rightarrow> query \<Rightarrow> ctx \<Rightarrow> (room \<times> iq_result) run" where
  "iq_query P acl sender q c =
     (if ip_type (cx_in c) = STANZA_IQ_GET then
        bind_run (iq_get sender q c) (\<lambda>res. Ret (cx_room c, res))
      else if ip_type (cx_in c) = STANZA_IQ_SET \<and> fst q = muc_admin_ns then iq_set_admin P acl sender q c
      else if ip_type (cx_in c) = STANZA_IQ_SET \<and> fst q = muc_owner_ns then iq_set_owner acl sender q c
      else Ret (cx_room c, IqReply 0 SysNone (0, 0)))"

definition route_iq :: "platform \<Rightarrow> acl_config \<Rightarrow> ctx \<Rightarrow> ctx run" where
  "route_iq P acl c =
     (let sender = find_sender c in
      if jid_resource (ip_proxy_to (cx_in c)) \<noteq> None then route_iq_occupant sender c
      else
        bind_run (find_query (ip_mem (cx_in c)) (ip_inner (cx_in c))) (\<lambda>found.
          case found of
            None \<Rightarrow> worker_bounce ERROR_IQ_BAD c
          | Some q \<Rightarrow>
              bind_run (iq_query P acl sender q c) (\<lambda>(r, result).
                iq_finish P result (c\<lparr>cx_room := r\<rparr>))))"

definition error_status :: bytes where
  "error_status =
     ''<status>This occupant is kicked from the room because he sent an error stanza</status>''"

definition kick_for_error :: "platform \<Rightarrow> addr \<Rightarrow> ctx \<Rightarrow> ctx run" where
  "kick_for_error P sender c =
     bind_run (with_cleanup PACKET_CLEANUP_FROM_TO
       (set_room (update_participant sender (\<lambda>p. p\<lparr>p_presence := Some error_status, p_role := ROLE_NONE\<rparr>)) c))
       (\<lambda>c1. Ret (set_room (\<lambda>r. room_leave (pf_utlist P)
          (update_participant sender (\<lambda>p. p\<lparr>p_presence := None\<rparr>) r) sender)
          (room_broadcast_presence sender None 0 c1)))"

definition room_route :: "platform \<Rightarrow> acl_config \<Rightarrow> int \<Rightarrow> int \<Rightarrow> int \<Rightarrow> ctx \<Rightarrow> ctx run" where
  "room_route P acl deciseconds_limit now now' c =
     (if ip_type (cx_in c) = STANZA_ERROR \<and> ip_name (cx_in c) \<noteq> STANZA_IQ then
        (case find_sender c of None \<Rightarrow> Ret c | Some s \<Rightarrow> kick_for_error P s c)
      else if ip_name (cx_in c) = STANZA_MESSAGE then route_message P deciseconds_limit now now' c
      else if ip_name (cx_in c) = STANZA_PRESENCE then route_presence P acl c
      else if ip_name (cx_in c) = STANZA_IQ then route_iq P acl c
      else Ret c)"

end
