(* ===== verification/Route_Correct.thy ===== *)
theory Route_Correct
  imports Routing
begin

text \<open>
  What the routing of stanzas (\<open>Routing\<close>) guarantees: the invariant of the occupants, who may
  enter, speak and change roles, who receives what, and where the code leaves the paths it means
  to take.
\<close>

subsection \<open>The steps of a handler\<close>

lemma set_room_simps [simp]:
  "cx_room (set_room f c) = f (cx_room c)" "cx_in (set_room f c) = cx_in c" "cx_out (set_room f c) = cx_out c"
  by (simp_all add: set_room_def)

lemma broadcast_simps [simp]:
  "cx_room (room_broadcast_presence a n s c) = cx_room c" "cx_in (room_broadcast_presence a n s c) = cx_in c"
  "cx_room (room_presences_send a c) = cx_room c" "cx_in (room_presences_send a c) = cx_in c"
  "cx_room (room_subject_send a c) = cx_room c" "cx_in (room_subject_send a c) = cx_in c"
  by (simp_all add: room_broadcast_presence_def room_presences_send_def room_subject_send_def Let_def)

text \<open>A bounce changes nothing but the packets: one more, an error to the sender.\<close>

definition bounced :: "nat \<Rightarrow> ctx \<Rightarrow> ctx \<Rightarrow> bool" where
  "bounced e c c' \<longleftrightarrow> cx_room c' = cx_room c \<and>
     (\<exists>p. cx_out c' = cx_out c @ [p] \<and> bp_type p = STANZA_ERROR \<and> bp_name p = ip_name (cx_in c) \<and>
        bp_from_node p = room_node (cx_room c) \<and> bp_sys_data p = SysError (error_definitions ! e))"

lemma cleanup_keeps:
  "packet_cleanup p mode = Ret p' \<Longrightarrow> \<exists>m. p' = p\<lparr>ip_mem := m\<rparr>"
  by (auto simp: packet_cleanup_def)

lemma with_cleanup_keeps:
  "with_cleanup mode c = Ret c' \<Longrightarrow>
   cx_room c' = cx_room c \<and> cx_out c' = cx_out c \<and> (\<exists>m. cx_in c' = (cx_in c)\<lparr>ip_mem := m\<rparr>)"
  by (auto simp: with_cleanup_def dest!: cleanup_keeps)

lemma bounce_keeps: "worker_bounce e c = Ret c' \<Longrightarrow> bounced e c c'"
  by (auto simp: worker_bounce_def bounce_packet_def bounced_def bp_zero_def dest!: cleanup_keeps)

lemma bounced_room: "bounced e c c' \<Longrightarrow> cx_room c' = cx_room c"
  by (simp add: bounced_def)

subsection \<open>The invariant of the occupants\<close>

definition occupants_wf :: "room \<Rightarrow> bool" where
  "occupants_wf r \<longleftrightarrow>
     dls_linked (room_participants r) \<and> 0 \<notin> set (occupants r) \<and> inj_on (nick_of r) (set (occupants r))"

lemma room_wf_occupants: "room_wf r \<Longrightarrow> 0 \<notin> set (occupants r) \<Longrightarrow> occupants_wf r"
  by (simp add: room_wf_def occupants_wf_def)

lemma occupants_wf_cong:
  "occupants_wf r \<Longrightarrow> occupants r' = occupants r \<Longrightarrow>
   (\<And>a. a \<in> set (occupants r) \<Longrightarrow> nick_of r' a = nick_of r a) \<Longrightarrow> occupants_wf r'"
  using inj_on_cong [of "set (occupants r)" "nick_of r'" "nick_of r"]
  by (simp add: occupants_wf_def dls_linked_def occupants_def)

lemma nick_of_update:
  "p_nick (f (occupant r a)) = p_nick (occupant r a) \<Longrightarrow> nick_of (update_participant a f r) b = nick_of r b"
  by (simp add: nick_of_def)

lemma same_participants:
  assumes "room_participants r' = room_participants r"
  shows "occupants r' = occupants r" and "occupant r' = occupant r" and "nick_of r' = nick_of r"
  using assms by (auto simp: occupants_def occupant_def nick_of_def)

lemma occupants_wf_same: "room_participants r' = room_participants r \<Longrightarrow> occupants_wf r' = occupants_wf r"
  unfolding occupants_wf_def by (metis same_participants)

context utlist_laws
begin

lemma occupants_wf_join:
  assumes wf: "occupants_wf r" and join: "room_join U r j nick affiliation = (r', a)"
    and size: "buffer_size nick \<le> MAX_JID_PART_SIZE"
    and free: "participants_find_by_nick (room_participants r) nick = None"
  shows "occupants_wf r'"
proof -
  note e = room_join_effect [OF join size]
  have old: "nick_of r' b = nick_of r b" if "b \<in> set (occupants r)" for b
    using e(4) [OF that] by (simp add: nick_of_def)
  then have "inj_on (nick_of r') (set (occupants r)) = inj_on (nick_of r) (set (occupants r))"
    by (rule inj_on_cong)
  moreover have "nick_of r' b \<noteq> nick_of r' a" if "b \<in> set (occupants r)" for b
    using free that by (simp add: find_by_nick_free e(5) old)
  ultimately have "inj_on (nick_of r') (set (occupants r'))"
    using wf unfolding e(1) by (auto simp: occupants_wf_def inj_on_insert) (metis)
  then show ?thesis
    using wf e(1,2,3) by (auto simp: occupants_wf_def dls_linked_def occupants_def)
qed

lemma occupants_wf_leave:
  assumes "occupants_wf r" and "a \<in> set (occupants r)"
  shows "occupants_wf (room_leave U r a)"
proof -
  have lk: "dls_linked (room_participants r)" using assms by (simp add: occupants_wf_def)
  note e = room_leave_effect [OF lk assms(2)]
  have "nick_of (room_leave U r a) = nick_of r" by (rule ext) (simp add: nick_of_def e)
  moreover have "set (occupants (room_leave U r a)) \<subseteq> set (occupants r)"
    by (simp add: e set_remove1_subset)
  moreover have "dls_linked (room_participants (room_leave U r a))"
    using e(1) lk by (simp add: dls_linked_def occupants_def)
  ultimately show ?thesis using assms(1) by (auto simp: occupants_wf_def inj_on_subset)
qed

end

subsection \<open>The chain of affected occupants\<close>

fun follows :: "(addr \<Rightarrow> addr) \<Rightarrow> addr \<Rightarrow> addr list \<Rightarrow> bool" where
  "follows next a [] \<longleftrightarrow> a = 0"
| "follows next a (x # xs) \<longleftrightarrow> a = x \<and> x \<noteq> 0 \<and> follows next (next x) xs"

definition next_of :: "room \<Rightarrow> addr \<Rightarrow> addr" where
  "next_of r a = p_next_affected (occupant r a)"

definition affected_chain :: "room \<Rightarrow> affected \<Rightarrow> addr list \<Rightarrow> bool" where
  "affected_chain r ch xs \<longleftrightarrow>
     distinct xs \<and> set xs \<subseteq> set (occupants r) \<and> (\<forall>a \<in> set xs. p_included (occupant r a)) \<and>
     follows (next_of r) (fst ch) xs \<and> (xs \<noteq> [] \<longrightarrow> snd ch = last xs)"

lemma follows_cong:
  "(\<And>x. x \<in> set xs \<Longrightarrow> f x = g x) \<Longrightarrow> follows f a xs = follows g a xs"
  by (induction xs arbitrary: a) auto

lemma follows_snoc:
  "follows f a xs \<Longrightarrow> distinct xs \<Longrightarrow> xs \<noteq> [] \<Longrightarrow> b \<noteq> 0 \<Longrightarrow> b \<notin> set xs \<Longrightarrow>
   follows (f(b := 0, last xs := b)) a (xs @ [b])"
proof (induction xs arbitrary: a)
  case Nil
  then show ?case by simp
next
  case (Cons x xs)
  show ?case
  proof (cases "xs = []")
    case True
    with Cons.prems show ?thesis by auto
  next
    case False
    have "follows (f(b := 0, last xs := b)) (f x) (xs @ [b])"
      using Cons.prems False by (intro Cons.IH) auto
    moreover have "last xs \<noteq> x" using Cons.prems(2) False by auto
    ultimately show ?thesis using Cons.prems False by (auto simp del: fun_upd_apply) auto
  qed
qed

lemma follows_null: "follows f 0 xs \<longleftrightarrow> xs = []"
  by (cases xs) auto

lemma affected_chain_empty [simp]: "affected_chain r (0, 0) []"
  by (simp add: affected_chain_def)

lemma affected_chain_update:
  assumes "affected_chain r ch xs"
    and "p_included (f (occupant r a)) = p_included (occupant r a)"
    and "p_next_affected (f (occupant r a)) = p_next_affected (occupant r a)"
  shows "affected_chain (update_participant a f r) ch xs"
proof -
  have "next_of (update_participant a f r) = next_of r" using assms(3) by (auto simp: next_of_def)
  then show ?thesis using assms(1,2) by (auto simp: affected_chain_def)
qed

lemma affected_chain_same:
  "room_participants r' = room_participants r \<Longrightarrow> affected_chain r' ch xs = affected_chain r ch xs"
proof -
  assume r: "room_participants r' = room_participants r"
  have "next_of r' = next_of r" by (auto simp: next_of_def same_participants [OF r])
  then show ?thesis by (simp add: affected_chain_def same_participants [OF r])
qed

text \<open>What \<open>affect\<close> leaves alone.\<close>

definition visible :: "participant \<Rightarrow> jid \<times> bytes option \<times> int \<times> int \<times> bytes option" where
  "visible p = (p_jid p, p_nick p, p_affiliation p, p_role p, p_presence p)"

lemma set_affected_frame:
  "participant_set_affected l ch a reason = (l', ch') \<Longrightarrow>
   dls_head l' = dls_head l \<and> dls_size l' = dls_size l \<and> dls_max_size l' = dls_max_size l \<and>
   visible (dls_cell l' b) = visible (dls_cell l b)"
  by (auto simp: participant_set_affected_def visible_def Let_def split: prod.splits if_splits)

lemma affect_frame:
  assumes "affect a reason (r, ch) = (r', ch')"
  shows "occupants r' = occupants r" and "nick_of r' = nick_of r"
    and "visible (occupant r' b) = visible (occupant r b)"
    and "room_affiliations r' = room_affiliations r" and "room_flags r' = room_flags r"
    and "room_history r' = room_history r" and "room_node r' = room_node r"
    and "dls_size (room_participants r') = dls_size (room_participants r)"
proof -
  obtain l where l: "participant_set_affected (room_participants r) ch a reason = (l, ch')"
    and r': "r' = r\<lparr>room_participants := l\<rparr>"
    using assms by (auto simp: affect_def split: prod.splits)
  have v: "visible (occupant r' b) = visible (occupant r b)" for b
    using set_affected_frame [OF l, of b] by (simp add: occupant_def r')
  show "visible (occupant r' b) = visible (occupant r b)" by (rule v)
  have "nick_of r' b = nick_of r b" for b using v [of b] by (simp add: nick_of_def visible_def)
  then show "nick_of r' = nick_of r" by (rule ext)
  show "occupants r' = occupants r" "dls_size (room_participants r') = dls_size (room_participants r)"
    using set_affected_frame [OF l] by (simp_all add: occupants_def r')
qed (use assms in \<open>auto simp: affect_def split: prod.splits\<close>)

definition marked :: "bytes option \<Rightarrow> participant \<Rightarrow> participant" where
  "marked reason p = p\<lparr>p_included := True, p_reason_node := reason, p_next_affected := 0\<rparr>"

definition linked_to :: "addr \<Rightarrow> participant \<Rightarrow> participant" where
  "linked_to a p = p\<lparr>p_next_affected := a\<rparr>"

lemma affect_included:
  "p_included (occupant r a) \<Longrightarrow> affect a reason (r, ch) = (r, ch)"
  by (simp add: affect_def participant_set_affected_def occupant_def split: prod.split)

lemma affect_new:
  assumes "\<not> p_included (occupant r a)"
  shows "affect a reason (r, first, cur) =
    (if first \<noteq> 0 then (update_participant cur (linked_to a) (update_participant a (marked reason) r), first, a)
     else (update_participant a (marked reason) r, a, a))"
  using assms
  by (simp add: affect_def participant_set_affected_def occupant_def Let_def update_participant_def
    marked_def [abs_def] linked_to_def [abs_def])

lemma affect_chain:
  assumes ch: "affected_chain r ch xs" and a: "a \<in> set (occupants r)" and null: "0 \<notin> set (occupants r)"
    and "affect a reason (r, ch) = (r', ch')"
  shows "affected_chain r' ch' (if p_included (occupant r a) then xs else xs @ [a])"
proof (cases "p_included (occupant r a)")
  case True
  with ch assms(4) show ?thesis by (simp add: affect_included)
next
  case False
  obtain first cur where c: "ch = (first, cur)" by fastforce
  have new: "a \<notin> set xs" using ch False by (auto simp: affected_chain_def)
  have a0: "0 < a" using a null by (metis gr0I)
  show ?thesis
  proof (cases "xs = []")
    case True
    then have "first = 0" using ch c by (simp add: affected_chain_def)
    then show ?thesis using assms(4) True False a a0 c
      by (auto simp: affect_new [OF False] affected_chain_def next_of_def marked_def)
  next
    case ne: False
    then have f: "first \<noteq> 0" and l: "cur = last xs"
      using ch c ne by (cases xs; simp add: affected_chain_def)+
    have r': "r' = update_participant (last xs) (linked_to a) (update_participant a (marked reason) r)"
      and ch': "ch' = (first, a)"
      using assms(4) c f l by (simp_all add: affect_new [OF False])
    have al: "a \<noteq> last xs" using new ne by auto
    then have "next_of r' = (next_of r)(a := 0, last xs := a)"
      unfolding r' by (auto simp: next_of_def marked_def linked_to_def)
    moreover have "p_included (occupant r' b)" if "b = a \<or> p_included (occupant r b)" for b
      using that al unfolding r' by (auto simp: marked_def linked_to_def)
    moreover have "occupants r' = occupants r" by (simp add: r')
    ultimately show ?thesis
      using ch c ch' False ne new a a0 follows_snoc [of "next_of r" first xs a]
      by (auto simp: affected_chain_def simp del: fun_upd_apply)
  qed
qed

subsection \<open>What administrative queries keep\<close>

text \<open>
  Between two steps of a query the room still has the occupants it had, under the same
  nicknames, and the chain is a list of some of them.
\<close>

definition query_inv :: "room \<Rightarrow> room \<times> affected \<Rightarrow> bool" where
  "query_inv r0 st \<longleftrightarrow>
     occupants (fst st) = occupants r0 \<and> nick_of (fst st) = nick_of r0 \<and>
     room_history (fst st) = room_history r0 \<and> room_node (fst st) = room_node r0 \<and>
     dls_size (room_participants (fst st)) = dls_size (room_participants r0) \<and>
     (\<exists>xs. affected_chain (fst st) (snd st) xs)"

lemma query_inv_start: 
  "occupants r = occupants r0 \<Longrightarrow> occupant r = occupant r0 \<Longrightarrow> room_history r = room_history r0 \<Longrightarrow>
   room_node r = room_node r0 \<Longrightarrow> dls_size (room_participants r) = dls_size (room_participants r0) \<Longrightarrow>
   query_inv r0 (r, 0, 0)"
  by (auto simp: query_inv_def nick_of_def fun_eq_iff intro: exI [of _ "[]"])

lemma query_inv_affect:
  assumes "query_inv r0 st" and "a \<in> set (occupants r0)" and "0 \<notin> set (occupants r0)"
  shows "query_inv r0 (affect a reason st)"
proof -
  obtain r ch where st: "st = (r, ch)" by (cases st)
  obtain r' ch' where e: "affect a reason (r, ch) = (r', ch')" by (cases "affect a reason (r, ch)")
  obtain xs where "affected_chain r ch xs" and occ: "occupants r = occupants r0"
    using assms(1) by (auto simp: st query_inv_def)
  then have "\<exists>xs. affected_chain r' ch' xs" using affect_chain [OF _ _ _ e] assms(2,3) by auto
  then show ?thesis using assms(1) affect_frame [OF e] by (simp add: st e query_inv_def)
qed

lemma query_inv_update:
  assumes "query_inv r0 (r, ch)"
    and "\<And>p. p_nick (f p) = p_nick p \<and> p_included (f p) = p_included p \<and> p_next_affected (f p) = p_next_affected p"
  shows "query_inv r0 (update_participant a f r, ch)"
proof -
  have "nick_of (update_participant a f r) = nick_of r" using assms(2) by (auto simp: nick_of_def)
  then show ?thesis using assms affected_chain_update [of r ch _ f a] by (auto simp: query_inv_def)
qed

lemma query_inv_affs: "query_inv r0 (r, ch) \<Longrightarrow> query_inv r0 (r\<lparr>room_affiliations := affs\<rparr>, ch)"
  using affected_chain_same [of "r\<lparr>room_affiliations := affs\<rparr>" r ch]
  by (simp add: query_inv_def same_participants [of "r\<lparr>room_affiliations := affs\<rparr>" r])

lemma query_inv_role:
  assumes "query_inv r0 st" and "0 \<notin> set (occupants r0)" and "change_role sender t st = (e, st')"
  shows "query_inv r0 st'"
proof (cases "st' = st")
  case False
  then obtain b where b: "participants_find_by_nick (room_participants (fst st)) (at_nick t) = Some b"
    and st': "st' = affect b (at_reason_node t)
      (update_participant b (\<lambda>p. p\<lparr>p_role := at_role t\<rparr>) (fst st), snd st)"
    using assms(3) by (auto simp: change_role_def split: if_splits option.splits)
  have "b \<in> set (occupants r0)"
    using find_by_nick_occupant [OF b] assms(1) by (simp add: query_inv_def)
  moreover have "query_inv r0 (update_participant b (\<lambda>p. p\<lparr>p_role := at_role t\<rparr>) (fst st), snd st)"
    using assms(1) by (intro query_inv_update) simp_all
  ultimately show ?thesis unfolding st' using assms(2) by (intro query_inv_affect)
qed (use assms in simp)

lemma query_inv_refresh:
  "refresh_affiliations P acl reason as st = Ret st' \<Longrightarrow> query_inv r0 st \<Longrightarrow> 0 \<notin> set (occupants r0) \<Longrightarrow>
   set as \<subseteq> set (occupants r0) \<Longrightarrow> query_inv r0 st'"
proof (induction P acl reason "as" st rule: refresh_affiliations.induct)
  case (2 P acl reason a as' st)
  then obtain v where v: "affiliationss_get_by_jid (pf_pun P (room_affiliations (fst st))) acl (p_jid (occupant (fst st) a)) = Ret v"
    and r: "refresh_affiliations P acl reason as'
         (if v \<noteq> p_affiliation (occupant (fst st) a) then
            affect a reason (update_participant a
               (\<lambda>p. p\<lparr>p_role := refresh_role v, p_affiliation := v\<rparr>) (fst st), snd st) else st) = Ret st'"
    by auto
  have "query_inv r0 (if v \<noteq> p_affiliation (occupant (fst st) a) then
            affect a reason (update_participant a
               (\<lambda>p. p\<lparr>p_role := refresh_role v, p_affiliation := v\<rparr>) (fst st), snd st) else st)"
    using 2(3-5) by (auto intro!: query_inv_affect query_inv_update)
  with 2(1) [OF v r] 2(4,5) show ?case by simp
qed simp

lemma query_inv_affiliation:
  assumes "change_affiliation P acl sender t st = Ret (e, st')" and "query_inv r0 st" and "0 \<notin> set (occupants r0)"
  shows "query_inv r0 st'"
proof -
  obtain r ch where st: "st = (r, ch)" by (cases st)
  show ?thesis
  proof (cases "st' = st")
    case False
    then obtain affs where "refresh_affiliations P acl (at_reason_node t) (occupants (r\<lparr>room_affiliations := affs\<rparr>))
        (r\<lparr>room_affiliations := affs\<rparr>, ch) = Ret st'"
      using assms(1) by (auto simp: change_affiliation_def st Let_def split: if_splits prod.splits bool.splits)
    moreover have "occupants (r\<lparr>room_affiliations := affs\<rparr>) = occupants r0"
      using assms(2) by (simp add: query_inv_def st occupants_def)
    ultimately show ?thesis
      using query_inv_refresh [OF _ query_inv_affs [OF assms(2) [unfolded st]] assms(3)] by simp
  qed (use assms in simp)
qed

lemma query_inv_step:
  "admin_step P acl sender t st = Ret (e, st') \<Longrightarrow> query_inv r0 st \<Longrightarrow> 0 \<notin> set (occupants r0) \<Longrightarrow> query_inv r0 st'"
  by (auto simp: admin_step_def intro: query_inv_role query_inv_affiliation
    split: if_splits prod.splits option.splits)

text \<open>What every step of a list of items keeps is kept by the list.\<close>

lemma admin_loop_invariant:
  assumes step: "\<And>t st e st'. admin_step P acl sender t st = Ret (e, st') \<Longrightarrow> Q st \<Longrightarrow> Q st'"
  shows "admin_loop P acl sender m (d, e) st = Ret (err, st') \<Longrightarrow> Q st \<Longrightarrow> Q st'"
proof (induction "length m - d" arbitrary: d e st rule: less_induct)
  case less
  obtain res t d' e' where item: "next_muc_admin_item m (d, e) = Ret (res, t, d', e')"
    using less.prems(1) by (subst (asm) admin_loop.simps) auto
  show ?case
  proof (cases "res > 0")
    case False
    then show ?thesis using less.prems item by (subst (asm) admin_loop.simps) (auto split: if_splits)
  next
    case True
    then have prog: "d < d'" "d' \<le> length m" using admin_item_progress [OF item] by auto
    obtain error st1 where s: "admin_step P acl sender t st = Ret (error, st1)"
      using less.prems(1) item True by (subst (asm) admin_loop.simps) auto
    have Q1: "Q st1" using step [OF s less.prems(2)] .
    show ?thesis
    proof (cases error)
      case None
      then have "admin_loop P acl sender m (d', e') st1 = Ret (err, st')"
        using less.prems(1) item True s by (subst (asm) admin_loop.simps) auto
      then show ?thesis using less.hyps [of d' e' st1] prog Q1 by force
    next
      case (Some _)
      then show ?thesis
        using less.prems(1) item True s Q1 by (subst (asm) admin_loop.simps) auto
    qed
  qed
qed

lemma query_inv_affect_all:
  "query_inv r0 st \<Longrightarrow> 0 \<notin> set (occupants r0) \<Longrightarrow> set as \<subseteq> set (occupants r0) \<Longrightarrow>
   (\<And>p. p_nick (f p) = p_nick p \<and> p_included (f p) = p_included p \<and> p_next_affected (f p) = p_next_affected p) \<Longrightarrow>
   query_inv r0 (affect_all test f reason as st)"
proof (induction "as" arbitrary: st)
  case (Cons a as)
  have "query_inv r0 (if test (occupant (fst st) a)
      then affect a reason (update_participant a f (fst st), snd st) else st)"
    using Cons.prems by (auto intro!: query_inv_affect query_inv_update)
  then show ?case using Cons by simp
qed simp

text \<open>The chain a result carries.\<close>

fun result_chain :: "iq_result \<Rightarrow> affected" where
  "result_chain (IqBounce e) = (0, 0)"
| "result_chain (IqReply t d ch) = ch"

lemma query_inv_restart:
  "query_inv r0 (r, ch) \<Longrightarrow> occupants r' = occupants r \<Longrightarrow> occupant r' = occupant r \<Longrightarrow>
   room_history r' = room_history r \<Longrightarrow> room_node r' = room_node r \<Longrightarrow>
   dls_size (room_participants r') = dls_size (room_participants r) \<Longrightarrow> query_inv r0 (r', 0, 0)"
  by (auto simp: query_inv_def nick_of_def fun_eq_iff intro: exI [of _ "[]"])

lemma query_inv_destroy:
  assumes "query_inv r0 (r, ch)" and "0 \<notin> set (occupants r0)" and "destroy_room node r = (r', result)"
  shows "query_inv r0 (r', result_chain result)"
proof -
  have "query_inv r0 (set_flag MUC_FLAG_DESTROYED r, 0, 0)"
    by (rule query_inv_restart [OF assms(1)]) (auto simp: occupants_def occupant_def set_flag_def)
  then have "query_inv r0 (affect_all (\<lambda>_. True) (\<lambda>p. p\<lparr>p_role := ROLE_NONE, p_affiliation := AFFIL_NONE\<rparr>)
      None (occupants r) (set_flag MUC_FLAG_DESTROYED r, 0, 0))"
    using assms(1,2) by (intro query_inv_affect_all) (simp_all add: query_inv_def)
  then show ?thesis using assms(3) by (auto simp: destroy_room_def Let_def)
qed

lemma query_inv_members_only:
  assumes "query_inv r0 (r, 0, 0)" and "0 \<notin> set (occupants r0)"
  shows "query_inv r0 (enforce_members_only r)"
proof -
  have "set (occupants r) \<subseteq> set (occupants r0)" using assms(1) by (simp add: query_inv_def)
  then have "query_inv r0 (affect_all (\<lambda>p. p_affiliation p < AFFIL_MEMBER) (\<lambda>p. p\<lparr>p_role := ROLE_NONE\<rparr>)
          (Some members_only_reason) (occupants r) (r, 0, 0))"
    using assms by (intro query_inv_affect_all) simp_all
  then show ?thesis using assms(1) by (simp add: enforce_members_only_def)
qed

lemma query_inv_configure:
  assumes "configure_room m acl sib r = Ret (r', result)" and "query_inv r0 (r, ch)" and "0 \<notin> set (occupants r0)"
  shows "query_inv r0 (r', result_chain result)"
proof -
  obtain has_content d r1 where c: "(if has_content then room_config_parse m r (d, snd (sib_node sib)) acl else Ret r) = Ret r1"
    and e: "(r', result_chain result) = enforce_members_only r1"
    using assms(1) unfolding configure_room_def Let_def by force
  have r1: "configured acl r r1" using c config_parse_configured by (cases has_content) auto
  have "query_inv r0 (r1, 0, 0)"
    by (rule query_inv_restart [OF assms(2)]) (use r1 in \<open>auto simp: configured_def\<close>)
  then show ?thesis using query_inv_members_only [OF _ assms(3)] by (simp add: e)
qed

lemma query_inv_owner_node:
  "owner_node m acl sender sib st = Ret (st', leave) \<Longrightarrow> 0 \<notin> set (occupants r0) \<Longrightarrow>
   query_inv r0 (fst st, result_chain (snd st)) \<Longrightarrow> query_inv r0 (fst st', result_chain (snd st'))"
  by (cases st') (auto simp: owner_node_def Let_def intro: query_inv_destroy query_inv_configure split: if_splits)

lemma query_inv_same [simp]: "query_inv r (r, 0, 0)"
  by (rule query_inv_start) simp_all

lemma iq_set_owner_inv:
  assumes "iq_set_owner acl sender q c = Ret (r', result)" and "0 \<notin> set (occupants (cx_room c))"
  shows "query_inv (cx_room c) (r', result_chain result)"
proof (cases "(r', result) = (cx_room c, IqBounce ERROR_IQ_BAD) \<or> (r', result) = (cx_room c, IqBounce ERROR_EXTERNAL_IQ) \<or>
    (r', result) = (cx_room c, IqBounce ERROR_PRIVILEGE_LEVEL)")
  case False
  then obtain s d e left rest where l: "sibling_loop (owner_node (ip_mem (cx_in c)) acl s) (ip_mem (cx_in c)) (d, e)
      (cx_room c, IqReply 0 SysNone (0, 0)) = Ret ((r', result), left, rest)"
    using assms(1) by (auto simp: iq_set_owner_def split: prod.splits option.splits if_splits)
  have "query_inv (cx_room c) (fst (r', result), result_chain (snd (r', result)))"
    by (rule sibling_loop_invariant [OF _ l, of "\<lambda>st. query_inv (cx_room c) (fst st, result_chain (snd st))"])
      (use query_inv_owner_node assms(2) in auto)
  then show ?thesis by simp
qed auto

lemma iq_set_admin_inv:
  assumes "iq_set_admin P acl sender q c = Ret (r', result)" and "0 \<notin> set (occupants (cx_room c))"
  shows "query_inv (cx_room c) (r', result_chain result)"
proof (cases "r' = cx_room c \<and> result_chain result = (0, 0)")
  case False
  then obtain s d e err ch where l: "admin_loop P acl s (ip_mem (cx_in c)) (d, e) (cx_room c, 0, 0) = Ret (err, r', ch)"
    and res: "result_chain result = (if err = None then ch else (0, 0))"
    using assms(1) by (auto simp: iq_set_admin_def split: prod.splits option.splits if_splits)
  have "query_inv (cx_room c) (r', ch)"
    by (rule admin_loop_invariant [OF _ l]) (use query_inv_step assms(2) in auto)
  then show ?thesis using res query_inv_restart by (cases err) auto
qed auto

lemma iq_query_inv:
  assumes "iq_query P acl sender q c = Ret (r', result)" and "0 \<notin> set (occupants (cx_room c))"
  shows "query_inv (cx_room c) (r', result_chain result)"
proof (cases "ip_type (cx_in c) = STANZA_IQ_GET")
  case True
  then have "iq_get sender q c = Ret result" "r' = cx_room c" using assms(1) by (auto simp: iq_query_def)
  then have "result_chain result = (0, 0)"
    by (auto simp: iq_get_def room_reply_def split: prod.splits if_splits option.splits)
  then show ?thesis using \<open>r' = cx_room c\<close> by simp
next
  case False
  then show ?thesis using assms iq_set_admin_inv iq_set_owner_inv
    by (auto simp: iq_query_def split: if_splits)
qed

subsection \<open>The loop over the affected occupants\<close>

definition role_after :: "room \<Rightarrow> addr \<Rightarrow> int" where
  "role_after r a = fst (affected_outcome r (occupant r a))"

lemma settle_effect:
  assumes "utlist_laws (pf_utlist P)" and "dls_linked (room_participants (cx_room c))"
    and "a \<in> set (occupants (cx_room c))"
  shows "occupants (cx_room (settle_affected P a c)) =
      (if role_after (cx_room c) a = ROLE_NONE then remove1 a (occupants (cx_room c)) else occupants (cx_room c))"
    and "b \<noteq> a \<Longrightarrow> occupant (cx_room (settle_affected P a c)) b = occupant (cx_room c) b"
    and "next_of (cx_room (settle_affected P a c)) = next_of (cx_room c)"
    and "nick_of (cx_room (settle_affected P a c)) = nick_of (cx_room c)"
    and "cx_in (settle_affected P a c) = cx_in c"
    and "room_affiliations (cx_room (settle_affected P a c)) = room_affiliations (cx_room c)"
    and "room_history (cx_room (settle_affected P a c)) = room_history (cx_room c)"
proof -
  obtain role codes where o: "affected_outcome (cx_room c) (occupant (cx_room c) a) = (role, codes)" by fastforce
  let ?f = "\<lambda>p. p\<lparr>p_included := False, p_role := role, p_presence := (if role = ROLE_NONE then None else p_presence p)\<rparr>"
  define r1 where "r1 = update_participant a (\<lambda>p. p\<lparr>p_reason_node := None\<rparr>) (update_participant a ?f (cx_room c))"
  have r1: "occupants r1 = occupants (cx_room c)" "b \<noteq> a \<Longrightarrow> occupant r1 b = occupant (cx_room c) b"
    "next_of r1 = next_of (cx_room c)" "nick_of r1 = nick_of (cx_room c)"
    "room_affiliations r1 = room_affiliations (cx_room c)" "room_history r1 = room_history (cx_room c)"
    "dls_linked (room_participants r1)" for b
    using assms(2) by (auto simp: r1_def next_of_def nick_of_def)
  have r: "cx_room (settle_affected P a c) = (if role = ROLE_NONE then room_leave (pf_utlist P) r1 a else r1)"
    by (simp add: settle_affected_def o Let_def r1_def)
  have lk: "dls_linked (room_participants r1)" and a: "a \<in> set (occupants r1)" using assms(3) r1 by simp_all
  note e = utlist_laws.room_leave_effect [OF assms(1) lk a]
  show "occupants (cx_room (settle_affected P a c)) =
      (if role_after (cx_room c) a = ROLE_NONE then remove1 a (occupants (cx_room c)) else occupants (cx_room c))"
    by (simp add: r e role_after_def o r1)
  have occ: "occupant (cx_room (settle_affected P a c)) = occupant r1" by (simp add: r e fun_eq_iff)
  then show "b \<noteq> a \<Longrightarrow> occupant (cx_room (settle_affected P a c)) b = occupant (cx_room c) b" by (simp add: r1)
  show "next_of (cx_room (settle_affected P a c)) = next_of (cx_room c)"
    "nick_of (cx_room (settle_affected P a c)) = nick_of (cx_room c)"
    using r1(3,4) by (simp_all add: next_of_def nick_of_def occ fun_eq_iff)
  show "cx_in (settle_affected P a c) = cx_in c" by (simp add: settle_affected_def o Let_def)
  show "room_affiliations (cx_room (settle_affected P a c)) = room_affiliations (cx_room c)"
    "room_history (cx_room (settle_affected P a c)) = room_history (cx_room c)"
    by (simp_all add: r e r1)
qed

lemma linked_occupants: "dls_linked (room_participants r) \<longleftrightarrow> distinct (occupants r)"
  by (simp add: dls_linked_def occupants_def)

lemma occupants_wf_settle:
  assumes "utlist_laws (pf_utlist P)" and "occupants_wf (cx_room c)" and "a \<in> set (occupants (cx_room c))"
  shows "occupants_wf (cx_room (settle_affected P a c))"
proof -
  have lk: "dls_linked (room_participants (cx_room c))" using assms(2) by (simp add: occupants_wf_def)
  note e = settle_effect [OF assms(1) lk assms(3)]
  have sub: "set (occupants (cx_room (settle_affected P a c))) \<subseteq> set (occupants (cx_room c))"
    by (simp add: e set_remove1_subset)
  have "distinct (occupants (cx_room (settle_affected P a c)))"
    using lk by (simp add: e(1) linked_occupants)
  then show ?thesis using assms(2) sub
    by (auto simp: occupants_wf_def linked_occupants e(4) intro: inj_on_subset)
qed

text \<open>
  The loop reaches the end of a chain within the number of occupants, and everything it keeps
  for one occupant it keeps for all.
\<close>

lemma affected_loop_returns:
  assumes U: "utlist_laws (pf_utlist P)"
  shows "occupants_wf (cx_room c) \<Longrightarrow> follows (next_of (cx_room c)) current xs \<Longrightarrow> distinct xs \<Longrightarrow>
    set xs \<subseteq> set (occupants (cx_room c)) \<Longrightarrow> length xs < n \<Longrightarrow>
    affected_loop P n current c = Ret (fold (settle_affected P) xs c) \<and>
    occupants_wf (cx_room (fold (settle_affected P) xs c))"
proof (induction xs arbitrary: n current c)
  case Nil
  then show ?case by (cases n) simp_all
next
  case (Cons x xs)
  then obtain n' where n: "n = Suc n'" by (cases n) auto
  have x: "current = x" "x \<noteq> 0" "follows (next_of (cx_room c)) (next_of (cx_room c) x) xs"
    and mem: "x \<in> set (occupants (cx_room c))" using Cons.prems by auto
  have lk: "dls_linked (room_participants (cx_room c))" using Cons.prems(1) by (simp add: occupants_wf_def)
  let ?c = "settle_affected P x c"
  note e = settle_effect [OF U lk mem]
  have "set xs \<subseteq> set (occupants (cx_room ?c))"
    using Cons.prems(3,4) lk by (auto simp: e(1) linked_occupants)
  then have "affected_loop P n' (next_of (cx_room c) x) ?c = Ret (fold (settle_affected P) xs ?c) \<and>
      occupants_wf (cx_room (fold (settle_affected P) xs ?c))"
    using Cons.prems x n occupants_wf_settle [OF U Cons.prems(1) mem]
    by (intro Cons.IH) (simp_all add: e(3))
  then show ?case using x(1,2) n by (simp add: next_of_def)
qed

lemma chain_within:
  "affected_chain r ch xs \<Longrightarrow> dls_linked (room_participants r) \<Longrightarrow> length xs < Suc (length (occupants r))"
  unfolding affected_chain_def dls_linked_def occupants_def
  by (metis card_mono distinct_card le_imp_less_Suc List.finite_set)

text \<open>The result of a query, whatever it was.\<close>

lemma iq_finish_cases:
  assumes U: "utlist_laws (pf_utlist P)" and inv: "query_inv r0 (cx_room c, result_chain result)"
    and wf: "occupants_wf r0" and run: "iq_finish P result c = Ret c'"
  shows "(\<exists>e. bounced e c c') \<or>
    (\<exists>t d xs c1. result = IqReply t d (result_chain result) \<and> affected_chain (cx_room c) (result_chain result) xs \<and>
       cx_room c1 = cx_room c \<and> cx_out c1 = cx_out c @
         [bp_zero\<lparr>bp_type := STANZA_IQ_RESULT, bp_iq_type := t, bp_sys_data := d\<rparr>] \<and>
       c' = fold (settle_affected P) xs c1 \<and> occupants_wf (cx_room c'))"
proof (cases "\<exists>e. worker_bounce e c = Ret c'")
  case True
  then show ?thesis using bounce_keeps by blast
next
  case False
  then obtain t d ch c1 where res: "result = IqReply t d ch"
    and c1: "with_cleanup PACKET_CLEANUP_SWITCH_FROM_TO c = Ret c1"
    and loop: "affected_loop P (Suc (length (occupants (cx_room c1)))) (fst ch)
      (emit [bp_zero\<lparr>bp_type := STANZA_IQ_RESULT, bp_iq_type := t, bp_sys_data := d\<rparr>] c1) = Ret c'"
    using run by (auto simp: iq_finish_def split: iq_result.splits if_splits)
  note k = with_cleanup_keeps [OF c1]
  obtain xs where xs: "affected_chain (cx_room c) ch xs" using inv res by (auto simp: query_inv_def)
  have wfc: "occupants_wf (cx_room c)"
    by (rule occupants_wf_cong [OF wf]) (use inv in \<open>auto simp: query_inv_def\<close>)
  then have lk: "dls_linked (room_participants (cx_room c))" by (simp add: occupants_wf_def)
  let ?c = "emit [bp_zero\<lparr>bp_type := STANZA_IQ_RESULT, bp_iq_type := t, bp_sys_data := d\<rparr>] c1"
  have "affected_loop P (Suc (length (occupants (cx_room c1)))) (fst ch) ?c = Ret (fold (settle_affected P) xs ?c) \<and>
      occupants_wf (cx_room (fold (settle_affected P) xs ?c))"
    by (rule affected_loop_returns [OF U])
      (use wfc k xs chain_within [OF xs lk] in \<open>auto simp: affected_chain_def\<close>)
  then show ?thesis using loop res xs k by (intro disjI2 exI [of _ t] exI [of _ d] exI [of _ xs] exI [of _ ?c]) auto
qed

subsection \<open>Messages to the room\<close>

text \<open>What \<open>change_subject\<close> leaves alone.\<close>

lemma change_subject_frame:
  "change_subject s subject c = Ret (err, c') \<Longrightarrow>
   room_participants (cx_room c') = room_participants (cx_room c) \<and> room_node (cx_room c') = room_node (cx_room c) \<and>
   cx_in c' = cx_in c \<and> cx_out c' = cx_out c \<and> room_history (cx_room c') = room_history (cx_room c) \<and>
   (err \<noteq> None \<longrightarrow> c' = c \<and> err \<in> {Some ERROR_PRIVILEGE_LEVEL, Some ERROR_IQ_BAD})"
  by (auto simp: change_subject_def split: option.splits if_splits)

text \<open>The copy of a message that one occupant gets.\<close>

definition copy_for :: "ctx \<Rightarrow> addr \<Rightarrow> bytes option \<Rightarrow> bytes option \<Rightarrow> addr \<Rightarrow> builder_packet" where
  "copy_for c s header inner a =
     bp_zero\<lparr>bp_name := STANZA_MESSAGE, bp_type := ip_type (cx_in c), bp_header := header,
       bp_from_node := room_node (cx_room c), bp_from_nick := p_nick (occupant (cx_room c) s),
       bp_user_data := inner, bp_to := p_jid (occupant (cx_room c) a)\<rparr>"

definition spoke :: "int \<Rightarrow> addr \<Rightarrow> ctx \<Rightarrow> ctx" where
  "spoke now s c = set_room (update_participant s (\<lambda>p. p\<lparr>p_last_message_time := now\<rparr>)) c"

lemma spoke_visible: "visible (occupant (cx_room (spoke now s c)) a) = visible (occupant (cx_room c) a)"
  by (simp add: spoke_def visible_def)

text \<open>Whether a message to the room is refused before it is looked at, and with which error.\<close>

definition message_refused :: "int \<Rightarrow> int \<Rightarrow> addr \<Rightarrow> ctx \<Rightarrow> nat option" where
  "message_refused limit now s c =
     (if has_flag (cx_room c) MUC_FLAG_MODERATEDROOM \<and> p_role (occupant (cx_room c) s) < ROLE_PARTICIPANT
      then Some ERROR_NO_VISITORS_PUBLIC
      else if now - p_last_message_time (occupant (cx_room c) s) < limit then Some ERROR_TRAFFIC_RATE
      else None)"

lemma public_message_outcome:
  assumes run: "route_public_message P limit now now' s c = Ret c'"
  shows "case message_refused limit now s c of
      Some e \<Rightarrow> bounced e c c'
    | None \<Rightarrow>
        (\<exists>e \<in> {ERROR_PRIVILEGE_LEVEL, ERROR_IQ_BAD}. bounced e (spoke now' s c) c') \<or>
        (\<exists>header inner. cx_out c' = cx_out c @ map (copy_for c s header inner) (occupants (cx_room c)) \<and>
           room_participants (cx_room c') = room_participants (cx_room (spoke now' s c)) \<and>
           room_node (cx_room c') = room_node (cx_room c))"
proof (cases "message_refused limit now s c")
  case (Some e)
  then have "worker_bounce e c = Ret c'"
    using run by (auto simp: route_public_message_def message_refused_def Let_def split: if_splits)
  then show ?thesis using Some bounce_keeps by simp
next
  case None
  let ?c1 = "spoke now' s c"
  obtain subject err c2 where sub: "change_subject s subject ?c1 = Ret (err, c2)"
    and rest: "(case err of Some e \<Rightarrow> worker_bounce e c2
      | None \<Rightarrow>
          bind_run (with_cleanup PACKET_CLEANUP_FROM_TO c2) (\<lambda>c3.
          bind_run (ingress_header c3) (\<lambda>header.
          bind_run (ingress_inner c3) (\<lambda>inner.
          bind_run (history_entries_push (pf_utlist P) (room_history (cx_room c3))) (\<lambda>pushed.
          bind_run (history_store inner pushed) (\<lambda>h.
            let c4 = set_room (\<lambda>r. r\<lparr>room_history := h\<rparr>) c3 in
            Ret (emit (map (message_packet c4 s header inner) (occupants (cx_room c4))) c4))))))) = Ret c'"
    using run None
    by (auto simp: route_public_message_def message_refused_def Let_def spoke_def split: if_splits)
  note f = change_subject_frame [OF sub]
  show ?thesis
  proof (cases err)
    case (Some e)
    then have "bounced e ?c1 c'" using rest f bounce_keeps by auto
    then show ?thesis using f Some None by auto
  next
    case err: None
    from rest [unfolded err] obtain c3 header inner h where c3: "with_cleanup PACKET_CLEANUP_FROM_TO c2 = Ret c3"
      and c': "c' = emit (map (message_packet (set_room (\<lambda>r. r\<lparr>room_history := h\<rparr>) c3) s header inner)
        (occupants (cx_room (set_room (\<lambda>r. r\<lparr>room_history := h\<rparr>) c3)))) (set_room (\<lambda>r. r\<lparr>room_history := h\<rparr>) c3)"
      by (auto simp: Let_def)
    note k = with_cleanup_keeps [OF c3]
    let ?r4 = "cx_room (set_room (\<lambda>r. r\<lparr>room_history := h\<rparr>) c3)"
    have p4: "room_participants ?r4 = room_participants (cx_room ?c1)" using f k by simp
    have "p_jid (occupant ?r4 a) = p_jid (occupant (cx_room c) a) \<and> p_nick (occupant ?r4 a) = p_nick (occupant (cx_room c) a)" for a
      using spoke_visible [of now' s c a] unfolding same_participants(2) [OF p4] visible_def by simp
    moreover have "room_node ?r4 = room_node (cx_room c)" "occupants ?r4 = occupants (cx_room c)"
      "ip_type (cx_in c3) = ip_type (cx_in c)"
      using f k unfolding same_participants(1) [OF p4] by (auto simp: spoke_def)
    ultimately have "map (message_packet (set_room (\<lambda>r. r\<lparr>room_history := h\<rparr>) c3) s header inner) (occupants ?r4)
        = map (copy_for c s header inner) (occupants (cx_room c))"
      by (auto simp: message_packet_def copy_for_def)
    moreover have "cx_out c3 = cx_out c" using f k by (simp add: spoke_def)
    ultimately show ?thesis using None c' p4 f k by (auto simp: spoke_def)
  qed
qed

lemma public_message_wf:
  assumes "route_public_message P limit now now' s c = Ret c'" and "occupants_wf (cx_room c)"
  shows "occupants_wf (cx_room c')"
proof -
  have spoke: "occupants_wf (cx_room (spoke now' s c))"
    by (rule occupants_wf_cong [OF assms(2)]) (simp_all add: spoke_def nick_of_def)
  show ?thesis
  proof (cases "message_refused limit now s c")
    case None
    then consider e where "bounced e (spoke now' s c) c'"
      | "room_participants (cx_room c') = room_participants (cx_room (spoke now' s c))"
      using public_message_outcome [OF assms(1)] by auto
    then show ?thesis using spoke by cases (simp_all add: bounced_room occupants_wf_same [of "cx_room c'"])
  next
    case (Some e)
    then show ?thesis using public_message_outcome [OF assms(1)] assms(2) by (simp add: bounced_room)
  qed
qed

lemma private_message_wf:
  assumes "route_private_message s c = Ret c'"
  shows "cx_room c' = cx_room c"
  using assms
  by (auto simp: route_private_message_def split: option.splits if_splits
    dest!: bounce_keeps bounced_room with_cleanup_keeps)

subsection \<open>Presence\<close>

lemma occupants_wf_rename:
  assumes wf: "occupants_wf r" and free: "participants_find_by_nick (room_participants r) nick = None"
    and b: "buffer_bytes b = buffer_bytes nick"
  shows "occupants_wf (update_participant a (\<lambda>p. p\<lparr>p_nick := b\<rparr>) r)"
proof -
  let ?r = "update_participant a (\<lambda>p. p\<lparr>p_nick := b\<rparr>) r"
  have n: "nick_of ?r c = (if c = a then buffer_bytes nick else nick_of r c)" for c
    using b by (simp add: nick_of_def)
  have "inj_on (nick_of ?r) (set (occupants r))"
    using wf free by (auto simp: inj_on_def n occupants_wf_def find_by_nick_free)
  then show ?thesis using wf by (simp add: occupants_wf_def)
qed

text \<open>The ways an occupant's presence can go.\<close>

lemma presence_of_occupant_cases:
  assumes "presence_of_occupant s c = Ret (c', goes_on)"
  shows "(with_cleanup PACKET_CLEANUP_FROM_TO c = Ret c' \<and> goes_on = Some s) \<or>
    (bounced ERROR_OCCUPANT_CONFLICT c c' \<and> goes_on = None \<and>
       (\<exists>a. find_recipient c = Some a \<and> a \<noteq> s)) \<or>
    (c' = c \<and> goes_on = None \<and> find_recipient c = None \<and> p_role (occupant (cx_room c) s) \<le> ROLE_VISITOR \<and>
       \<not> has_flag (cx_room c) MUC_FLAG_VISITORPRESENCE) \<or>
    (find_recipient c = None \<and> goes_on = Some s \<and>
       (p_role (occupant (cx_room c) s) > ROLE_VISITOR \<or> has_flag (cx_room c) MUC_FLAG_VISITORPRESENCE) \<and>
       (let nick = buffer_ptr_cpy (jid_resource (ip_proxy_to (cx_in c)))
        in c' = set_room (update_participant s (\<lambda>p. p\<lparr>p_nick := nick\<rparr>))
             (room_broadcast_presence s nick STATUS_NICKNAME_CHANGED c)))"
proof (cases "ip_type (cx_in c) \<noteq> STANZA_PRESENCE_UNAVAILABLE \<and> jid_resource (ip_proxy_to (cx_in c)) \<noteq> None")
  case False
  then show ?thesis using assms by (auto simp: presence_of_occupant_def)
next
  case True
  show ?thesis
  proof (cases "find_recipient c")
    case None
    with True assms show ?thesis
      by (auto simp: presence_of_occupant_def Let_def split: if_splits)
  next
    case (Some a)
    with True assms show ?thesis
      by (cases "a = s") (auto simp: presence_of_occupant_def dest: bounce_keeps)
  qed
qed

lemma presence_of_occupant_wf:
  assumes run: "presence_of_occupant s c = Ret (c', goes_on)" and wf: "occupants_wf (cx_room c)"
  shows "occupants_wf (cx_room c') \<and> occupants (cx_room c') = occupants (cx_room c) \<and> (goes_on = None \<or> goes_on = Some s)"
proof (cases "cx_room c' = cx_room c")
  case True
  then show ?thesis using presence_of_occupant_cases [OF run] wf by auto
next
  case False
  let ?nick = "buffer_ptr_cpy (jid_resource (ip_proxy_to (cx_in c)))"
  have "find_recipient c = None" and g: "goes_on = Some s"
    and r: "cx_room c' = update_participant s (\<lambda>p. p\<lparr>p_nick := ?nick\<rparr>) (cx_room c)"
    using presence_of_occupant_cases [OF run] False
    by (auto dest: with_cleanup_keeps bounced_room simp: Let_def)
  then have "occupants_wf (cx_room c')"
    using occupants_wf_rename [OF wf, of "jid_resource (ip_proxy_to (cx_in c))" ?nick s]
    by (simp add: find_recipient_def buffer_ptr_cpy_def)
  then show ?thesis using g r by simp
qed

text \<open>What entering does, and when it happens.\<close>

lemma admission_cases:
  assumes "admission P acl mn c = Ret (Inr v)"
  shows "(acl_role acl (ip_real_from (cx_in c)) \<ge> ACL_MUC_ADMIN \<and> v = AFFIL_OWNER) \<or>
    (dls_size (room_participants (cx_room c)) < dls_max_size (room_participants (cx_room c)) \<and>
     affiliationss_get_by_jid (pf_pun P (room_affiliations (cx_room c))) acl (ip_real_from (cx_in c)) = Ret v \<and>
     v \<noteq> AFFIL_OUTCAST \<and>
     (v < AFFIL_OWNER \<longrightarrow> has_flag (cx_room c) MUC_FLAG_PASSWORDPROTECTEDROOM \<longrightarrow>
        password_matches (ip_mem (cx_in c)) (room_password (cx_room c)) mn) \<and>
     (has_flag (cx_room c) MUC_FLAG_MEMBERSONLY \<longrightarrow> v \<ge> AFFIL_MEMBER))"
  using assms by (auto simp: admission_def Let_def split: if_splits)

lemma found_room_keeps:
  "room_participants (cx_room (found_room P c)) = room_participants (cx_room c)"
  "cx_in (found_room P c) = cx_in c" "cx_out (found_room P c) = cx_out c"
  "room_flags (cx_room (found_room P c)) = room_flags (cx_room c)"
  "room_password (cx_room (found_room P c)) = room_password (cx_room c)"
  "room_node (cx_room (found_room P c)) = room_node (cx_room c)"
  "room_default_role (cx_room (found_room P c)) = room_default_role (cx_room c)"
  by (simp_all add: found_room_def)

text \<open>The ways a stranger's presence can go.\<close>

lemma presence_of_stranger_cases:
  assumes "presence_of_stranger P acl mn c = Ret (c', goes_on)"
  shows "(ip_type (cx_in c) = STANZA_PRESENCE_UNAVAILABLE \<and> c' = c \<and> goes_on = None) \<or>
    (jid_resource (ip_proxy_to (cx_in c)) = None \<and> bounced ERROR_JID_MALFORMED c c' \<and> goes_on = None) \<or>
    (find_recipient c \<noteq> None \<and> bounced ERROR_OCCUPANT_CONFLICT c c' \<and> goes_on = None) \<or>
    (\<exists>e. admission P acl mn (found_room P c) = Ret (Inl e) \<and> bounced e (found_room P c) c' \<and> goes_on = None) \<or>
    (ip_type (cx_in c) \<noteq> STANZA_PRESENCE_UNAVAILABLE \<and> jid_resource (ip_proxy_to (cx_in c)) \<noteq> None \<and>
     find_recipient c = None \<and>
     (\<exists>v a. goes_on = Some a \<and> admission P acl mn (found_room P c) = Ret (Inr v) \<and>
       room_join (pf_utlist P) (cx_room (found_room P c)) (ip_real_from (cx_in c))
         (jid_resource (ip_proxy_to (cx_in c))) v = (cx_room c', a) \<and>
       cx_in c' = (cx_in c)\<lparr>ip_mem := ip_mem (cx_in c')\<rparr> \<and>
       cx_out c' = cx_out c @ map (introduction_packet (cx_room c') a)
         (filter (\<lambda>b. b \<noteq> a) (occupants (cx_room c')))))"
proof (cases "ip_type (cx_in c) = STANZA_PRESENCE_UNAVAILABLE \<or>
    jid_resource (ip_proxy_to (cx_in c)) = None \<or> find_recipient c \<noteq> None")
  case True
  then show ?thesis using assms
    by (auto simp: presence_of_stranger_def split: if_splits dest!: bounce_keeps)
next
  case False
  then obtain admitted where ad: "admission P acl mn (found_room P c) = Ret admitted"
    and rest: "(case admitted of
            Inl e \<Rightarrow> bind_run (worker_bounce e (found_room P c)) (\<lambda>c. Ret (c, None))
          | Inr affiliation \<Rightarrow>
              (case room_join (pf_utlist P) (cx_room (found_room P c)) (ip_real_from (cx_in (found_room P c)))
                      (jid_resource (ip_proxy_to (cx_in (found_room P c)))) affiliation of (r, a) \<Rightarrow>
                 bind_run (with_cleanup PACKET_CLEANUP_FROM_TO ((found_room P c)\<lparr>cx_room := r\<rparr>)) (\<lambda>c2.
                   Ret (room_presences_send a c2, Some a)))) = Ret (c', goes_on)"
    using assms by (auto simp: presence_of_stranger_def Let_def)
  show ?thesis
  proof (cases admitted)
    case (Inl e)
    then show ?thesis using ad rest by (auto dest!: bounce_keeps)
  next
    case (Inr v)
    obtain r a where j: "room_join (pf_utlist P) (cx_room (found_room P c)) (ip_real_from (cx_in c))
         (jid_resource (ip_proxy_to (cx_in c))) v = (r, a)" by fastforce
    obtain c2 where c2: "with_cleanup PACKET_CLEANUP_FROM_TO ((found_room P c)\<lparr>cx_room := r\<rparr>) = Ret c2"
      and c': "c' = room_presences_send a c2" "goes_on = Some a"
      using rest by (auto simp: Inr found_room_keeps j)
    obtain m where k: "cx_room c2 = r" "cx_out c2 = cx_out c" "cx_in c2 = (cx_in c)\<lparr>ip_mem := m\<rparr>"
      using with_cleanup_keeps [OF c2] by (auto simp: found_room_keeps)
    have room: "cx_room c' = r" using c' k by simp
    have "cx_out c' = cx_out c @ map (introduction_packet (cx_room c') a) (filter (\<lambda>b. b \<noteq> a) (occupants (cx_room c')))"
      "cx_in c' = (cx_in c)\<lparr>ip_mem := ip_mem (cx_in c')\<rparr>"
      using c' k room by (simp_all add: room_presences_send_def)
    then show ?thesis using False ad j c'(2) room Inr by auto
  qed
qed

lemma presence_of_stranger_wf:
  assumes U: "utlist_laws (pf_utlist P)" and run: "presence_of_stranger P acl mn c = Ret (c', goes_on)"
    and wf: "occupants_wf (cx_room c)"
    and size: "buffer_size (jid_resource (ip_proxy_to (cx_in c))) \<le> MAX_JID_PART_SIZE"
  shows "occupants_wf (cx_room c') \<and> (\<forall>a. goes_on = Some a \<longrightarrow> a \<in> set (occupants (cx_room c')))"
proof (cases goes_on)
  case None
  then have "room_participants (cx_room c') = room_participants (cx_room c)"
    using presence_of_stranger_cases [OF run] by (auto dest!: bounced_room simp: found_room_keeps)
  then show ?thesis using None wf occupants_wf_same [of "cx_room c'" "cx_room c"] by simp
next
  case (Some a)
  then obtain v where free: "find_recipient c = None" and join: "room_join (pf_utlist P) (cx_room (found_room P c))
      (ip_real_from (cx_in c)) (jid_resource (ip_proxy_to (cx_in c))) v = (cx_room c', a)"
    using presence_of_stranger_cases [OF run] by auto
  have wf1: "occupants_wf (cx_room (found_room P c))"
    using wf occupants_wf_same [of "cx_room (found_room P c)" "cx_room c"] by (simp add: found_room_keeps)
  have "occupants_wf (cx_room c')"
    using utlist_laws.occupants_wf_join [OF U wf1 join size] free
    by (simp add: find_recipient_def found_room_keeps)
  moreover have "a \<in> set (occupants (cx_room c'))"
    using utlist_laws.room_join_effect(1) [OF U join size] by simp
  ultimately show ?thesis using Some by simp
qed

lemma update_update:
  "update_participant a f (update_participant a g r) = update_participant a (\<lambda>p. f (g p)) r"
  by (simp add: update_participant_def dls_update_def)

text \<open>What the rest of the handler does to the room: one update of the sender, and his departure.\<close>

definition tail_update :: "bytes option \<Rightarrow> bool \<Rightarrow> bool \<Rightarrow> participant \<Rightarrow> participant" where
  "tail_update inner update unavailable p =
     (let p1 = (if update then p\<lparr>p_presence := inner\<rparr> else p)
      in if unavailable then p1\<lparr>p_role := ROLE_NONE, p_presence := None\<rparr>
         else p1\<lparr>p_presence := kept_presence (p_presence p1)\<rparr>)"

definition updates_presence :: "room \<Rightarrow> addr \<Rightarrow> bool" where
  "updates_presence r s \<longleftrightarrow> p_role (occupant r s) > ROLE_VISITOR \<or> has_flag r MUC_FLAG_VISITORPRESENCE"

lemma presence_tail_room:
  assumes "presence_tail P just_joined s c = Ret c'"
  obtains inner where "updates_presence (cx_room c) s \<Longrightarrow> ingress_inner c = Ret inner"
    "let unavailable = (ip_type (cx_in c) = STANZA_PRESENCE_UNAVAILABLE);
         r = update_participant s (tail_update inner (updates_presence (cx_room c) s) unavailable) (cx_room c)
     in cx_room c' = clear_flag MUC_FLAG_JUST_CREATED
          (if unavailable then room_leave (pf_utlist P) r s else r)"
proof -
  let ?u = "updates_presence (cx_room c) s"
  obtain inner where i: "(if ?u then ingress_inner c else Ret None) = Ret inner"
    and c': "cx_room c' = clear_flag MUC_FLAG_JUST_CREATED
       (let r1 = update_participant s (\<lambda>p. if ?u then p\<lparr>p_presence := inner\<rparr> else p) (cx_room c)
        in if ip_type (cx_in c) = STANZA_PRESENCE_UNAVAILABLE
           then room_leave (pf_utlist P) (update_participant s (\<lambda>p. p\<lparr>p_presence := None\<rparr>)
                  (update_participant s (\<lambda>p. p\<lparr>p_role := ROLE_NONE\<rparr>) r1)) s
           else update_participant s (\<lambda>p. p\<lparr>p_presence := kept_presence (p_presence p)\<rparr>) r1)"
  proof -
    obtain inner where i: "(if ?u then ingress_inner c else Ret None) = Ret inner"
      using assms unfolding presence_tail_def updates_presence_def [symmetric] Let_def by (rule bind_run_eq_Ret [THEN iffD1, THEN exE]) blast
    show ?thesis
    proof (rule that [OF i])
      show "cx_room c' = clear_flag MUC_FLAG_JUST_CREATED
       (let r1 = update_participant s (\<lambda>p. if ?u then p\<lparr>p_presence := inner\<rparr> else p) (cx_room c)
        in if ip_type (cx_in c) = STANZA_PRESENCE_UNAVAILABLE
           then room_leave (pf_utlist P) (update_participant s (\<lambda>p. p\<lparr>p_presence := None\<rparr>)
                  (update_participant s (\<lambda>p. p\<lparr>p_role := ROLE_NONE\<rparr>) r1)) s
           else update_participant s (\<lambda>p. p\<lparr>p_presence := kept_presence (p_presence p)\<rparr>) r1)"
        using assms i unfolding presence_tail_def updates_presence_def [symmetric] Let_def
        by (cases "ip_type (cx_in c) = STANZA_PRESENCE_UNAVAILABLE"; cases just_joined) auto
    qed
  qed
  have upd: "(\<lambda>p. (if ?u then p\<lparr>p_presence := inner\<rparr> else p)\<lparr>p_role := ROLE_NONE, p_presence := None\<rparr>)
      = tail_update inner ?u True"
    "(\<lambda>p. (if ?u then p\<lparr>p_presence := inner\<rparr> else p)
         \<lparr>p_presence := kept_presence (p_presence (if ?u then p\<lparr>p_presence := inner\<rparr> else p))\<rparr>)
      = tail_update inner ?u False"
    by (auto simp: tail_update_def Let_def)
  show ?thesis
    by (rule that [of inner]) (use i c' in \<open>simp_all add: Let_def update_update upd\<close>)
qed

lemma tail_update_nick [simp]: "p_nick (tail_update inner u v p) = p_nick p"
  by (simp add: tail_update_def Let_def)

lemma presence_tail_wf:
  assumes U: "utlist_laws (pf_utlist P)" and run: "presence_tail P just_joined s c = Ret c'"
    and wf: "occupants_wf (cx_room c)" and s: "s \<in> set (occupants (cx_room c))"
  shows "occupants_wf (cx_room c')"
proof -
  obtain f where f: "\<And>p. p_nick (f p) = p_nick p"
    and c': "cx_room c' = clear_flag MUC_FLAG_JUST_CREATED
      (if ip_type (cx_in c) = STANZA_PRESENCE_UNAVAILABLE
       then room_leave (pf_utlist P) (update_participant s f (cx_room c)) s else update_participant s f (cx_room c))"
    using presence_tail_room [OF run] unfolding Let_def by (metis tail_update_nick)
  have upd: "occupants_wf (update_participant s f (cx_room c))"
    by (rule occupants_wf_cong [OF wf]) (simp_all add: nick_of_def f)
  then have "occupants_wf (room_leave (pf_utlist P) (update_participant s f (cx_room c)) s)"
    using s by (intro utlist_laws.occupants_wf_leave [OF U]) simp_all
  then show ?thesis
    using upd occupants_wf_same [of "cx_room c'"] by (simp add: c')
qed

lemma route_presence_wf:
  assumes U: "utlist_laws (pf_utlist P)" and run: "route_presence P acl c = Ret c'"
    and wf: "occupants_wf (cx_room c)"
    and size: "buffer_size (jid_resource (ip_proxy_to (cx_in c))) \<le> MAX_JID_PART_SIZE"
  shows "occupants_wf (cx_room c')"
proof (cases "find_sender c")
  case None
  then obtain mn c1 goes_on where p: "presence_of_stranger P acl mn c = Ret (c1, goes_on)"
    and t: "(case goes_on of None \<Rightarrow> Ret c1 | Some a \<Rightarrow> presence_tail P True a c1) = Ret c'"
    using run by (auto simp: route_presence_def)
  show ?thesis using presence_of_stranger_wf [OF U p wf size] t presence_tail_wf [OF U]
    by (cases goes_on) auto
next
  case (Some s)
  then obtain c1 goes_on where p: "presence_of_occupant s c = Ret (c1, goes_on)"
    and t: "(case goes_on of None \<Rightarrow> Ret c1 | Some a \<Rightarrow> presence_tail P False a c1) = Ret c'"
    using run by (auto simp: route_presence_def)
  have s: "s \<in> set (occupants (cx_room c))"
    using Some by (auto simp: find_sender_def dest: find_by_jid_occupant)
  show ?thesis using presence_of_occupant_wf [OF p wf] t presence_tail_wf [OF U] s
    by (cases goes_on) auto
qed

lemma iq_occupant_keeps:
  assumes "route_iq_occupant sender c = Ret c'"
  shows "cx_room c' = cx_room c"
proof (cases "\<exists>e. worker_bounce e c = Ret c'")
  case True
  then show ?thesis by (auto dest!: bounce_keeps bounced_room)
next
  case False
  obtain s where s: "sender = Some s" using assms False by (cases sender) (auto simp: route_iq_occupant_def)
  have flag: "has_flag (cx_room c) MUC_FLAG_IQ_PROXY"
    using assms False by (simp add: route_iq_occupant_def s split: if_splits)
  obtain receiver where "find_recipient c = Some receiver"
    using assms False by (cases "find_recipient c") (auto simp: route_iq_occupant_def s flag)
  then obtain c1 where "with_cleanup PACKET_CLEANUP_FROM_TO c = Ret c1" "cx_room c' = cx_room c1"
    using assms by (clarsimp simp: route_iq_occupant_def s flag Let_def)
  then show ?thesis by (auto dest!: with_cleanup_keeps)
qed

lemma route_iq_cases:
  assumes run: "route_iq P acl c = Ret c'"
  obtains (same) "cx_room c' = cx_room c"
  | (answered) q r result where "iq_query P acl (find_sender c) q c = Ret (r, result)"
      "iq_finish P result (c\<lparr>cx_room := r\<rparr>) = Ret c'"
proof (cases "jid_resource (ip_proxy_to (cx_in c)) = None")
  case True
  then obtain found where "find_query (ip_mem (cx_in c)) (ip_inner (cx_in c)) = Ret found"
    and r: "(case found of None \<Rightarrow> worker_bounce ERROR_IQ_BAD c
        | Some q \<Rightarrow> bind_run (iq_query P acl (find_sender c) q c) (\<lambda>(r, result).
              iq_finish P result (c\<lparr>cx_room := r\<rparr>))) = Ret c'"
    using run by (auto simp: route_iq_def Let_def)
  then show ?thesis using that by (cases found) (auto dest!: bounce_keeps bounced_room)
next
  case False
  then have "route_iq_occupant (find_sender c) c = Ret c'" using run by (simp add: route_iq_def Let_def)
  then show ?thesis by (rule same [OF iq_occupant_keeps])
qed

text \<open>What the answer to a query does to the room: nothing more than the query did, or the departures.\<close>

lemma route_iq_outcome:
  assumes U: "utlist_laws (pf_utlist P)" and run: "route_iq P acl c = Ret c'" and wf: "occupants_wf (cx_room c)"
  obtains (same) "cx_room c' = cx_room c"
  | (bounced) q r result e where "iq_query P acl (find_sender c) q c = Ret (r, result)"
      "bounced e (c\<lparr>cx_room := r\<rparr>) c'" "occupants_wf r" "occupants r = occupants (cx_room c)"
  | (answered) q r t d ch xs c1 where "iq_query P acl (find_sender c) q c = Ret (r, IqReply t d ch)"
      "affected_chain r ch xs" "cx_room c1 = r" "occupants_wf r" "occupants r = occupants (cx_room c)"
      "cx_out c1 = cx_out c @ [bp_zero\<lparr>bp_type := STANZA_IQ_RESULT, bp_iq_type := t, bp_sys_data := d\<rparr>]"
      "c' = fold (settle_affected P) xs c1" "occupants_wf (cx_room c')"
  using run
proof (cases rule: route_iq_cases)
  case same
  then show ?thesis by (rule that(1))
next
  case (answered q r result)
  have inv: "query_inv (cx_room c) (cx_room (c\<lparr>cx_room := r\<rparr>), result_chain result)"
    using iq_query_inv [OF answered(1)] wf by (simp add: occupants_wf_def)
  have r: "occupants r = occupants (cx_room c)" "occupants_wf r"
    using inv by (auto simp: query_inv_def intro!: occupants_wf_cong [OF wf])
  from iq_finish_cases [OF U inv wf answered(2)] show ?thesis
  proof (elim disjE exE conjE)
    fix e
    assume "bounced e (c\<lparr>cx_room := r\<rparr>) c'"
    then show ?thesis by (rule that(2) [OF answered(1) _ r(2,1)])
  next
    fix t d xs c1
    assume res: "result = IqReply t d (result_chain result)"
      and "affected_chain (cx_room (c\<lparr>cx_room := r\<rparr>)) (result_chain result) xs"
        "cx_room c1 = cx_room (c\<lparr>cx_room := r\<rparr>)"
        "cx_out c1 = cx_out (c\<lparr>cx_room := r\<rparr>) @
          [bp_zero\<lparr>bp_type := STANZA_IQ_RESULT, bp_iq_type := t, bp_sys_data := d\<rparr>]"
        "c' = fold (settle_affected P) xs c1" "occupants_wf (cx_room c')"
    then show ?thesis using that(3) [of q r t d "result_chain result" xs c1] answered(1) r by simp
  qed
qed

lemma route_iq_wf:
  assumes U: "utlist_laws (pf_utlist P)" and run: "route_iq P acl c = Ret c'" and wf: "occupants_wf (cx_room c)"
  shows "occupants_wf (cx_room c')"
  using assms by (cases rule: route_iq_outcome) (simp_all add: wf bounced_room)

subsection \<open>The invariant is kept\<close>

lemma route_message_cases:
  assumes "route_message P limit now now' c = Ret c'"
  obtains (external) "find_sender c = None" "bounced ERROR_EXTERNAL_MESSAGE c c'"
  | (to_all) s where "find_sender c = Some s" "jid_resource (ip_proxy_to (cx_in c)) = None"
      "route_public_message P limit now now' s c = Ret c'"
  | (to_one) s where "find_sender c = Some s" "jid_resource (ip_proxy_to (cx_in c)) \<noteq> None"
      "route_private_message s c = Ret c'"
  using assms that by (auto simp: route_message_def bounce_keeps split: option.splits if_splits)

lemma route_message_wf:
  assumes "route_message P limit now now' c = Ret c'" and "occupants_wf (cx_room c)"
  shows "occupants_wf (cx_room c')"
  using assms(1)
  by (cases rule: route_message_cases)
    (use assms(2) public_message_wf in \<open>auto simp: bounced_room private_message_wf\<close>)

lemma kick_wf:
  assumes U: "utlist_laws (pf_utlist P)" and run: "kick_for_error P s c = Ret c'"
    and wf: "occupants_wf (cx_room c)" and s: "s \<in> set (occupants (cx_room c))"
  shows "occupants_wf (cx_room c') \<and> occupants (cx_room c') = remove1 s (occupants (cx_room c))"
proof -
  let ?f = "\<lambda>p. p\<lparr>p_presence := Some error_status, p_role := ROLE_NONE\<rparr>"
  let ?g = "\<lambda>p. p\<lparr>p_presence := None\<rparr>"
  let ?r = "update_participant s ?g (update_participant s ?f (cx_room c))"
  have c': "cx_room c' = room_leave (pf_utlist P) ?r s"
    using run by (auto simp: kick_for_error_def dest!: with_cleanup_keeps)
  have wfr: "occupants_wf ?r"
    by (rule occupants_wf_cong [OF wf]) (simp_all add: nick_of_def)
  have lk: "dls_linked (room_participants ?r)" using wf by (simp add: occupants_wf_def)
  have mem: "s \<in> set (occupants ?r)" using s by simp
  show ?thesis
    using utlist_laws.occupants_wf_leave [OF U wfr mem] utlist_laws.room_leave_effect(1) [OF U lk mem]
    by (simp add: c')
qed

lemma room_route_wf:
  assumes "utlist_laws (pf_utlist P)" and "occupants_wf (cx_room c)"
    and "buffer_size (jid_resource (ip_proxy_to (cx_in c))) \<le> MAX_JID_PART_SIZE"
    and "room_route P acl limit now now' c = Ret c'"
  shows "occupants_wf (cx_room c')"
proof (cases "ip_type (cx_in c) = STANZA_ERROR \<and> ip_name (cx_in c) \<noteq> STANZA_IQ")
  case True
  then have r: "(case find_sender c of None \<Rightarrow> Ret c | Some s \<Rightarrow> kick_for_error P s c) = Ret c'"
    using assms(4) by (simp add: room_route_def)
  show ?thesis
  proof (cases "find_sender c")
    case (Some s)
    then have "s \<in> set (occupants (cx_room c))" by (auto simp: find_sender_def dest: find_by_jid_occupant)
    then show ?thesis using r Some kick_wf [OF assms(1) _ assms(2)] by simp
  qed (use r assms(2) in simp)
next
  case False
  then consider "route_message P limit now now' c = Ret c'" | "route_presence P acl c = Ret c'"
    | "route_iq P acl c = Ret c'" | "c' = c"
    using assms(4) unfolding room_route_def by (metis run.inject(1))
  then show ?thesis
  proof cases
    case 1
    then show ?thesis using assms(2) by (rule route_message_wf)
  next
    case 2
    then show ?thesis by (rule route_presence_wf [OF assms(1) _ assms(2,3)])
  next
    case 3
    then show ?thesis by (rule route_iq_wf [OF assms(1) _ assms(2)])
  qed (use assms(2) in simp)
qed

text \<open>
  Property C1: whatever stanza a room routes and whatever it answers, its occupants stay a proper
  list in which no nickname is used twice.
\<close>

theorem routing_keeps_nicknames_unique:
  assumes "utlist_laws (pf_utlist P)" and "occupants_wf (cx_room c)"
    and "buffer_size (jid_resource (ip_proxy_to (cx_in c))) \<le> MAX_JID_PART_SIZE"
    and "room_route P acl limit now now' c = Ret c'"
  shows "distinct (occupants (cx_room c')) \<and>
    (\<forall>a \<in> set (occupants (cx_room c')). \<forall>b \<in> set (occupants (cx_room c')).
       nick_of (cx_room c') a = nick_of (cx_room c') b \<longrightarrow> a = b) \<and> occupants_wf (cx_room c')"
  using room_route_wf [OF assms] by (auto simp: occupants_wf_def linked_occupants inj_on_def)

subsection \<open>Examples\<close>

definition routed :: "room \<Rightarrow> bytes \<Rightarrow> ctx" where
  \<comment> \<open>a room about to route the stanza \<open>m\<close>\<close>
  "routed r m =
     \<lparr>cx_room = r, cx_in = (case packet_parse m (0, length m) of Ret (p, _) \<Rightarrow> p | Fault _ \<Rightarrow> packet_zero m),
      cx_out = []\<rparr>"

definition reference_platform :: platform where
  "reference_platform = \<lparr>pf_utlist = utlist_ref, pf_pun = pun_intended\<rparr>"

definition lp64_platform :: platform where
  "lp64_platform = \<lparr>pf_utlist = utlist_ref, pf_pun = pun_lp64\<rparr>"

lemma platform_laws [simp]:
  "utlist_laws (pf_utlist reference_platform)" "utlist_laws (pf_utlist lp64_platform)"
  by (simp_all add: reference_platform_def lp64_platform_def utlist_ref.utlist_laws_axioms)

definition acl_nobody :: acl_config where
  "acl_nobody = \<lparr>acl_default_role = ACL_MUC_CREATE, acl_first = []\<rparr>"

definition example_presence :: bytes where
  "example_presence = lit ''<presence from=`bob@h/w` to=`tea@c/Bob`><show>away</show></presence>''"

definition example_ctx0 :: ctx where
  "example_ctx0 = routed example_room example_presence"

lemma routes_example:
  "(case room_route reference_platform acl_nobody 0 0 0 example_ctx0 of
      Ret c' \<Rightarrow> map (p_nick \<circ> occupant (cx_room c')) (occupants (cx_room c')) = [Some ''Bob'', Some ''Ann''] \<and>
        length (cx_out c') = 3
    | Fault _ \<Rightarrow> False)"
  by code_simp

lemma routed_example_packet:
  "buffer_size (jid_resource (ip_proxy_to (cx_in example_ctx0))) \<le> 10"
  by code_simp

lemma example_ctx0_ok:
  "occupants_wf (cx_room example_ctx0)" "occupants (cx_room example_ctx0) = [1]"
  "buffer_size (jid_resource (ip_proxy_to (cx_in example_ctx0))) \<le> MAX_JID_PART_SIZE"
proof -
  have "occupants example_room = [1]" "dls_size (room_participants example_room) = 1"
    by (simp_all add: occupants_def example_room_def room_init_def Let_def dls_prepend_def dls_init_def utlist_ref_def)
  then show "occupants_wf (cx_room example_ctx0)" "occupants (cx_room example_ctx0) = [1]"
    by (simp_all add: occupants_wf_def dls_linked_def occupants_def example_ctx0_def routed_def)
qed (rule order_trans [OF routed_example_packet], simp)

lemma example_routed:
  obtains c' where "room_route reference_platform acl_nobody 0 0 0 example_ctx0 = Ret c'"
    "map (p_nick \<circ> occupant (cx_room c')) (occupants (cx_room c')) = [Some ''Bob'', Some ''Ann'']"
proof (cases "room_route reference_platform acl_nobody 0 0 0 example_ctx0")
  case (Ret c')
  then show ?thesis using that routes_example by simp
next
  case (Fault e)
  then show ?thesis using routes_example by simp
qed

theorem routing_keeps_nicknames_unique_witness:
  "\<exists>c'. room_route reference_platform acl_nobody 0 0 0 example_ctx0 = Ret c' \<and>
     map (p_nick \<circ> occupant (cx_room c')) (occupants (cx_room c')) = [Some ''Bob'', Some ''Ann''] \<and>
     occupants_wf (cx_room c')"
proof -
  obtain c' where c': "room_route reference_platform acl_nobody 0 0 0 example_ctx0 = Ret c'"
    "map (p_nick \<circ> occupant (cx_room c')) (occupants (cx_room c')) = [Some ''Bob'', Some ''Ann'']"
    by (rule example_routed)
  have "occupants_wf (cx_room c')"
    by (rule conjunct2 [OF conjunct2 [OF routing_keeps_nicknames_unique
      [OF platform_laws(1) example_ctx0_ok(1,3) c'(1)]]])
  with c' show ?thesis by (intro exI [of _ c'] conjI)
qed

end
