(* ===== verification/Route_Rules.thy ===== *)
theory Route_Rules
  imports Route_Correct
begin

text \<open>
  The rules of a room: who may enter, speak, change others, and who leaves. Each property follows
  one stanza from \<open>room_route\<close> (or the part of it that handles this kind) to the room afterwards
  and the packets sent.
\<close>

subsection \<open>Entering and leaving\<close>

lemma public_message_occupants:
  assumes "route_public_message P limit now now' s c = Ret c'"
  shows "occupants (cx_room c') = occupants (cx_room c)"
proof (cases "message_refused limit now s c")
  case None
  then consider e where "bounced e (spoke now' s c) c'"
    | "room_participants (cx_room c') = room_participants (cx_room (spoke now' s c))"
    using public_message_outcome [OF assms] by auto
  then have "occupants (cx_room c') = occupants (cx_room (spoke now' s c))"
    by cases (simp_all add: bounced_room same_participants(1) [of "cx_room c'"])
  then show ?thesis by (simp add: spoke_def)
next
  case (Some e)
  then show ?thesis using public_message_outcome [OF assms] by (simp add: bounced_room)
qed

lemma message_occupants:
  assumes "route_message P limit now now' c = Ret c'"
  shows "occupants (cx_room c') = occupants (cx_room c)"
  using assms
  by (cases rule: route_message_cases)
    (auto simp: bounced_room private_message_wf dest: public_message_occupants)

lemma settle_fold_subset:
  assumes U: "utlist_laws (pf_utlist P)"
  shows "occupants_wf (cx_room c) \<Longrightarrow> distinct xs \<Longrightarrow> set xs \<subseteq> set (occupants (cx_room c)) \<Longrightarrow>
    set (occupants (cx_room (fold (settle_affected P) xs c))) \<subseteq> set (occupants (cx_room c))"
proof (induction xs arbitrary: c)
  case (Cons x xs)
  have mem: "x \<in> set (occupants (cx_room c))" using Cons.prems(3) by simp
  have lk: "dls_linked (room_participants (cx_room c))" using Cons.prems(1) by (simp add: occupants_wf_def)
  note e = settle_effect(1) [OF U lk mem]
  let ?c = "settle_affected P x c"
  have "set xs \<subseteq> set (occupants (cx_room ?c))" "set (occupants (cx_room ?c)) \<subseteq> set (occupants (cx_room c))"
    using Cons.prems(2,3) lk by (auto simp: e linked_occupants)
  then show ?case
    using Cons.IH [of ?c] Cons.prems(2) occupants_wf_settle [OF U Cons.prems(1) mem] by simp
qed simp

lemma iq_occupants_subset:
  assumes U: "utlist_laws (pf_utlist P)" and run: "route_iq P acl c = Ret c'" and wf: "occupants_wf (cx_room c)"
  shows "set (occupants (cx_room c')) \<subseteq> set (occupants (cx_room c))"
  using assms
proof (cases rule: route_iq_outcome)
  case (answered q r t d ch xs c1)
  then show ?thesis using settle_fold_subset [OF U, of c1 xs] by (auto simp: affected_chain_def)
qed (simp_all add: bounced_room)

lemma tail_occupants_subset:
  assumes U: "utlist_laws (pf_utlist P)" and run: "presence_tail P just_joined s c = Ret c'"
    and wf: "occupants_wf (cx_room c)" and s: "s \<in> set (occupants (cx_room c))"
  shows "occupants (cx_room c') =
      (if ip_type (cx_in c) = STANZA_PRESENCE_UNAVAILABLE then remove1 s (occupants (cx_room c))
       else occupants (cx_room c))"
    and "b \<noteq> s \<Longrightarrow> occupant (cx_room c') b = occupant (cx_room c) b"
    and "p_nick (occupant (cx_room c') s) = p_nick (occupant (cx_room c) s)"
    and "p_jid (occupant (cx_room c') s) = p_jid (occupant (cx_room c) s)"
    and "p_affiliation (occupant (cx_room c') s) = p_affiliation (occupant (cx_room c) s)"
proof -
  obtain inner where r: "let unavailable = (ip_type (cx_in c) = STANZA_PRESENCE_UNAVAILABLE);
         r = update_participant s (tail_update inner (updates_presence (cx_room c) s) unavailable) (cx_room c)
     in cx_room c' = clear_flag MUC_FLAG_JUST_CREATED (if unavailable then room_leave (pf_utlist P) r s else r)"
    by (rule presence_tail_room [OF run])
  define u where "u = tail_update inner (updates_presence (cx_room c) s) (ip_type (cx_in c) = STANZA_PRESENCE_UNAVAILABLE)"
  have lk: "dls_linked (room_participants (update_participant s u (cx_room c)))"
    using wf by (simp add: occupants_wf_def)
  note e = utlist_laws.room_leave_effect [OF U lk]
  have c': "room_participants (cx_room c') = room_participants
      (if ip_type (cx_in c) = STANZA_PRESENCE_UNAVAILABLE then room_leave (pf_utlist P) (update_participant s u (cx_room c)) s
       else update_participant s u (cx_room c))"
    using r by (simp add: Let_def u_def split: if_splits)
  have u: "p_nick (u p) = p_nick p" "p_jid (u p) = p_jid p" "p_affiliation (u p) = p_affiliation p" for p
    by (simp_all add: u_def tail_update_def Let_def)
  note sp = same_participants [OF c']
  show "occupants (cx_room c') =
      (if ip_type (cx_in c) = STANZA_PRESENCE_UNAVAILABLE then remove1 s (occupants (cx_room c))
       else occupants (cx_room c))" using s by (simp add: sp e)
  show "b \<noteq> s \<Longrightarrow> occupant (cx_room c') b = occupant (cx_room c) b" using s by (simp add: sp e)
  show "p_nick (occupant (cx_room c') s) = p_nick (occupant (cx_room c) s)"
    and "p_jid (occupant (cx_room c') s) = p_jid (occupant (cx_room c) s)"
    and "p_affiliation (occupant (cx_room c') s) = p_affiliation (occupant (cx_room c) s)"
    using s by (simp_all add: sp e u)
qed

text \<open>The ways a newcomer is let in: as a service administrator, or past every check.\<close>

definition passes_checks :: "platform \<Rightarrow> acl_config \<Rightarrow> muc_node \<Rightarrow> ctx \<Rightarrow> int \<Rightarrow> bool" where
  "passes_checks P acl mn c v \<longleftrightarrow>
     dls_size (room_participants (cx_room c)) < dls_max_size (room_participants (cx_room c)) \<and>
     affiliationss_get_by_jid (pf_pun P (room_affiliations (cx_room (found_room P c)))) acl (ip_real_from (cx_in c)) = Ret v \<and>
     v \<noteq> AFFIL_OUTCAST \<and>
     (has_flag (cx_room c) MUC_FLAG_PASSWORDPROTECTEDROOM \<longrightarrow>
        v = AFFIL_OWNER \<or> v > AFFIL_OWNER \<or> password_matches (ip_mem (cx_in c)) (room_password (cx_room c)) mn) \<and>
     (has_flag (cx_room c) MUC_FLAG_MEMBERSONLY \<longrightarrow> v \<ge> AFFIL_MEMBER)"

lemma stranger_enters:
  assumes U: "utlist_laws (pf_utlist P)" and run: "presence_of_stranger P acl mn c = Ret (c1, Some a)"
    and size: "buffer_size (jid_resource (ip_proxy_to (cx_in c))) \<le> MAX_JID_PART_SIZE"
  obtains v where "ip_type (cx_in c) \<noteq> STANZA_PRESENCE_UNAVAILABLE" "find_recipient c = None"
    "acl_role acl (ip_real_from (cx_in c)) \<ge> ACL_MUC_ADMIN \<and> v = AFFIL_OWNER \<or> passes_checks P acl mn c v"
    "occupants (cx_room c1) = a # occupants (cx_room c)" "a \<notin> set (occupants (cx_room c))"
    "nick_of (cx_room c1) a = buffer_bytes (jid_resource (ip_proxy_to (cx_in c)))"
    "p_affiliation (occupant (cx_room c1) a) = v" "ip_type (cx_in c1) = ip_type (cx_in c)"
    "\<And>b. b \<in> set (occupants (cx_room c)) \<Longrightarrow> occupant (cx_room c1) b = occupant (cx_room c) b"
proof -
  obtain v where free: "ip_type (cx_in c) \<noteq> STANZA_PRESENCE_UNAVAILABLE" "find_recipient c = None"
    and v: "admission P acl mn (found_room P c) = Ret (Inr v)"
    and join: "room_join (pf_utlist P) (cx_room (found_room P c)) (ip_real_from (cx_in c))
         (jid_resource (ip_proxy_to (cx_in c))) v = (cx_room c1, a)"
    and cin: "cx_in c1 = (cx_in c)\<lparr>ip_mem := ip_mem (cx_in c1)\<rparr>"
    using presence_of_stranger_cases [OF run] by auto
  note k = found_room_keeps [of P c]
  note sp = same_participants [OF k(1)]
  note e = utlist_laws.room_join_effect [OF U join size]
  have "acl_role acl (ip_real_from (cx_in c)) \<ge> ACL_MUC_ADMIN \<and> v = AFFIL_OWNER \<or> passes_checks P acl mn c v"
    using admission_cases [OF v] unfolding passes_checks_def has_flag_def k by auto
  moreover have "ip_type (cx_in c1) = ip_type (cx_in c)" by (subst cin) simp
  ultimately show ?thesis
    using that free e(1,2,4,5,7) unfolding sp by blast
qed

text \<open>
  Property C3: nobody enters a room but by a presence to a free nickname from an address that is
  not in it; he alone enters, under that nickname, and either the access list makes him a service
  administrator or there is room left, he is not an outcast, knows the password if the room has
  one (or owns the room), and is a member if the room is for members only.
\<close>

theorem only_admitted_enter:
  assumes "utlist_laws (pf_utlist P)" and "occupants_wf (cx_room c)"
    and "buffer_size (jid_resource (ip_proxy_to (cx_in c))) \<le> MAX_JID_PART_SIZE"
    and "room_route P acl limit now now' c = Ret c'"
    and "a \<in> set (occupants (cx_room c'))" and "a \<notin> set (occupants (cx_room c))"
  shows "ip_name (cx_in c) = STANZA_PRESENCE \<and> ip_type (cx_in c) \<noteq> STANZA_PRESENCE_UNAVAILABLE \<and>
    find_sender c = None \<and> find_recipient c = None \<and>
    occupants (cx_room c') = a # occupants (cx_room c) \<and>
    nick_of (cx_room c') a = buffer_bytes (jid_resource (ip_proxy_to (cx_in c))) \<and>
    (\<exists>mn. parse_muc_node (ip_mem (cx_in c)) (ip_muc (cx_in c)) = Ret mn \<and>
       (acl_role acl (ip_real_from (cx_in c)) \<ge> ACL_MUC_ADMIN \<or>
        passes_checks P acl mn c (p_affiliation (occupant (cx_room c') a))))"
proof -
  note U = assms(1) and wf = assms(2)
  have new: "\<not> set (occupants (cx_room c')) \<subseteq> set (occupants (cx_room c))" using assms(5,6) by blast
  have "kick_for_error P s c \<noteq> Ret c'" if "find_sender c = Some s" for s
    using kick_wf [OF U _ wf, of s c'] that new
    by (auto simp: find_sender_def set_remove1_subset dest!: find_by_jid_occupant)
  then have pres: "ip_name (cx_in c) = STANZA_PRESENCE" "route_presence P acl c = Ret c'"
    using assms(4) new message_occupants [of P limit now now' c c'] iq_occupants_subset [OF U _ wf, of acl c']
    by (auto simp: room_route_def split: if_splits option.splits)
  have stranger: "find_sender c = None"
  proof (rule ccontr)
    assume "find_sender c \<noteq> None"
    then obtain s where s: "find_sender c = Some s" by blast
    then obtain c1 goes_on where p: "presence_of_occupant s c = Ret (c1, goes_on)"
      and t: "(case goes_on of None \<Rightarrow> Ret c1 | Some a \<Rightarrow> presence_tail P False a c1) = Ret c'"
      using pres(2) by (auto simp: route_presence_def)
    have "s \<in> set (occupants (cx_room c))" using s by (auto simp: find_sender_def dest: find_by_jid_occupant)
    then show False
      using presence_of_occupant_wf [OF p wf] t new tail_occupants_subset(1) [OF U, of False s c1 c']
      by (auto simp: set_remove1_subset split: option.splits if_splits dest: notin_set_remove1)
  qed
  then obtain mn c1 goes_on where mn: "parse_muc_node (ip_mem (cx_in c)) (ip_muc (cx_in c)) = Ret mn"
    and p: "presence_of_stranger P acl mn c = Ret (c1, goes_on)"
    and t: "(case goes_on of None \<Rightarrow> Ret c1 | Some b \<Rightarrow> presence_tail P True b c1) = Ret c'"
    using pres(2) by (auto simp: route_presence_def)
  have "goes_on \<noteq> None"
    using presence_of_stranger_cases [OF p] t new
    by (auto simp: bounced_room same_participants(1) [OF found_room_keeps(1)])
  then obtain b where b: "goes_on = Some b" by blast
  obtain v where e: "ip_type (cx_in c) \<noteq> STANZA_PRESENCE_UNAVAILABLE" "find_recipient c = None"
    "acl_role acl (ip_real_from (cx_in c)) \<ge> ACL_MUC_ADMIN \<and> v = AFFIL_OWNER \<or> passes_checks P acl mn c v"
    "occupants (cx_room c1) = b # occupants (cx_room c)" "b \<notin> set (occupants (cx_room c))"
    "nick_of (cx_room c1) b = buffer_bytes (jid_resource (ip_proxy_to (cx_in c)))"
    "p_affiliation (occupant (cx_room c1) b) = v" "ip_type (cx_in c1) = ip_type (cx_in c)"
    by (rule stranger_enters [OF U p [unfolded b] assms(3)])
  have wf1: "occupants_wf (cx_room c1)" using presence_of_stranger_wf [OF U p wf assms(3)] by blast
  have t: "presence_tail P True b c1 = Ret c'" using t b by simp
  note o = tail_occupants_subset [OF U t wf1]
  have "occupants (cx_room c') = b # occupants (cx_room c)" "b = a"
    using o(1) e(1,4,8) assms(5,6) by auto
  then show ?thesis using pres(1) stranger e mn o(3,5) by (auto simp: nick_of_def)
qed

lemma two_elements:
  assumes "length xs = 2" and "distinct xs"
  obtains x y where "xs = [x, y]" and "x \<noteq> y"
  using assms by (auto simp: numeral_2_eq_2 length_Suc_conv)

theorem only_admitted_enter_witness:
  "\<exists>c' a. room_route reference_platform acl_nobody 0 0 0 example_ctx0 = Ret c' \<and> a \<noteq> 1 \<and>
     occupants (cx_room c') = [a, 1] \<and>
     nick_of (cx_room c') a = buffer_bytes (jid_resource (ip_proxy_to (cx_in example_ctx0)))"
proof -
  obtain c' where c': "room_route reference_platform acl_nobody 0 0 0 example_ctx0 = Ret c'"
    "map (p_nick \<circ> occupant (cx_room c')) (occupants (cx_room c')) = [Some ''Bob'', Some ''Ann'']"
    by (rule example_routed)
  have "length (occupants (cx_room c')) = 2" using arg_cong [OF c'(2), of length] by simp
  moreover have "distinct (occupants (cx_room c'))"
  proof -
    have "distinct (map (p_nick \<circ> occupant (cx_room c')) (occupants (cx_room c')))" unfolding c'(2) by simp
    then show ?thesis by (rule distinct_map [THEN iffD1, THEN conjunct1])
  qed
  ultimately obtain x y where "occupants (cx_room c') = [x, y]" "x \<noteq> y" by (rule two_elements)
  then obtain a where a: "a \<in> set (occupants (cx_room c'))" "a \<noteq> 1" by (cases "x = 1") auto
  then have "a \<notin> set (occupants (cx_room example_ctx0))" by (simp add: example_ctx0_ok(2))
  note only_admitted_enter [OF platform_laws(1) example_ctx0_ok(1,3) c'(1) a(1) this]
  then show ?thesis using c'(1) a(2) by (intro exI [of _ c'] exI [of _ a] conjI) (simp_all add: example_ctx0_ok(2))
qed

end
