(* ===== verification/Route_Admin.thy ===== *)
theory Route_Admin
  imports Route_Rules
begin

text \<open>
  What the administration of a room can do: the limits of a moderator, the effect of a change of
  affiliation on the occupants, and who leaves when the query is answered.
\<close>

subsection \<open>Moderators\<close>

text \<open>What a list of items of a moderator without higher privileges leaves as it was.\<close>

definition moderated :: "room \<Rightarrow> room \<times> affected \<Rightarrow> bool" where
  "moderated r0 st \<longleftrightarrow>
     room_affiliations (fst st) = room_affiliations r0 \<and>
     (\<forall>a. p_affiliation (occupant (fst st) a) = p_affiliation (occupant r0 a) \<and>
        (p_role (occupant (fst st) a) = p_role (occupant r0 a) \<or>
         p_affiliation (occupant r0 a) < AFFIL_ADMIN \<and> p_role (occupant r0 a) < ROLE_MODERATOR \<and>
         p_role (occupant (fst st) a) < ROLE_MODERATOR))"

lemma moderatedD:
  assumes "moderated r0 st"
  shows "room_affiliations (fst st) = room_affiliations r0"
    and "p_affiliation (occupant (fst st) a) = p_affiliation (occupant r0 a)"
    and "p_role (occupant (fst st) a) = p_role (occupant r0 a) \<or>
         p_affiliation (occupant r0 a) < AFFIL_ADMIN \<and> p_role (occupant r0 a) < ROLE_MODERATOR \<and>
         p_role (occupant (fst st) a) < ROLE_MODERATOR"
  using assms by (simp_all add: moderated_def)

lemma moderated_affect:
  assumes "moderated r0 (r, ch)"
  shows "moderated r0 (affect a reason (r, ch))"
proof -
  obtain r' ch' where e: "affect a reason (r, ch) = (r', ch')" by (cases "affect a reason (r, ch)")
  note f = affect_frame [OF e]
  have "p_affiliation (occupant r' b) = p_affiliation (occupant r b) \<and> p_role (occupant r' b) = p_role (occupant r b)" for b
    using f(3) [of b] by (simp add: visible_def)
  then show ?thesis using assms f(4) by (simp add: e moderated_def)
qed

lemma moderated_role:
  assumes "change_role s t (r, ch) = (e, st')" and "moderated r0 (r, ch)"
    and "p_affiliation (occupant r0 s) < AFFIL_ADMIN"
  shows "moderated r0 st'"
proof (cases "st' = (r, ch)")
  case False
  then obtain a where may: "may_change_role (occupant r s) (occupant r a) (at_role t)"
    and st': "st' = affect a (at_reason_node t) (update_participant a (\<lambda>p. p\<lparr>p_role := at_role t\<rparr>) r, ch)"
    using assms(1) by (auto simp: change_role_def split: if_splits option.splits)
  note m = moderatedD [OF assms(2), simplified]
  have "p_role (occupant r a) < ROLE_MODERATOR" "at_role t < ROLE_MODERATOR" "p_affiliation (occupant r0 a) < AFFIL_ADMIN"
    using may assms(3) m(2) [of s] m(2) [of a] by (auto simp: may_change_role_def)
  then have "moderated r0 (update_participant a (\<lambda>p. p\<lparr>p_role := at_role t\<rparr>) r, ch)"
    using m(1) m(2) m(3) by (simp add: moderated_def) (metis less_irrefl m(3))
  then show ?thesis unfolding st' by (rule moderated_affect)
qed (use assms(2) in simp)

lemma moderated_step:
  assumes "admin_step P acl s t st = Ret (e, st')" and "moderated r0 st"
    and "p_affiliation (occupant r0 s) < AFFIL_ADMIN"
  shows "moderated r0 st'"
proof -
  obtain r ch where st: "st = (r, ch)" by (cases st)
  obtain e1 st1 where c: "change_role s t st = (e1, st1)" by (cases "change_role s t st")
  have m1: "moderated r0 st1" by (rule moderated_role [OF c [unfolded st] assms(2) [unfolded st] assms(3)])
  have "change_affiliation P acl s t st1 = Ret (e2, st2) \<Longrightarrow> st2 = st1" for e2 st2
    using moderatedD(2) [OF m1, of s] assms(3) by (auto simp: change_affiliation_def split: if_splits)
  then show ?thesis
    using assms(1,2) m1 c by (auto simp: admin_step_def split: if_splits option.splits)
qed

text \<open>
  Property C4: a moderator who is not an admin of the room changes no affiliation, and only the
  roles of occupants who are neither admins nor moderators, whom he cannot make moderators; an
  occupant who is not even a moderator changes nothing and is refused.
\<close>

theorem moderator_limits:
  assumes "iq_set_admin P acl (Some s) q c = Ret (r', result)"
    and "p_affiliation (occupant (cx_room c) s) < AFFIL_ADMIN"
  shows "room_affiliations r' = room_affiliations (cx_room c) \<and>
    (\<forall>a. p_affiliation (occupant r' a) = p_affiliation (occupant (cx_room c) a) \<and>
       (p_role (occupant r' a) = p_role (occupant (cx_room c) a) \<or>
        p_affiliation (occupant (cx_room c) a) < AFFIL_ADMIN \<and>
        p_role (occupant (cx_room c) a) < ROLE_MODERATOR \<and> p_role (occupant r' a) < ROLE_MODERATOR)) \<and>
    (p_role (occupant (cx_room c) s) < ROLE_MODERATOR \<longrightarrow> r' = cx_room c \<and> (\<exists>e. result = IqBounce e))"
proof -
  obtain ns d e empty where q: "q = (ns, (d, e), empty)" by (cases q) auto
  have start: "moderated (cx_room c) (cx_room c, ch)" for ch by (simp add: moderated_def)
  have "moderated (cx_room c) (r', 0, 0)"
  proof (cases "r' = cx_room c")
    case False
    then obtain err ch where "admin_loop P acl s (ip_mem (cx_in c)) (d, e) (cx_room c, 0, 0) = Ret (err, r', ch)"
      using assms(1) by (auto simp: iq_set_admin_def q split: if_splits)
    then have "moderated (cx_room c) (r', ch)"
      by (rule admin_loop_invariant [rotated]) (use start assms(2) in \<open>auto intro: moderated_step\<close>)
    then show ?thesis by (simp add: moderated_def)
  qed (simp add: start)
  moreover have "p_role (occupant (cx_room c) s) < ROLE_MODERATOR \<longrightarrow> r' = cx_room c \<and> (\<exists>e. result = IqBounce e)"
    using assms(1) by (auto simp: iq_set_admin_def q split: if_splits)
  ultimately show ?thesis by (simp add: moderated_def)
qed

subsection \<open>An example\<close>

text \<open>Ann owns the room, Bob moderates it, Eve is just there.\<close>

definition example_guest :: "bytes \<Rightarrow> bytes \<Rightarrow> int \<Rightarrow> int \<Rightarrow> participant" where
  "example_guest node nick affiliation role =
     participant_zero\<lparr>p_jid := \<lparr>jid_node = Some node, jid_host = Some ''h'', jid_resource = Some ''w''\<rparr>,
       p_nick := Some nick, p_affiliation := affiliation, p_role := role\<rparr>"

definition example_meeting :: room where
  "example_meeting =
     (room_init (Some ''tea''))\<lparr>room_participants :=
       \<lparr>dls_head = [1, 2, 3],
        dls_cell = (\<lambda>a. if a = 1 then example_guest ''ann'' ''Ann'' AFFIL_OWNER ROLE_MODERATOR
                       else if a = 2 then example_guest ''bob'' ''Bob'' AFFIL_MEMBER ROLE_MODERATOR
                       else example_guest ''eve'' ''Eve'' AFFIL_NONE ROLE_PARTICIPANT),
        dls_size = 3, dls_max_size = 100\<rparr>\<rparr>"

definition example_admin :: "bytes \<Rightarrow> bytes \<Rightarrow> ctx" where
  \<comment> \<open>a list of items from one of them\<close>
  "example_admin node items =
     routed example_meeting (lit (''<iq type=`set` id=`1` from=`'' @ node @ ''@h/w` to=`tea@c`>'' @
       ''<query xmlns=`http://jabber.org/protocol/muc#admin`>'' @ items @ ''</query></iq>''))"

definition query_of :: "ctx \<Rightarrow> query" where
  "query_of c =
     (case find_query (ip_mem (cx_in c)) (ip_inner (cx_in c)) of Ret (Some q) \<Rightarrow> q | _ \<Rightarrow> ([], (0, 0), True))"

definition example_kick :: ctx where
  "example_kick = example_admin ''bob'' ''<item nick=`Eve` role=`none`/>''"

lemma example_meeting_simps:
  "occupants example_meeting = [1, 2, 3]" "dls_size (room_participants example_meeting) = 3"
  "occupant example_meeting (Suc 0) = example_guest ''ann'' ''Ann'' AFFIL_OWNER ROLE_MODERATOR"
  "occupant example_meeting 2 = example_guest ''bob'' ''Bob'' AFFIL_MEMBER ROLE_MODERATOR"
  "occupant example_meeting 3 = example_guest ''eve'' ''Eve'' AFFIL_NONE ROLE_PARTICIPANT"
  "room_flags example_meeting = MUC_FLAGS_DEFAULT" "room_affiliations example_meeting = room_affiliations (room_init (Some ''tea''))"
  by (simp_all add: example_meeting_def occupants_def occupant_def room_init_def Let_def)

lemma example_meeting_wf: "occupants_wf example_meeting"
  by (simp add: occupants_wf_def linked_occupants example_meeting_simps nick_of_def example_guest_def)

lemma cleanup_example:
  "case packet_cleanup (cx_in example_kick) PACKET_CLEANUP_SWITCH_FROM_TO of Ret _ \<Rightarrow> True | Fault _ \<Rightarrow> False"
  by code_simp

lemma cleaned_example:
  obtains c1 where "with_cleanup PACKET_CLEANUP_SWITCH_FROM_TO (example_kick\<lparr>cx_room := r\<rparr>) = Ret c1"
  using cleanup_example that by (auto simp: with_cleanup_def split: run.splits)

lemma kick_example:
  "(case iq_set_admin reference_platform acl_nobody (Some 2) (query_of example_kick) example_kick of
      Ret (r', result) \<Rightarrow> p_role (occupant r' 3) = ROLE_NONE
    | Fault _ \<Rightarrow> False)"
  by code_simp

theorem moderator_limits_witness:
  "\<exists>r' result. iq_set_admin reference_platform acl_nobody (Some 2) (query_of example_kick) example_kick = Ret (r', result) \<and>
     p_role (occupant r' 3) = ROLE_NONE \<and> room_affiliations r' = room_affiliations (cx_room example_kick)"
proof -
  obtain r' result where r: "iq_set_admin reference_platform acl_nobody (Some 2) (query_of example_kick) example_kick = Ret (r', result)"
    "p_role (occupant r' 3) = ROLE_NONE"
    using kick_example by (auto split: run.splits prod.splits)
  have "p_affiliation (occupant (cx_room example_kick) 2) < AFFIL_ADMIN"
    by (simp add: example_kick_def example_admin_def routed_def example_meeting_def example_guest_def occupant_def)
  from moderator_limits [OF r(1) this] r show ?thesis by (intro exI [of _ r'] exI [of _ result] conjI) simp_all
qed

subsection \<open>Affiliations\<close>

lemma affect_unlike:
  assumes "affect a reason (r, ch) = (r', ch')"
  shows "p_affiliation (occupant r' b) = p_affiliation (occupant r b)" "p_role (occupant r' b) = p_role (occupant r b)"
    "p_jid (occupant r' b) = p_jid (occupant r b)"
  using affect_frame(3) [OF assms, of b] by (simp_all add: visible_def)

text \<open>The affiliation the lists have for an occupant, and the loop that gives it to all of them.\<close>

definition listed :: "platform \<Rightarrow> acl_config \<Rightarrow> affiliations \<Rightarrow> participant \<Rightarrow> int run" where
  "listed P acl affs p = affiliationss_get_by_jid (pf_pun P affs) acl (p_jid p)"

definition refreshed :: "int run \<Rightarrow> participant \<Rightarrow> participant \<Rightarrow> bool" where
  "refreshed v p p' \<longleftrightarrow> v = Ret (p_affiliation p') \<and>
     p_role p' = (if p_affiliation p' = p_affiliation p then p_role p else refresh_role (p_affiliation p')) \<and>
     p_jid p' = p_jid p"

lemma refresh_all:
  "refresh_affiliations P acl reason as st = Ret st' \<Longrightarrow> distinct as \<Longrightarrow>
   room_affiliations (fst st') = room_affiliations (fst st) \<and>
   (\<forall>a \<in> set as. refreshed (listed P acl (room_affiliations (fst st)) (occupant (fst st) a))
      (occupant (fst st) a) (occupant (fst st') a)) \<and>
   (\<forall>a. a \<notin> set as \<longrightarrow> p_affiliation (occupant (fst st') a) = p_affiliation (occupant (fst st) a) \<and>
      p_role (occupant (fst st') a) = p_role (occupant (fst st) a) \<and>
      p_jid (occupant (fst st') a) = p_jid (occupant (fst st) a))"
proof (induction P acl reason "as" st rule: refresh_affiliations.induct)
  case (2 P acl reason a as st)
  obtain r ch where st: "st = (r, ch)" by (cases st)
  obtain v where v: "listed P acl (room_affiliations r) (occupant r a) = Ret v"
    using 2(2) by (auto simp: listed_def st)
  define p where "p = update_participant a (\<lambda>p. p\<lparr>p_role := refresh_role v, p_affiliation := v\<rparr>) r"
  define st1 where "st1 = (if v \<noteq> p_affiliation (occupant r a) then affect a reason (p, ch) else st)"
  have run: "refresh_affiliations P acl reason as st1 = Ret st'"
    using 2(2) v by (simp add: listed_def st st1_def p_def split: if_splits)
  have one: "room_affiliations (fst st1) = room_affiliations r"
    "refreshed (Ret v) (occupant r a) (occupant (fst st1) a)"
    "b \<noteq> a \<Longrightarrow> p_affiliation (occupant (fst st1) b) = p_affiliation (occupant r b)"
    "b \<noteq> a \<Longrightarrow> p_role (occupant (fst st1) b) = p_role (occupant r b)"
    "b \<noteq> a \<Longrightarrow> p_jid (occupant (fst st1) b) = p_jid (occupant r b)" for b
  proof -
    have p: "room_affiliations p = room_affiliations r"
      "occupant p b = (if b = a then occupant r a\<lparr>p_role := refresh_role v, p_affiliation := v\<rparr> else occupant r b)" for b
      by (simp_all add: p_def)
    obtain r1 ch1 where e: "affect a reason (p, ch) = (r1, ch1)" by (cases "affect a reason (p, ch)")
    have st1: "st1 = (if v \<noteq> p_affiliation (occupant r a) then (r1, ch1) else (r, ch))" by (simp add: st1_def e st)
    note u = affect_frame(4) [OF e] affect_unlike [OF e] p
    show "room_affiliations (fst st1) = room_affiliations r"
      "refreshed (Ret v) (occupant r a) (occupant (fst st1) a)"
      "b \<noteq> a \<Longrightarrow> p_affiliation (occupant (fst st1) b) = p_affiliation (occupant r b)"
      "b \<noteq> a \<Longrightarrow> p_role (occupant (fst st1) b) = p_role (occupant r b)"
      "b \<noteq> a \<Longrightarrow> p_jid (occupant (fst st1) b) = p_jid (occupant r b)"
      by (simp_all add: st1 u refreshed_def)
  qed
  have IH: "room_affiliations (fst st') = room_affiliations (fst st1)"
    "\<forall>b \<in> set as. refreshed (listed P acl (room_affiliations (fst st1)) (occupant (fst st1) b))
      (occupant (fst st1) b) (occupant (fst st') b)"
    "\<forall>b. b \<notin> set as \<longrightarrow> p_affiliation (occupant (fst st') b) = p_affiliation (occupant (fst st1) b) \<and>
      p_role (occupant (fst st') b) = p_role (occupant (fst st1) b) \<and>
      p_jid (occupant (fst st') b) = p_jid (occupant (fst st1) b)"
    using 2(1) v run 2(3) by (simp_all add: listed_def st st1_def p_def split: if_splits)
  have a: "a \<notin> set as" using 2(3) by simp
  have "refreshed (listed P acl (room_affiliations r) (occupant r b)) (occupant r b) (occupant (fst st') b)"
    if b: "b \<in> set (a # as)" for b
  proof (cases "b = a")
    case True
    then show ?thesis using one(2) IH(3) a v by (simp add: refreshed_def)
  next
    case False
    then have "refreshed (listed P acl (room_affiliations r) (occupant (fst st1) b)) (occupant (fst st1) b) (occupant (fst st') b)"
      using IH(2) b one(1) by simp
    then show ?thesis using one(3,4,5) [OF False] by (simp add: refreshed_def listed_def)
  qed
  then show ?case using IH one a by (simp add: st)
qed simp

lemma change_affiliation_Ret:
  assumes "change_affiliation P acl s t (r, ch) = Ret (None, st')" and "at_affiliation t \<noteq> AFFIL_UNCHANGED"
  obtains affs where
    "affiliationss_add (pf_utlist P) (room_affiliations r) (Some (occupant r s)) (at_affiliation t) (at_jid t)
       (at_reason_node t) = (affs, True)"
    "refresh_affiliations P acl (at_reason_node t) (occupants r) (r\<lparr>room_affiliations := affs\<rparr>, ch) = Ret st'"
proof -
  obtain affs ok where add: "affiliationss_add (pf_utlist P) (room_affiliations r) (Some (occupant r s))
      (at_affiliation t) (at_jid t) (at_reason_node t) = (affs, ok)"
    by (cases "affiliationss_add (pf_utlist P) (room_affiliations r) (Some (occupant r s))
      (at_affiliation t) (at_jid t) (at_reason_node t)")
  have "occupants (r\<lparr>room_affiliations := affs\<rparr>) = occupants r" by (simp add: occupants_def)
  then show ?thesis
    using assms add that by (cases ok) (auto simp: change_affiliation_def Let_def split: if_splits)
qed


text \<open>Ann bans Eve.\<close>

definition example_ban :: admin_target where
  "example_ban = admin_target_init\<lparr>at_affiliation := AFFIL_OUTCAST,
     at_jid := \<lparr>jid_node = Some ''eve'', jid_host = Some ''h'', jid_resource = None\<rparr>\<rparr>"

lemma ban_example:
  "case change_affiliation reference_platform acl_nobody 1 example_ban (example_meeting, 0, 0) of
     Ret (None, r', ch) \<Rightarrow> True | _ \<Rightarrow> False"
  by code_simp


subsection \<open>Departures\<close>

lemma or_keeps_flag:
  fixes x :: "32 word"
  assumes "x AND f \<noteq> 0"
  shows "(x OR d) AND f \<noteq> 0"
proof -
  obtain n where "bit (x AND f) n" using assms by (auto simp: bit_eq_iff)
  then have "bit ((x OR d) AND f) n" by (simp add: bit_simps)
  then show ?thesis by (intro notI) simp
qed

lemma settle_flags:
  assumes "utlist_laws (pf_utlist P)" and "dls_linked (room_participants (cx_room c))"
    and "a \<in> set (occupants (cx_room c))"
  shows "dls_size (room_participants (cx_room (settle_affected P a c))) =
      dls_size (room_participants (cx_room c)) - (if role_after (cx_room c) a = ROLE_NONE then 1 else 0)"
    and "has_flag (cx_room c) f \<Longrightarrow> has_flag (cx_room (settle_affected P a c)) f"
    and "dls_size (room_participants (cx_room c)) > 1 \<or> role_after (cx_room c) a \<noteq> ROLE_NONE \<Longrightarrow>
      room_flags (cx_room (settle_affected P a c)) = room_flags (cx_room c)"
proof -
  obtain role codes where o: "affected_outcome (cx_room c) (occupant (cx_room c) a) = (role, codes)" by fastforce
  let ?f = "\<lambda>p. p\<lparr>p_included := False, p_role := role, p_presence := (if role = ROLE_NONE then None else p_presence p)\<rparr>"
  define r1 where "r1 = update_participant a (\<lambda>p. p\<lparr>p_reason_node := None\<rparr>) (update_participant a ?f (cx_room c))"
  have r: "cx_room (settle_affected P a c) = (if role = ROLE_NONE then room_leave (pf_utlist P) r1 a else r1)"
    by (simp add: settle_affected_def o Let_def r1_def)
  have lk: "dls_linked (room_participants r1)" and a: "a \<in> set (occupants r1)" and fl: "room_flags r1 = room_flags (cx_room c)"
    and sz: "dls_size (room_participants r1) = dls_size (room_participants (cx_room c))"
    using assms(2,3) by (simp_all add: r1_def)
  note e = utlist_laws.room_leave_effect(3) [OF assms(1) lk a]
  show "dls_size (room_participants (cx_room (settle_affected P a c))) =
      dls_size (room_participants (cx_room c)) - (if role_after (cx_room c) a = ROLE_NONE then 1 else 0)"
    by (simp add: r e role_after_def o sz)
  have leave: "room_flags (room_leave (pf_utlist P) r1 a) = (if \<not> has_flag (cx_room c) MUC_FLAG_PERSISTENTROOM \<and>
      dls_size (room_participants r1) = 1 then room_flags r1 OR MUC_FLAG_DESTROYED else room_flags r1)"
    using utlist_laws.room_leave_effect(3) [OF assms(1) lk a] fl
    by (simp add: room_leave_def Let_def has_flag_def set_flag_def)
  show "has_flag (cx_room c) f \<Longrightarrow> has_flag (cx_room (settle_affected P a c)) f"
    by (simp add: r has_flag_def leave fl or_keeps_flag)
  show "dls_size (room_participants (cx_room c)) > 1 \<or> role_after (cx_room c) a \<noteq> ROLE_NONE \<Longrightarrow>
      room_flags (cx_room (settle_affected P a c)) = room_flags (cx_room c)"
    by (auto simp: r leave fl sz role_after_def o)
qed

lemma role_after_cong:
  "room_flags r' = room_flags r \<Longrightarrow> occupant r' a = occupant r a \<Longrightarrow> role_after r' a = role_after r a"
  by (simp add: role_after_def affected_outcome_def has_flag_def)

lemma settle_fold_occupants:
  assumes U: "utlist_laws (pf_utlist P)"
  shows "occupants_wf (cx_room c) \<Longrightarrow> distinct xs \<Longrightarrow> set xs \<subseteq> set (occupants (cx_room c)) \<Longrightarrow>
    int (length (occupants (cx_room c))) \<le> dls_size (room_participants (cx_room c)) \<Longrightarrow>
    occupants (cx_room (fold (settle_affected P) xs c)) =
      filter (\<lambda>a. \<not> (a \<in> set xs \<and> role_after (cx_room c) a = ROLE_NONE)) (occupants (cx_room c))"
proof (induction xs arbitrary: c)
  case (Cons x xs)
  let ?c = "settle_affected P x c" and ?o = "occupants (cx_room c)"
  have mem: "x \<in> set ?o" using Cons.prems(3) by simp
  have lk: "dls_linked (room_participants (cx_room c))" and d: "distinct ?o"
    using Cons.prems(1) by (simp_all add: occupants_wf_def linked_occupants)
  note e = settle_effect [OF U lk mem] and fl = settle_flags [OF U lk mem]
  have o: "occupants (cx_room ?c) = filter (\<lambda>a. \<not> (a = x \<and> role_after (cx_room c) x = ROLE_NONE)) ?o"
  proof (cases "role_after (cx_room c) x = ROLE_NONE")
    case True
    then show ?thesis
      using d by (simp add: e(1) distinct_remove1_removeAll removeAll_filter_not_eq) (intro filter_cong refl, auto)
  qed (simp add: e(1))
  have len: "int (length (occupants (cx_room ?c))) \<le> dls_size (room_participants (cx_room ?c))"
  proof -
    obtain n where "length ?o = Suc n" using mem by (cases "?o") auto
    then show ?thesis using Cons.prems(4) mem by (simp add: e(1) fl(1) length_remove1)
  qed
  have sub: "set xs \<subseteq> set (occupants (cx_room ?c))" using Cons.prems(2,3) by (auto simp: o)
  have same: "role_after (cx_room ?c) b = role_after (cx_room c) b" if "b \<in> set xs" for b
  proof (rule role_after_cong)
    have "b \<noteq> x" using that Cons.prems(2) by auto
    then show "occupant (cx_room ?c) b = occupant (cx_room c) b" by (rule e(2))
    have "{x, b} \<subseteq> set ?o" using mem that Cons.prems(3) by auto
    then have "card {x, b} \<le> card (set ?o)" by (rule card_mono [OF List.finite_set])
    also have "\<dots> \<le> length ?o" by (rule card_length)
    finally show "room_flags (cx_room ?c) = room_flags (cx_room c)"
      using fl(3) \<open>b \<noteq> x\<close> Cons.prems(4) by simp
  qed
  have "occupants (cx_room (fold (settle_affected P) xs ?c)) =
      filter (\<lambda>a. \<not> (a \<in> set xs \<and> role_after (cx_room ?c) a = ROLE_NONE)) (occupants (cx_room ?c))"
    using Cons.IH occupants_wf_settle [OF U Cons.prems(1) mem] Cons.prems(2) sub len by simp
  also have "\<dots> = filter (\<lambda>a. \<not> (a \<in> set xs \<and> role_after (cx_room c) a = ROLE_NONE)) (occupants (cx_room ?c))"
    by (rule filter_cong) (auto simp: same)
  also have "\<dots> = filter (\<lambda>a. \<not> (a \<in> set (x # xs) \<and> role_after (cx_room c) a = ROLE_NONE)) ?o"
    unfolding o filter_filter by (rule filter_cong [OF refl]) (simp, blast)
  finally show ?case by simp
qed simp

lemma iq_finish_departures:
  assumes "utlist_laws (pf_utlist P)" and "occupants_wf (cx_room c)"
    and "int (length (occupants (cx_room c))) \<le> dls_size (room_participants (cx_room c))"
    and "affected_chain (cx_room c) ch xs" and "t \<noteq> 0"
    and "with_cleanup PACKET_CLEANUP_SWITCH_FROM_TO c = Ret c1"
  shows "\<exists>c'. iq_finish P (IqReply t d ch) c = Ret c' \<and>
    occupants (cx_room c') =
      filter (\<lambda>a. \<not> (a \<in> set xs \<and> role_after (cx_room c) a = ROLE_NONE)) (occupants (cx_room c))"
proof -
  let ?c = "emit [bp_zero\<lparr>bp_type := STANZA_IQ_RESULT, bp_iq_type := t, bp_sys_data := d\<rparr>] c1"
  note k = with_cleanup_keeps [OF assms(6)]
  have room: "cx_room ?c = cx_room c" using k by simp
  have lk: "dls_linked (room_participants (cx_room c))" using assms(2) by (simp add: occupants_wf_def)
  have xs: "distinct xs" "set xs \<subseteq> set (occupants (cx_room c))" "follows (next_of (cx_room c)) (fst ch) xs"
    using assms(4) by (simp_all add: affected_chain_def)
  have "affected_loop P (Suc (length (occupants (cx_room c1)))) (fst ch) ?c = Ret (fold (settle_affected P) xs ?c)"
    by (rule affected_loop_returns [OF assms(1), THEN conjunct1])
      (use assms(2) xs chain_within [OF assms(4) lk] k in simp_all)
  then have "iq_finish P (IqReply t d ch) c = Ret (fold (settle_affected P) xs ?c)"
    using assms(5,6) by (simp add: iq_finish_def)
  moreover have "occupants (cx_room (fold (settle_affected P) xs ?c)) =
      filter (\<lambda>a. \<not> (a \<in> set xs \<and> role_after (cx_room c) a = ROLE_NONE)) (occupants (cx_room c))"
    using settle_fold_occupants [OF assms(1), of ?c xs] assms(2,3) xs room by simp
  ultimately show ?thesis by blast
qed


definition example_kicked :: room where
  "example_kicked = update_participant 3 (\<lambda>p. p\<lparr>p_role := ROLE_NONE, p_included := True\<rparr>) example_meeting"


text \<open>The loops that affect all occupants that pass a test chain exactly these.\<close>

lemma affect_included_other:
  assumes "b \<noteq> a"
  shows "p_included (occupant (fst (affect a reason st)) b) = p_included (occupant (fst st) b)"
proof -
  obtain r first cur where st: "st = (r, first, cur)" by (cases st) auto
  show ?thesis
  proof (cases "p_included (occupant r a)")
    case True
    then show ?thesis by (simp add: st affect_included)
  next
    case False
    then show ?thesis using assms by (simp add: st affect_new linked_to_def marked_def)
  qed
qed

lemma affect_visible: "visible (occupant (fst (affect a reason st)) b) = visible (occupant (fst st) b)"
proof -
  obtain r ch where st: "st = (r, ch)" by (cases st)
  obtain r' ch' where e: "affect a reason (r, ch) = (r', ch')" by (cases "affect a reason (r, ch)")
  show ?thesis using affect_frame(3) [OF e, of b] by (simp add: st e)
qed

lemma affect_all_chain:
  assumes f: "\<And>p. p_included (f p) = p_included p \<and> p_next_affected (f p) = p_next_affected p"
    and t: "\<And>p q. visible p = visible q \<Longrightarrow> test p = test q"
    and v: "\<And>p q. visible p = visible q \<Longrightarrow> visible (f p) = visible (f q)"
  shows "affected_chain (fst st) (snd st) xs \<Longrightarrow> set as \<subseteq> set (occupants (fst st)) \<Longrightarrow>
    0 \<notin> set (occupants (fst st)) \<Longrightarrow> distinct as \<Longrightarrow> \<forall>a \<in> set as. \<not> p_included (occupant (fst st) a) \<Longrightarrow>
    affected_chain (fst (affect_all test f reason as st)) (snd (affect_all test f reason as st))
      (xs @ filter (\<lambda>a. test (occupant (fst st) a)) as) \<and>
    (\<forall>b. visible (occupant (fst (affect_all test f reason as st)) b) =
       visible (if b \<in> set as \<and> test (occupant (fst st) b) then f (occupant (fst st) b) else occupant (fst st) b)) \<and>
    room_flags (fst (affect_all test f reason as st)) = room_flags (fst st) \<and>
    occupants (fst (affect_all test f reason as st)) = occupants (fst st) \<and>
    dls_size (room_participants (fst (affect_all test f reason as st))) = dls_size (room_participants (fst st))"
proof (induction "as" arbitrary: st xs)
  case (Cons a as)
  obtain r ch where st: "st = (r, ch)" by (cases st)
  show ?case
  proof (cases "test (occupant r a)")
    case False
    have "affect_all test f reason (a # as) st = affect_all test f reason as (r, ch)" using False by (simp add: st)
    then show ?thesis using Cons.IH [of "(r, ch)" xs] Cons.prems False by (auto simp: st)
  next
    case True
    define r1 where "r1 = update_participant a f r"
    obtain r2 ch2 where e: "affect a reason (r1, ch) = (r2, ch2)" by (cases "affect a reason (r1, ch)")
    have r1: "occupant r1 b = (if b = a then f (occupant r a) else occupant r b)" "occupants r1 = occupants r"
      "room_flags r1 = room_flags r" "dls_size (room_participants r1) = dls_size (room_participants r)" for b
      by (simp_all add: r1_def)
    note fr = affect_frame [OF e]
    have vis: "visible (occupant r2 b) = visible (if b = a then f (occupant r a) else occupant r b)" for b
      using fr(3) [of b] by (simp add: r1)
    have "affected_chain r1 ch xs"
      unfolding r1_def by (rule affected_chain_update) (use Cons.prems(1) f in \<open>simp_all add: st\<close>)
    from affect_chain [OF this _ _ e] have ch2: "affected_chain r2 ch2 (xs @ [a])"
      using Cons.prems(2,3,5) f by (simp add: st r1)
    have inc: "p_included (occupant r2 b) = p_included (occupant r b)" if "b \<noteq> a" for b
      using affect_included_other [OF that, of reason "(r1, ch)"] that by (simp add: e r1)
    have a: "a \<notin> set as" using Cons.prems(4) by simp
    have tests: "filter (\<lambda>b. test (occupant r2 b)) as = filter (\<lambda>b. test (occupant r b)) as"
      using a vis by (intro filter_cong refl t) (auto split: if_splits)
    have "\<forall>b \<in> set as. \<not> p_included (occupant r2 b)"
    proof
      fix b
      assume b: "b \<in> set as"
      then have "b \<noteq> a" using a by blast
      from inc [OF this] show "\<not> p_included (occupant r2 b)" using Cons.prems(5) b by (simp add: st)
    qed
    then have IH: "affected_chain (fst (affect_all test f reason as (r2, ch2))) (snd (affect_all test f reason as (r2, ch2)))
        ((xs @ [a]) @ filter (\<lambda>a. test (occupant r2 a)) as) \<and>
      (\<forall>b. visible (occupant (fst (affect_all test f reason as (r2, ch2))) b) =
         visible (if b \<in> set as \<and> test (occupant r2 b) then f (occupant r2 b) else occupant r2 b)) \<and>
      room_flags (fst (affect_all test f reason as (r2, ch2))) = room_flags r2 \<and>
      occupants (fst (affect_all test f reason as (r2, ch2))) = occupants r2 \<and>
      dls_size (room_participants (fst (affect_all test f reason as (r2, ch2)))) = dls_size (room_participants r2)"
      using Cons.IH [of "(r2, ch2)" "xs @ [a]"] ch2 Cons.prems(2-4) fr(1) by (simp add: st r1)
    have step: "affect_all test f reason (a # as) st = affect_all test f reason as (r2, ch2)"
      using True e by (simp add: st r1_def)
    have "visible (if b \<in> set as \<and> test (occupant r2 b) then f (occupant r2 b) else occupant r2 b) =
        visible (if b \<in> set (a # as) \<and> test (occupant r b) then f (occupant r b) else occupant r b)" for b
    proof (cases "b = a")
      case b: True
      then show ?thesis using True a vis [of a] by simp
    next
      case b: False
      have same: "visible (occupant r2 b) = visible (occupant r b)" using b vis by simp
      show ?thesis using b same t [OF same] v [OF same] by simp
    qed
    then show ?thesis using IH True unfolding step by (simp add: tests st fr r1)
  qed
qed simp



text \<open>
  A configuration that leaves the room for members only puts out exactly the
  occupants who are not at least members; the others stay, in order.
\<close>

theorem members_only_puts_out:
  assumes "utlist_laws (pf_utlist P)" and "occupants_wf r"
    and "int (length (occupants r)) \<le> dls_size (room_participants r)"
    and "\<forall>a \<in> set (occupants r). \<not> p_included (occupant r a)"
    and "has_flag r MUC_FLAG_MEMBERSONLY" and "enforce_members_only r = (r', ch)" and "cx_room c = r'"
    and "with_cleanup PACKET_CLEANUP_SWITCH_FROM_TO c = Ret c1"
  shows "\<exists>c'. iq_finish P (IqReply BUILD_IQ_EMPTY SysNone ch) c = Ret c' \<and>
    occupants (cx_room c') = filter (\<lambda>a. p_affiliation (occupant r a) \<ge> AFFIL_MEMBER) (occupants r)"
proof -
  let ?test = "\<lambda>p. p_affiliation p < AFFIL_MEMBER" and ?f = "\<lambda>p. p\<lparr>p_role := ROLE_NONE\<rparr>"
  let ?st = "affect_all ?test ?f (Some members_only_reason) (occupants r) (r, 0, 0)"
  let ?xs = "filter (\<lambda>a. ?test (occupant r a)) (occupants r)"
  have st: "?st = (r', ch)" using assms(5,6) by (simp add: enforce_members_only_def)
  have all: "affected_chain r' ch ?xs" "room_flags r' = room_flags r"
    "occupants r' = occupants r" "dls_size (room_participants r') = dls_size (room_participants r)"
    "visible (occupant r' b) =
      visible (if b \<in> set (occupants r) \<and> ?test (occupant r b) then ?f (occupant r b) else occupant r b)" for b
    using affect_all_chain [of ?f ?test "(r, 0, 0)" "[]" "occupants r" "Some members_only_reason"] assms(2,4)
    by (auto simp: st occupants_wf_def linked_occupants visible_def)
  have vis: "p_affiliation (occupant r' b) = p_affiliation (occupant r b)" "p_nick (occupant r' b) = p_nick (occupant r b)" for b
    using all(5) [of b] by (auto simp: visible_def split: if_splits)
  have gone: "role_after (cx_room c) a = ROLE_NONE" if "?test (occupant r a)" for a
    using that assms(5,7) by (simp add: role_after_def affected_outcome_def vis has_flag_def all(2))
  have "occupants_wf (cx_room c)"
    by (rule occupants_wf_cong [OF assms(2)]) (simp_all add: assms(7) all vis nick_of_def)
  then obtain c' where c': "iq_finish P (IqReply BUILD_IQ_EMPTY SysNone ch) c = Ret c'"
    "occupants (cx_room c') = filter (\<lambda>a. \<not> (a \<in> set ?xs \<and> role_after (cx_room c) a = ROLE_NONE)) (occupants (cx_room c))"
    using iq_finish_departures [OF assms(1) _ _ _ _ assms(8), of ch ?xs BUILD_IQ_EMPTY SysNone] all assms(3,7) by auto
  have "occupants (cx_room c') = filter (\<lambda>a. p_affiliation (occupant r a) \<ge> AFFIL_MEMBER) (occupants r)"
    unfolding c'(2) assms(7) all(3) by (rule filter_cong [OF refl]) (use gone in \<open>auto simp: assms(7)\<close>)
  with c'(1) show ?thesis by blast
qed

theorem members_only_puts_out_witness:
  "\<exists>r' ch c'. enforce_members_only (set_flag MUC_FLAG_MEMBERSONLY example_meeting) = (r', ch) \<and>
     iq_finish reference_platform (IqReply BUILD_IQ_EMPTY SysNone ch) (example_kick\<lparr>cx_room := r'\<rparr>) = Ret c' \<and>
     occupants (cx_room c') = [1, 2]"
proof -
  let ?r = "set_flag MUC_FLAG_MEMBERSONLY example_meeting"
  have "occupants ?r = occupants example_meeting" by (simp add: occupants_def)
  then have o: "occupants ?r = [1, 2, 3]" "occupant ?r = occupant example_meeting"
    by (simp_all add: example_meeting_simps occupant_def [abs_def])
  obtain r' ch where e: "enforce_members_only ?r = (r', ch)" by (cases "enforce_members_only ?r")
  obtain c1 where c1: "with_cleanup PACKET_CLEANUP_SWITCH_FROM_TO (example_kick\<lparr>cx_room := r'\<rparr>) = Ret c1" by (rule cleaned_example)
  have wf: "occupants_wf ?r"
    by (rule occupants_wf_cong [OF example_meeting_wf]) (simp_all add: o example_meeting_simps(1) nick_of_def)
  have marks: "\<forall>a \<in> set (occupants ?r). \<not> p_included (occupant ?r a)"
    by (simp add: o example_meeting_simps example_guest_def participant_zero_def)
  have flag: "has_flag ?r MUC_FLAG_MEMBERSONLY"
    by (simp add: has_flag_def set_flag_def example_meeting_simps MUC_FLAGS_DEFAULT_def)
  show ?thesis using members_only_puts_out [OF platform_laws(1) wf _ marks flag e _ c1] e
    by (simp add: o example_meeting_simps example_guest_def)
qed

subsection \<open>Half of a list\<close>

definition example_half :: ctx where
  "example_half = example_admin ''bob'' (''<item nick=`Eve` role=`none`/>'' @ ''<item nick=`Joe` role=`none`/>'')"

definition example_destroy :: "room \<Rightarrow> ctx" where
  "example_destroy r =
     routed r (lit (''<iq type=`set` id=`2` from=`ann@h/w` to=`tea@c`>'' @
       ''<query xmlns=`http://jabber.org/protocol/muc#owner`><destroy/></query></iq>''))"

text \<open>
  A list of items is not undone when one of its later items is refused: the sender
  gets an error, but an occupant named before stays with the role none and marked as affected;
  and because of the mark the destruction of the room afterwards passes him over.
\<close>

theorem half_of_a_list_stays:
  "case room_route reference_platform acl_nobody 0 0 0 example_half of
     Fault _ \<Rightarrow> False
   | Ret c1 \<Rightarrow>
       map bp_type (cx_out c1) = [STANZA_ERROR] \<and> occupants (cx_room c1) = [1, 2, 3] \<and>
       p_role (occupant (cx_room c1) 3) = ROLE_NONE \<and> p_included (occupant (cx_room c1) 3) \<and>
       (case room_route reference_platform acl_nobody 0 0 0 (example_destroy (cx_room c1)) of
          Fault _ \<Rightarrow> False
        | Ret c2 \<Rightarrow> occupants (cx_room c2) = [3] \<and> has_flag (cx_room c2) MUC_FLAG_DESTROYED)"
  by code_simp

end
