(* ===== verification/Route_Messages.thy ===== *)
theory Route_Messages
  imports Route_Admin
begin

text \<open>
  Messages to a room and to an occupant, and the two places where an ordinary stanza ends the
  process: the first message in a new room, and a newcomer on a machine with 8-byte pointers.
\<close>

subsection \<open>Who receives a message\<close>


definition example_talk :: "history_entry dls \<Rightarrow> bytes \<Rightarrow> ctx" where
  "example_talk history to =
     routed (example_meeting\<lparr>room_history := history\<rparr>)
       (lit (''<message type=`groupchat` from=`ann@h/w` to=`'' @ to @ ''`><body>hi</body></message>''))"

lemma talk_example:
  "find_sender (example_talk example_history ''tea@c'') = Some 1"
  "jid_resource (ip_proxy_to (cx_in (example_talk example_history ''tea@c''))) = None"
  "case route_message reference_platform 0 5 5 (example_talk example_history ''tea@c'') of
     Ret c' \<Rightarrow> length (cx_out c') = 3 | Fault _ \<Rightarrow> False"
  by code_simp+



lemma whisper_example:
  "find_sender (example_talk example_history ''tea@c/Bob'') = Some 1"
  "jid_resource (ip_proxy_to (cx_in (example_talk example_history ''tea@c/Bob''))) \<noteq> None"
  "case route_message reference_platform 0 5 5 (example_talk example_history ''tea@c/Bob'') of
     Ret c' \<Rightarrow> map (jid_node \<circ> bp_to) (cx_out c') = [Some ''bob''] | Fault _ \<Rightarrow> False"
  by code_simp+


subsection \<open>Where the process ends\<close>

text \<open>
  In a room whose history has not reached its limit (as in every new room) a message
  without a subject that passes the checks ends the process with a null pointer.
\<close>

theorem message_in_new_room_faults:
  assumes "utlist_laws (pf_utlist P)" and "dls_linked (room_history (cx_room c))"
    and "dls_size (room_history (cx_room c)) < dls_max_size (room_history (cx_room c))"
    and "find_sender c = Some s" and "jid_resource (ip_proxy_to (cx_in c)) = None"
    and "message_refused limit now s c = None"
    and "get_subject_node (ip_mem (cx_in c)) (ip_inner (cx_in c)) = Ret None"
    and "with_cleanup PACKET_CLEANUP_FROM_TO c = Ret c1"
    and "ingress_header c1 = Ret header" and "ingress_inner c1 = Ret inner"
  shows "route_message P limit now now' c = Fault NullDereference"
proof -
  obtain p where p: "packet_cleanup (cx_in c) PACKET_CLEANUP_FROM_TO = Ret p" and c1: "c1 = c\<lparr>cx_in := p\<rparr>"
    using assms(8) by (auto simp: with_cleanup_def)
  let ?f = "update_participant s (\<lambda>p. p\<lparr>p_last_message_time := now'\<rparr>)"
  have clean: "with_cleanup PACKET_CLEANUP_FROM_TO (set_room ?f c) = Ret ((set_room ?f c)\<lparr>cx_in := p\<rparr>)"
    by (simp add: with_cleanup_def p)
  have hd: "ingress_header ((set_room ?f c)\<lparr>cx_in := p\<rparr>) = Ret header" "ingress_inner ((set_room ?f c)\<lparr>cx_in := p\<rparr>) = Ret inner"
    using assms(9,10) by (simp_all add: c1 ingress_header_def ingress_inner_def)
  have "history_entries_push (pf_utlist P) (room_history (cx_room c)) = Fault NullDereference"
    using history_push_result [OF assms(1,2)] assms(3) by simp
  then show ?thesis
    using assms(4-7) clean hd
    by (auto simp: route_message_def route_public_message_def message_refused_def Let_def change_subject_def
      split: if_splits)
qed

definition example_first :: ctx where
  "example_first = example_talk (dls_init 20 history_entry_init) ''tea@c''"

lemma first_example:
  "find_sender example_first = Some 1"
  "jid_resource (ip_proxy_to (cx_in example_first)) = None"
  "message_refused 0 5 1 example_first = None"
  "get_subject_node (ip_mem (cx_in example_first)) (ip_inner (cx_in example_first)) = Ret None"
  "case with_cleanup PACKET_CLEANUP_FROM_TO example_first of
     Ret c1 \<Rightarrow> \<not> faults (ingress_header c1) \<and> \<not> faults (ingress_inner c1) | Fault _ \<Rightarrow> False"
  by code_simp+

theorem message_in_new_room_faults_witness:
  "route_message reference_platform 0 5 5 example_first = Fault NullDereference"
proof -
  obtain c1 header inner where c1: "with_cleanup PACKET_CLEANUP_FROM_TO example_first = Ret c1"
    "ingress_header c1 = Ret header" "ingress_inner c1 = Ret inner"
    using first_example(5) by (auto simp: faults_def split: run.splits)
  have h: "room_history (cx_room example_first) = dls_init 20 history_entry_init"
    by (simp add: example_first_def example_talk_def routed_def)
  then have "dls_linked (room_history (cx_room example_first))"
    "dls_size (room_history (cx_room example_first)) < dls_max_size (room_history (cx_room example_first))"
    by (simp_all add: dls_wf_linked)
  then show ?thesis
    by (rule message_in_new_room_faults [OF platform_laws(1) _ _ first_example(1-4) c1])
qed

text \<open>
  Property C34: on a machine with 8-byte pointers nobody but a service administrator can enter a
  room in which nobody is banned: the attempt ends the process, because the array of affiliation
  lists is read as an array of pointers to lists.
\<close>

theorem newcomer_faults_on_lp64:
  assumes "pf_pun P = pun_lp64" and "find_sender c = None" and "ip_type (cx_in c) \<noteq> STANZA_PRESENCE_UNAVAILABLE"
    and "jid_resource (ip_proxy_to (cx_in c)) \<noteq> None" and "find_recipient c = None"
    and "parse_muc_node (ip_mem (cx_in c)) (ip_muc (cx_in c)) = Ret mn"
    and "acl_role acl (ip_real_from (cx_in c)) < ACL_MUC_ADMIN"
    and "dls_size (room_participants (cx_room c)) < dls_max_size (room_participants (cx_room c))"
    and "dls_head (room_affiliations (cx_room (found_room P c)) ! 0) = []"
  shows "route_presence P acl c = Fault NullDereference"
proof -
  let ?affs = "room_affiliations (cx_room (found_room P c))"
  have "search_lists (pun_lp64 ?affs) j mode [0..<5] = Fault NullDereference" for j mode
    using assms(9) by (simp add: upt_rec [of 0 5] pun_lp64_def)
  then have "affiliationss_get_by_jid (pun_lp64 ?affs) acl (ip_real_from (cx_in c)) = Fault NullDereference"
    using assms(7) by (simp add: affiliationss_get_by_jid_def)
  then have "admission P acl mn (found_room P c) = Fault NullDereference"
    using assms(7,8) by (simp add: admission_def found_room_keeps assms(1) Let_def)
  then show ?thesis
    using assms(2-6) by (auto simp: route_presence_def presence_of_stranger_def Let_def)
qed

lemma newcomer_example:
  "find_sender example_ctx0 = None" "ip_type (cx_in example_ctx0) \<noteq> STANZA_PRESENCE_UNAVAILABLE"
  "jid_resource (ip_proxy_to (cx_in example_ctx0)) \<noteq> None" "find_recipient example_ctx0 = None"
  "parse_muc_node (ip_mem (cx_in example_ctx0)) (ip_muc (cx_in example_ctx0)) = Ret muc_node_init"
  "acl_role acl_nobody (ip_real_from (cx_in example_ctx0)) < ACL_MUC_ADMIN"
  "dls_size (room_participants (cx_room example_ctx0)) < dls_max_size (room_participants (cx_room example_ctx0))"
  "dls_head (room_affiliations (cx_room (found_room lp64_platform example_ctx0)) ! 0) = []"
  by code_simp+

theorem newcomer_faults_on_lp64_witness:
  "route_presence lp64_platform acl_nobody example_ctx0 = Fault NullDereference"
  by (rule newcomer_faults_on_lp64 [OF _ newcomer_example]) (simp add: lp64_platform_def)

end
