(* ===== verification/Xml_Correct.thy ===== *)
theory Xml_Correct
  imports Xmlfsm
begin

text \<open>
  What the scanner of theory Xmlfsm does on well-formed XML: a tree type with its printed
  form, and the theorems that the scanner's pointers land on the printed pieces and never
  leave the block. The tree and its printer are the specification; no code is modelled here.
\<close>

subsection \<open>Pieces of a block\<close>

text \<open>\<open>at m d xs\<close>: the block \<open>m\<close> holds \<open>xs\<close> from position \<open>d\<close> on.\<close>

definition at :: "bytes \<Rightarrow> nat \<Rightarrow> bytes \<Rightarrow> bool" where
  "at m d xs \<longleftrightarrow> d + length xs \<le> length m \<and> take (length xs) (drop d m) = xs"

lemma at_Nil [simp]: "at m d [] \<longleftrightarrow> d \<le> length m"
  by (simp add: at_def)

lemma at_Cons [simp]: "at m d (x # xs) \<longleftrightarrow> d < length m \<and> m ! d = x \<and> at m (Suc d) xs"
  by (auto simp: at_def Cons_nth_drop_Suc [symmetric])

lemma at_append [simp]: "at m d (xs @ ys) \<longleftrightarrow> at m d xs \<and> at m (d + length xs) ys"
proof (cases "d + length xs + length ys \<le> length m")
  case True
  then have "length (take (length xs) (drop d m)) = length xs" by simp
  moreover have "take (length xs + length ys) (drop d m) =
      take (length xs) (drop d m) @ take (length ys) (drop (d + length xs) m)"
    by (simp add: take_add add.commute)
  ultimately show ?thesis using True by (auto simp: at_def)
next
  case False
  then show ?thesis by (auto simp: at_def)
qed

lemma at_length: "at m d xs \<Longrightarrow> d + length xs \<le> length m"
  by (simp add: at_def)

lemma slice_of_at: "at m d xs \<Longrightarrow> slice_of m (d, d + length xs) = xs"
  by (simp add: at_def slice_of_def)

lemma at_middle: "at (pre @ xs @ post) (length pre) xs"
  by (simp add: at_def)

lemma skip_while_at:
  "at m d (xs @ c # ys) \<Longrightarrow> \<forall>x \<in> set xs. P x \<Longrightarrow> \<not> P c \<Longrightarrow> skip_while P m d = Ret (d + length xs)"
  by (induction xs arbitrary: d) (auto simp: skip_while.simps)

lemma memchr_at:
  "at m d (xs @ c # ys) \<Longrightarrow> c \<notin> set xs \<Longrightarrow> length xs < n \<Longrightarrow> memchr m d n c = Ret (Some (d + length xs))"
proof (induction xs arbitrary: d n)
  case Nil
  then show ?case by (cases n) auto
next
  case (Cons x xs)
  then obtain k where "n = Suc k" by (cases n) auto
  with Cons show ?case by auto
qed

lemma memchr_at_None:
  "at m d xs \<Longrightarrow> c \<notin> set xs \<Longrightarrow> memchr m d (length xs) c = Ret None"
  by (induction xs arbitrary: d) auto

subsection \<open>Trees and their text\<close>

datatype xattr = XAttr (xa_space: bytes) (xa_name: bytes) (xa_quote: char) (xa_value: bytes)

datatype xml =
    Element bytes "xattr list" bytes "xml list"   \<comment> \<open>name, attributes, space, children\<close>
  | EmptyElement bytes "xattr list" bytes         \<comment> \<open>name, attributes, space\<close>
  | Text bytes

definition print_attr :: "xattr \<Rightarrow> bytes" where
  "print_attr a = xa_space a @ xa_name a @ [CHR ''='', xa_quote a] @ xa_value a @ [xa_quote a]"

definition print_attrs :: "xattr list \<Rightarrow> bytes" where
  "print_attrs as = concat (map print_attr as)"

definition open_tag :: "bytes \<Rightarrow> xattr list \<Rightarrow> bytes \<Rightarrow> bytes" where
  "open_tag n as sp = ''<'' @ n @ print_attrs as @ sp @ ''>''"

definition empty_tag :: "bytes \<Rightarrow> xattr list \<Rightarrow> bytes \<Rightarrow> bytes" where
  "empty_tag n as sp = ''<'' @ n @ print_attrs as @ sp @ ''/>''"

definition close_tag :: "bytes \<Rightarrow> bytes" where
  "close_tag n = ''</'' @ n @ ''>''"

fun print_xml :: "xml \<Rightarrow> bytes" where
  "print_xml (Element n as sp cs) = open_tag n as sp @ concat (map print_xml cs) @ close_tag n"
| "print_xml (EmptyElement n as sp) = empty_tag n as sp"
| "print_xml (Text t) = t"

definition special :: "char \<Rightarrow> bool" where
  "special c \<longleftrightarrow> c \<in> {CHR ''<'', CHR ''>'', CHR ''/'', CHR 0x22, CHR 0x27}"

definition name_char :: "char \<Rightarrow> bool" where
  "name_char c \<longleftrightarrow> \<not> special c \<and> \<not> whitespace c \<and> c \<noteq> CHR ''=''"

definition name_ok :: "bytes \<Rightarrow> bool" where
  "name_ok n \<longleftrightarrow> n \<noteq> [] \<and> list_all name_char n"

definition attr_ok :: "xattr \<Rightarrow> bool" where
  "attr_ok a \<longleftrightarrow> xa_space a \<noteq> [] \<and> list_all whitespace (xa_space a) \<and> name_ok (xa_name a) \<and>
     (xa_quote a = CHR 0x22 \<or> xa_quote a = CHR 0x27) \<and> xa_quote a \<notin> set (xa_value a)"

definition text_ok :: "bytes \<Rightarrow> bool" where
  "text_ok t \<longleftrightarrow> list_all (\<lambda>c. c \<noteq> CHR ''<'' \<and> c \<noteq> CHR 0x22 \<and> c \<noteq> CHR 0x27) t"

fun xml_ok :: "xml \<Rightarrow> bool" where
  "xml_ok (Element n as sp cs) \<longleftrightarrow>
     name_ok n \<and> list_all attr_ok as \<and> list_all whitespace sp \<and> (\<forall>c \<in> set cs. xml_ok c)"
| "xml_ok (EmptyElement n as sp) \<longleftrightarrow> name_ok n \<and> list_all attr_ok as \<and> list_all whitespace sp"
| "xml_ok (Text t) \<longleftrightarrow> text_ok t"

definition is_text :: "xml \<Rightarrow> bool" where
  "is_text x \<longleftrightarrow> (case x of Text _ \<Rightarrow> True | _ \<Rightarrow> False)"

lemma is_text_simps [simp]:
  "is_text (Text t)" "\<not> is_text (Element n as sp cs)" "\<not> is_text (EmptyElement n as sp)"
  by (simp_all add: is_text_def)

lemma whitespace_plain: "whitespace c \<Longrightarrow> \<not> special c"
  by (auto simp: whitespace_def special_def)

lemma whitespace_neq [simp]:
  "\<not> whitespace CHR ''<''" "\<not> whitespace CHR ''>''" "\<not> whitespace CHR ''/''" "\<not> whitespace CHR ''=''"
  "\<not> whitespace CHR 0x22" "\<not> whitespace CHR 0x27"
  by (simp_all add: whitespace_def)

lemma special_eq_sign [simp]: "\<not> special CHR ''=''"
  by (simp add: special_def)

lemma name_char_plain: "name_char c \<Longrightarrow> \<not> special c"
  by (simp add: name_char_def)

subsection \<open>Scanning one piece\<close>

abbreviation straight :: "bytes \<Rightarrow> nat \<Rightarrow> nat \<Rightarrow> scan \<Rightarrow> nat option run" where
  "straight m e d s \<equiv> skip_loop m None e e d s"

lemma straight_char:
  "d < e \<Longrightarrow> d < length m \<Longrightarrow> quote_char s = None \<Longrightarrow>
   straight m e d s = (case scan_char d (m ! d) s of
      None \<Rightarrow> Ret (Some (Suc d)) | Some s' \<Rightarrow> straight m e (Suc d) s')"
  by (subst skip_loop_straight) (simp add: rd_def)

lemma scan_char_plain: "\<not> special c \<Longrightarrow> scan_char d c s = Some s"
  by (simp add: scan_char_def special_def)

lemma straight_plain [xml_steps]:
  "at m d xs \<Longrightarrow> \<forall>c \<in> set xs. \<not> special c \<Longrightarrow> d + length xs \<le> e \<Longrightarrow> quote_char s = None \<Longrightarrow>
   straight m e d s = straight m e (d + length xs) s"
proof (induction xs arbitrary: d)
  case Nil
  then show ?case by simp
next
  case (Cons x xs)
  then have "straight m e d s = straight m e (Suc d) s"
    by (simp add: straight_char scan_char_plain)
  also have "\<dots> = straight m e (Suc d + length xs) s" using Cons by (intro Cons.IH) auto
  finally show ?case by simp
qed

lemma scan_char_text:
  "c \<noteq> CHR ''<'' \<Longrightarrow> c \<noteq> CHR 0x22 \<Longrightarrow> c \<noteq> CHR 0x27 \<Longrightarrow> \<not> tag s \<Longrightarrow> scan_char d c s = Some s"
  by (simp add: scan_char_def split: option.split)

lemma straight_text [xml_steps]:
  "at m d xs \<Longrightarrow> text_ok xs \<Longrightarrow> d + length xs \<le> e \<Longrightarrow> quote_char s = None \<Longrightarrow> \<not> tag s \<Longrightarrow>
   straight m e d s = straight m e (d + length xs) s"
proof (induction xs arbitrary: d)
  case Nil
  then show ?case by simp
next
  case (Cons x xs)
  then have "straight m e d s = straight m e (Suc d) s"
    by (simp add: straight_char scan_char_text text_ok_def)
  also have "\<dots> = straight m e (Suc d + length xs) s"
    using Cons by (intro Cons.IH) (auto simp: text_ok_def)
  finally show ?case by simp
qed

lemma scan_quote_restore: "quote_char s = None \<Longrightarrow> s\<lparr>quote_char := Some q\<rparr>\<lparr>quote_char := None\<rparr> = s"
  by simp

lemma straight_quoted [xml_steps]:
  assumes "at m d (q # v @ [q])" and "q = CHR 0x22 \<or> q = CHR 0x27" and "q \<notin> set v"
    and "d + length v + 2 \<le> e" and "quote_char s = None"
  shows "straight m e d s = straight m e (d + length v + 2) s"
proof -
  have "straight m e d s = straight m e (Suc d) (s\<lparr>quote_char := Some q\<rparr>)"
    using assms by (auto simp: straight_char scan_char_def)
  also have "\<dots> = straight m e (Suc (Suc d + length v)) s"
  proof -
    have "memchr m (Suc d) (size_t_diff m (Suc d) e) q = Ret (Some (Suc d + length v))"
      using assms by (intro memchr_at [where ys = "[]"]) (auto simp: size_t_diff_def)
    then show ?thesis
      using assms(4,5) by (subst skip_loop_straight) (simp add: scan_quote_restore)
  qed
  finally show ?thesis by simp
qed

lemma length_print_attr: "length (print_attr a) = length (xa_space a) + length (xa_name a) + length (xa_value a) + 3"
  by (simp add: print_attr_def)

lemma straight_attr [xml_steps]:
  assumes "at m d (print_attr a)" and "attr_ok a" and "d + length (print_attr a) \<le> e"
    and "quote_char s = None"
  shows "straight m e d s = straight m e (d + length (print_attr a)) s"
proof -
  let ?head = "xa_space a @ xa_name a @ ''=''"
  have plain: "\<forall>c \<in> set ?head. \<not> special c"
    using assms(2) by (auto simp: attr_ok_def name_ok_def list_all_iff dest: name_char_plain whitespace_plain)
  have split: "print_attr a = ?head @ (xa_quote a # xa_value a @ [xa_quote a])"
    by (simp add: print_attr_def)
  have "straight m e d s = straight m e (d + length ?head) s"
    using assms plain by (intro straight_plain) (simp_all add: split)
  also have "\<dots> = straight m e (d + length ?head + length (xa_value a) + 2) s"
    using assms by (intro straight_quoted [where q = "xa_quote a"])
      (simp_all add: split attr_ok_def ac_simps)
  finally show ?thesis by (simp add: split ac_simps)
qed

lemma print_attrs_simps [simp]:
  "print_attrs [] = []" "print_attrs (a # as) = print_attr a @ print_attrs as"
  by (simp_all add: print_attrs_def)

lemma straight_attrs [xml_steps]:
  "at m d (print_attrs as) \<Longrightarrow> list_all attr_ok as \<Longrightarrow> d + length (print_attrs as) \<le> e \<Longrightarrow>
   quote_char s = None \<Longrightarrow> straight m e d s = straight m e (d + length (print_attrs as)) s"
proof (induction as arbitrary: d)
  case Nil
  then show ?case by simp
next
  case (Cons a as)
  have "straight m e d s = straight m e (d + length (print_attr a)) s"
    using Cons.prems by (intro straight_attr) auto
  also have "\<dots> = straight m e (d + length (print_attr a) + length (print_attrs as)) s"
    using Cons.prems by (intro Cons.IH) auto
  finally show ?case by (simp add: ac_simps)
qed

text \<open>Up to the end of a tag's attributes, with the tag open.\<close>

lemma straight_tag_head:
  assumes "at m d (''<'' @ n @ print_attrs as @ sp)" and "name_ok n" and "list_all attr_ok as"
    and "list_all whitespace sp" and "d + length n + length (print_attrs as) + length sp + 1 \<le> e"
    and "quote_char s = None"
  shows "straight m e d s = straight m e (d + length n + length (print_attrs as) + length sp + 1)
    (s\<lparr>nesting_level := nesting_level s + 1, tag := True\<rparr>)"
proof -
  let ?s = "s\<lparr>nesting_level := nesting_level s + 1, tag := True\<rparr>"
  have "straight m e d s = straight m e (Suc d) ?s"
    using assms by (simp add: straight_char scan_char_def)
  also have "\<dots> = straight m e (Suc d + length n) ?s"
    using assms by (intro straight_plain) (auto simp: name_ok_def list_all_iff name_char_plain)
  also have "\<dots> = straight m e (Suc d + length n + length (print_attrs as)) ?s"
    using assms by (intro straight_attrs) auto
  also have "\<dots> = straight m e (Suc d + length n + length (print_attrs as) + length sp) ?s"
    using assms by (intro straight_plain) (auto simp: list_all_iff whitespace_plain)
  finally show ?thesis by (simp add: ac_simps)
qed

definition outside :: "int \<Rightarrow> scan" where
  "outside n = scan_init\<lparr>nesting_level := n\<rparr>"

lemma outside_simps [simp]:
  "quote_char (outside n) = None" "tag (outside n) = False" "tag_closing_pos (outside n) = None"
  "nesting_level (outside n) = n"
  by (simp_all add: outside_def scan_init_def)

lemma outside_zero: "outside 0 = scan_init"
  by (simp add: outside_def scan_init_def)

lemma straight_open_tag:
  assumes "at m d (open_tag n as sp)" and "name_ok n" and "list_all attr_ok as"
    and "list_all whitespace sp" and "d + length (open_tag n as sp) \<le> e"
  shows "straight m e d (outside k) = straight m e (d + length (open_tag n as sp)) (outside (k + 1))"
proof -
  let ?d = "d + length n + length (print_attrs as) + length sp + 1"
  have "straight m e d (outside k) = straight m e ?d
      ((outside k)\<lparr>nesting_level := k + 1, tag := True\<rparr>)"
    using assms straight_tag_head [of m d n as sp e "outside k"] by (simp add: open_tag_def)
  also have "\<dots> = straight m e (Suc ?d) (outside (k + 1))"
    using assms by (simp add: straight_char scan_char_def open_tag_def outside_def scan_init_def ac_simps)
  finally show ?thesis by (simp add: open_tag_def add.assoc)
qed

lemma straight_empty_tag:
  assumes "at m d (empty_tag n as sp)" and "name_ok n" and "list_all attr_ok as"
    and "list_all whitespace sp" and "d + length (empty_tag n as sp) \<le> e"
  shows "straight m e d (outside k) =
    (if k = 0 then Ret (Some (d + length (empty_tag n as sp)))
     else straight m e (d + length (empty_tag n as sp)) (outside k))"
proof -
  let ?d = "d + length n + length (print_attrs as) + length sp + 1"
  let ?s = "(outside k)\<lparr>nesting_level := k + 1, tag := True\<rparr>"
  have "straight m e d (outside k) = straight m e ?d ?s"
    using assms straight_tag_head [of m d n as sp e "outside k"] by (simp add: empty_tag_def)
  also have "\<dots> = straight m e (Suc ?d) (?s\<lparr>tag_closing_pos := Some ?d\<rparr>)"
    using assms by (simp add: straight_char scan_char_def empty_tag_def ac_simps)
  also have "\<dots> = (if k = 0 then Ret (Some (Suc (Suc ?d))) else straight m e (Suc (Suc ?d)) (outside k))"
    using assms by (simp add: straight_char scan_char_def empty_tag_def outside_def scan_init_def ac_simps)
  finally show ?thesis by (simp add: empty_tag_def add.assoc)
qed

lemma straight_close_tag:
  assumes "at m d (close_tag n)" and "name_ok n" and "d + length (close_tag n) \<le> e"
  shows "straight m e d (outside k) =
    (if k = 1 then Ret (Some (d + length (close_tag n)))
     else straight m e (d + length (close_tag n)) (outside (k - 1)))"
proof -
  let ?s = "(outside k)\<lparr>nesting_level := k + 1, tag := True\<rparr>"
  let ?s2 = "?s\<lparr>tag_closing_pos := Some (Suc d)\<rparr>"
  have ne: "length n \<noteq> 0" using assms(2) by (simp add: name_ok_def)
  have "straight m e d (outside k) = straight m e (Suc d) ?s"
    using assms by (simp add: straight_char scan_char_def close_tag_def)
  also have "\<dots> = straight m e (Suc (Suc d)) ?s2"
    using assms by (simp add: straight_char scan_char_def close_tag_def)
  also have "\<dots> = straight m e (Suc (Suc d) + length n) ?s2"
    using assms by (intro straight_plain) (auto simp: close_tag_def name_ok_def list_all_iff name_char_plain)
  also have "\<dots> = (if k = 1 then Ret (Some (d + length (close_tag n)))
     else straight m e (d + length (close_tag n)) (outside (k - 1)))"
    using assms ne by (simp add: straight_char scan_char_def close_tag_def outside_def scan_init_def)
  finally show ?thesis .
qed

subsection \<open>Skipping a whole node\<close>

lemma straight_list:
  assumes "\<And>x d. x \<in> set cs \<Longrightarrow> at m d (print_xml x) \<Longrightarrow> d + length (print_xml x) \<le> e \<Longrightarrow>
      straight m e d (outside k) = straight m e (d + length (print_xml x)) (outside k)"
    and "at m d (concat (map print_xml cs))" and "d + length (concat (map print_xml cs)) \<le> e"
  shows "straight m e d (outside k) = straight m e (d + length (concat (map print_xml cs))) (outside k)"
  using assms
proof (induction cs arbitrary: d)
  case Nil
  then show ?case by simp
next
  case (Cons c cs)
  have "straight m e d (outside k) = straight m e (d + length (print_xml c)) (outside k)"
    using Cons.prems by (intro Cons.prems(1)) auto
  also have "\<dots> = straight m e (d + length (print_xml c) + length (concat (map print_xml cs))) (outside k)"
    using Cons.prems by (intro Cons.IH) auto
  finally show ?case by (simp add: add.assoc)
qed

lemma straight_xml:
  "xml_ok x \<Longrightarrow> at m d (print_xml x) \<Longrightarrow> d + length (print_xml x) \<le> e \<Longrightarrow> 0 \<le> k \<Longrightarrow>
   straight m e d (outside k) =
     (if k = 0 \<and> \<not> is_text x then Ret (Some (d + length (print_xml x)))
      else straight m e (d + length (print_xml x)) (outside k))"
proof (induction x arbitrary: d k)
  case (Element n as sp cs)
  let ?d1 = "d + length (open_tag n as sp)"
  let ?d2 = "?d1 + length (concat (map print_xml cs))"
  have "straight m e d (outside k) = straight m e ?d1 (outside (k + 1))"
    using Element.prems by (intro straight_open_tag) auto
  also have "\<dots> = straight m e ?d2 (outside (k + 1))"
  proof (rule straight_list)
    fix x d
    assume "x \<in> set cs" "at m d (print_xml x)" "d + length (print_xml x) \<le> e"
    then show "straight m e d (outside (k + 1)) = straight m e (d + length (print_xml x)) (outside (k + 1))"
      using Element.IH [of x d "k + 1"] Element.prems by auto
  qed (use Element.prems in auto)
  also have "\<dots> = (if k = 0 then Ret (Some (?d2 + length (close_tag n)))
      else straight m e (?d2 + length (close_tag n)) (outside k))"
    using Element.prems straight_close_tag [of m ?d2 n e "k + 1"] by auto
  finally show ?case by (simp add: add.assoc)
next
  case (EmptyElement n as sp)
  then show ?case using straight_empty_tag [of m d n as sp e k] by auto
next
  case (Text t)
  then show ?case using straight_text [of m d t e "outside k"] by auto
qed

lemma skip_node_xml:
  assumes "xml_ok x" and "\<not> is_text x" and "text_ok t" and "at m d (t @ print_xml x)"
    and "d + length t + length (print_xml x) \<le> e"
  shows "xmlfsm_skip_node m (d, e) None = Ret (Some (d + length t + length (print_xml x)))"
proof -
  have "straight m e d (outside 0) = straight m e (d + length t) (outside 0)"
    using assms by (intro straight_text) auto
  also have "\<dots> = Ret (Some (d + length t + length (print_xml x)))"
    using assms straight_xml [of x m "d + length t" e 0] by auto
  finally show ?thesis by (simp add: xmlfsm_skip_node_def outside_zero)
qed

text \<open>Text alone, or text before the end tag of the node around it, is no further node.\<close>

lemma skip_node_at_end:
  assumes "text_ok t" and "at m d (t @ tail)" and "tail = [] \<or> (\<exists>n. name_ok n \<and> tail = close_tag n)"
  shows "xmlfsm_skip_node m (d, d + length t + length tail) None = Ret None"
proof -
  let ?e = "d + length t + length tail"
  have before: "straight m ?e d (outside 0) = straight m ?e (d + length t) (outside 0)"
    using assms by (intro straight_text) auto
  have stop: "straight m ?e ?e s = Ret None" for s by (subst skip_loop_straight) simp
  have "straight m ?e (d + length t) (outside 0) = Ret None"
  proof (cases "tail = []")
    case True
    then show ?thesis using stop by simp
  next
    case False
    then obtain n where "name_ok n" "tail = close_tag n" using assms(3) by auto
    then show ?thesis
      using assms(2) straight_close_tag [of m "d + length t" n ?e 0] stop by auto
  qed
  with before show ?thesis by (simp add: xmlfsm_skip_node_def outside_zero)
qed

subsection \<open>Attributes\<close>

definition attr_slices :: "nat \<Rightarrow> xattr \<Rightarrow> (nat \<times> nat) \<times> (nat \<times> nat)" where
  "attr_slices d a =
     (let n = d + length (xa_space a); v = n + length (xa_name a) + 2
      in ((n, n + length (xa_name a)), (v, v + length (xa_value a))))"

lemma attr_slices_contents:
  assumes "at m d (print_attr a)"
  shows "slice_of m (fst (attr_slices d a)) = xa_name a"
    and "slice_of m (snd (attr_slices d a)) = xa_value a"
  using assms slice_of_at [of m "d + length (xa_space a)" "xa_name a"]
    slice_of_at [of m "d + length (xa_space a) + length (xa_name a) + 2" "xa_value a"]
  by (simp_all add: attr_slices_def print_attr_def Let_def)

lemma next_attr_at:
  assumes "at m d (print_attr a)" and "attr_ok a"
  shows "xmlfsm_next_attr m d =
    Ret (XMLPARSE_SUCCESS (fst (attr_slices d a)) (snd (attr_slices d a)), d + length (print_attr a))"
proof -
  obtain n ns where n: "xa_name a = n # ns" "name_char n" "list_all name_char ns"
    using assms(2) by (cases "xa_name a") (auto simp: attr_ok_def name_ok_def)
  let ?q = "xa_quote a"
  let ?d1 = "d + length (xa_space a)"
  let ?d2 = "?d1 + length (xa_name a)"
  let ?d3 = "?d2 + 1"
  have at1: "at m d (xa_space a @ n # ns @ CHR ''='' # ?q # xa_value a @ [?q])"
    using assms(1) n by (simp add: print_attr_def)
  have s1: "skip_while whitespace m d = Ret ?d1"
    using at1 assms(2) n(2) by (intro skip_while_at) (auto simp: attr_ok_def list_all_iff name_char_def)
  have at2: "at m ?d1 ((n # ns) @ CHR ''='' # ?q # xa_value a @ [?q])" using at1 by simp
  have s2: "skip_while (\<lambda>c. \<not> whitespace c \<and> c \<noteq> CHR ''='') m ?d1 = Ret ?d2"
    using at2 n skip_while_at [of m ?d1 "n # ns" "CHR ''=''" "?q # xa_value a @ [?q]"]
    by (auto simp: list_all_iff name_char_def)
  have at3: "at m ?d2 (''='' @ ?q # xa_value a @ [?q])" using at1 n by simp
  have s3: "skip_while (\<lambda>c. c \<noteq> CHR 0x22 \<and> c \<noteq> CHR 0x27) m ?d2 = Ret ?d3"
    using at3 assms(2) skip_while_at [of m ?d2 "''=''" ?q "xa_value a @ [?q]"] by (auto simp: attr_ok_def)
  have q: "m ! ?d3 = ?q" using at3 by simp
  have at4: "at m (?d3 + 1) (xa_value a @ ?q # [])" using at3 by simp
  have s4: "skip_while (\<lambda>c. c \<noteq> ?q) m (?d3 + 1) = Ret (?d3 + 1 + length (xa_value a))"
    using at4 assms(2) by (intro skip_while_at [where ys = "[]"]) (auto simp: attr_ok_def)
  have m1: "m ! ?d1 = n" using at2 by simp
  have "n \<noteq> CHR ''/'' \<and> n \<noteq> CHR ''>''" using n(2) by (auto simp: name_char_def special_def)
  with s1 s2 s3 s4 q m1 show ?thesis
    by (simp add: xmlfsm_next_attr_def attr_slices_def length_print_attr Let_def)
qed

lemma next_attr_end:
  assumes "list_all whitespace sp"
  shows "at m d (sp @ ''>'') \<Longrightarrow> xmlfsm_next_attr m d = Ret (XMLNODE_NOATTR, d + length sp + 1)"
    and "at m d (sp @ ''/>'') \<Longrightarrow> xmlfsm_next_attr m d = Ret (XMLNODE_EMPTY, d + length sp + 2)"
proof -
  assume a: "at m d (sp @ ''>'')"
  then have "skip_while whitespace m d = Ret (d + length sp)"
    using assms by (intro skip_while_at [where ys = "[]"]) (auto simp: list_all_iff)
  with a show "xmlfsm_next_attr m d = Ret (XMLNODE_NOATTR, d + length sp + 1)"
    by (simp add: xmlfsm_next_attr_def)
next
  assume a: "at m d (sp @ ''/>'')"
  then have "skip_while whitespace m d = Ret (d + length sp)"
    using assms by (intro skip_while_at [where ys = "''>''"]) (auto simp: list_all_iff)
  with a show "xmlfsm_next_attr m d = Ret (XMLNODE_EMPTY, d + length sp + 2)"
    by (simp add: xmlfsm_next_attr_def)
qed

text \<open>The attributes of a tag in the order of the text, with their slices.\<close>

fun attrs_slices :: "nat \<Rightarrow> xattr list \<Rightarrow> ((nat \<times> nat) \<times> (nat \<times> nat)) list" where
  "attrs_slices d [] = []"
| "attrs_slices d (a # as) = attr_slices d a # attrs_slices (d + length (print_attr a)) as"

fun loop_attrs :: "(nat \<times> nat \<Rightarrow> nat \<times> nat \<Rightarrow> 's \<Rightarrow> ('s \<times> bool) run) \<Rightarrow> nat \<Rightarrow> xattr list \<Rightarrow>
    attr_state \<times> nat \<Rightarrow> 's \<Rightarrow> ('s \<times> attr_state \<times> nat) run" where
  "loop_attrs body d [] fin s = Ret (s, fin)"
| "loop_attrs body d (a # as) fin s =
     bind_run (body (fst (attr_slices d a)) (snd (attr_slices d a)) s) (\<lambda>(s', leave).
       if leave then Ret (s', XMLPARSE_SUCCESS (fst (attr_slices d a)) (snd (attr_slices d a)),
         d + length (print_attr a))
       else loop_attrs body (d + length (print_attr a)) as fin s')"

lemma attr_loop_at:
  assumes "list_all attr_ok as" and "at m d (print_attrs as)"
    and "xmlfsm_next_attr m (d + length (print_attrs as)) = Ret fin"
    and "fst fin = XMLNODE_NOATTR \<or> fst fin = XMLNODE_EMPTY"
  shows "attr_loop body m d s = loop_attrs body d as fin s"
  using assms
proof (induction as arbitrary: d s)
  case Nil
  then show ?case by (subst attr_loop.simps) (cases fin, auto)
next
  case (Cons a as)
  have "attr_loop body m d s =
     bind_run (body (fst (attr_slices d a)) (snd (attr_slices d a)) s) (\<lambda>(s', leave).
       if leave then Ret (s', XMLPARSE_SUCCESS (fst (attr_slices d a)) (snd (attr_slices d a)),
         d + length (print_attr a))
       else attr_loop body m (d + length (print_attr a)) s')"
    using Cons.prems next_attr_at [of m d a] by (subst attr_loop.simps) simp
  moreover have "attr_loop body m (d + length (print_attr a)) s' =
      loop_attrs body (d + length (print_attr a)) as fin s'" for s'
    using Cons.prems by (intro Cons.IH) (simp_all add: add.assoc)
  ultimately show ?case by (simp cong: if_cong)
qed

text \<open>The end of a tag's attributes: the state the scanner returns there, and the position.\<close>

definition tag_end :: "nat \<Rightarrow> bool \<Rightarrow> attr_state \<times> nat" where
  "tag_end d emp = (if emp then (XMLNODE_EMPTY, d + 2) else (XMLNODE_NOATTR, d + 1))"

lemma attr_loop_tag:
  assumes "list_all attr_ok as" and "list_all whitespace sp"
    and "at m d (print_attrs as @ sp @ (if emp then ''/>'' else ''>''))"
  shows "attr_loop body m d s =
    loop_attrs body d as (tag_end (d + length (print_attrs as) + length sp) emp) s"
proof (rule attr_loop_at)
  show "xmlfsm_next_attr m (d + length (print_attrs as)) =
      Ret (tag_end (d + length (print_attrs as) + length sp) emp)"
    using assms next_attr_end [OF assms(2), of m "d + length (print_attrs as)"]
    by (cases emp) (simp_all add: tag_end_def)
qed (use assms in \<open>auto simp: tag_end_def\<close>)

lemma skip_attrs_tag:
  assumes "list_all attr_ok as" and "list_all whitespace sp"
    and "at m d (print_attrs as @ sp @ (if emp then ''/>'' else ''>''))"
  shows "xmlfsm_skip_attrs m d =
    Ret (\<not> emp, snd (tag_end (d + length (print_attrs as) + length sp) emp))"
proof -
  have "loop_attrs (\<lambda>n v s. Ret (s, False)) d as fin () = Ret ((), fin)" for d fin
    by (induction as arbitrary: d) auto
  then show ?thesis
    by (simp add: xmlfsm_skip_attrs_def attr_loop_tag [OF assms] tag_end_def)
qed

lemma skipto_attr_tag:
  assumes "list_all attr_ok as" and "list_all whitespace sp"
    and "at m d (print_attrs as @ sp @ (if emp then ''/>'' else ''>''))"
  shows "\<exists>r d'. xmlfsm_skipto_attr m d name = Ret (r, d') \<and>
    map_option (slice_of m) r = map_option xa_value (find (\<lambda>a. xa_name a = name) as) \<and>
    (r \<noteq> None \<longrightarrow> \<not> faults (xmlfsm_skip_attrs m d'))"
proof -
  let ?body = "\<lambda>n v s. if slice_of m n = name then Ret (Some v, True) else Ret (None, False)"
  let ?post = "sp @ (if emp then ''/>'' else ''>'')"
  have "\<exists>r st d'. loop_attrs ?body d as fin None = Ret (r, st, d') \<and>
      map_option (slice_of m) r = map_option xa_value (find (\<lambda>a. xa_name a = name) as) \<and>
      (r \<noteq> None \<longrightarrow> \<not> faults (xmlfsm_skip_attrs m d'))"
    if "at m d (print_attrs as @ ?post)" "list_all attr_ok as" for d fin
    using that
  proof (induction as arbitrary: d)
    case Nil
    then show ?case by (cases fin) simp
  next
    case (Cons a as)
    have rest: "at m (d + length (print_attr a)) (print_attrs as @ ?post)" using Cons.prems(1) by simp
    show ?case
    proof (cases "xa_name a = name")
      case True
      then show ?thesis
        using Cons.prems attr_slices_contents [of m d a] skip_attrs_tag [OF _ assms(2) rest]
        by (auto simp: prod_eq_iff)
    next
      case False
      then show ?thesis
        using Cons.IH [OF rest] Cons.prems attr_slices_contents [of m d a] by simp
    qed
  qed
  then show ?thesis
    using assms(1,3) by (fastforce simp: xmlfsm_skipto_attr_def attr_loop_tag [OF assms])
qed

subsection \<open>Names and siblings\<close>

fun xml_name :: "xml \<Rightarrow> bytes" where
  "xml_name (Element n as sp cs) = n"
| "xml_name (EmptyElement n as sp) = n"
| "xml_name (Text t) = []"

lemma print_xml_head:
  assumes "xml_ok x" and "\<not> is_text x"
  shows "\<exists>c rest. print_xml x = CHR ''<'' # xml_name x @ c # rest \<and>
    (whitespace c \<or> c = CHR ''>'' \<or> c = CHR ''/'')"
proof -
  have h: "\<exists>c rest. print_attrs as @ sp @ c0 # tl = c # rest \<and> (whitespace c \<or> c = CHR ''>'' \<or> c = CHR ''/'')"
    if "list_all attr_ok as" "list_all whitespace sp" "c0 = CHR ''>'' \<or> c0 = CHR ''/''" for as sp c0 tl
  proof (cases as)
    case Nil
    then show ?thesis using that by (cases sp) auto
  next
    case (Cons a as')
    then show ?thesis
      using that(1) by (cases "xa_space a") (auto simp: attr_ok_def print_attr_def)
  qed
  show ?thesis
  proof (cases x)
    case (Element n as sp cs)
    then show ?thesis
      using assms h [of as sp "CHR ''>''" "concat (map print_xml cs) @ close_tag n"]
      by (auto simp: open_tag_def)
  next
    case (EmptyElement n as sp)
    then show ?thesis using assms h [of as sp "CHR ''/''" "''>''"] by (auto simp: empty_tag_def)
  qed (use assms in auto)
qed

lemma xml_name_ok: "xml_ok x \<Longrightarrow> \<not> is_text x \<Longrightarrow> name_ok (xml_name x)"
  by (cases x) auto

lemma node_name_at:
  assumes "xml_ok x" and "\<not> is_text x" and "text_ok t" and "at m d (t @ print_xml x)"
    and "d + length t < e"
  shows "xmlfsm_node_name m (d, e) =
    Ret ((d + length t + 1, d + length t + 1 + length (xml_name x)), d + length t + 1 + length (xml_name x))"
proof -
  obtain c rest where p: "print_xml x = CHR ''<'' # xml_name x @ c # rest"
    and c: "whitespace c \<or> c = CHR ''>'' \<or> c = CHR ''/''"
    using print_xml_head [OF assms(1,2)] by blast
  have "memchr m d (size_t_diff m d e) (CHR ''<'') = Ret (Some (d + length t))"
    using assms(3-5) p by (intro memchr_at) (auto simp: size_t_diff_def text_ok_def list_all_iff)
  moreover have "skip_while (\<lambda>c. \<not> whitespace c \<and> c \<noteq> CHR ''>'' \<and> c \<noteq> CHR ''/'') m (d + length t + 1) =
      Ret (d + length t + 1 + length (xml_name x))"
    using assms(4) p c xml_name_ok [OF assms(1,2)]
    by (intro skip_while_at [where c = c and ys = rest])
      (auto simp: name_ok_def list_all_iff name_char_def special_def)
  ultimately show ?thesis by (simp add: xmlfsm_node_name_def)
qed

lemma next_sibling_at:
  assumes "xml_ok x" and "\<not> is_text x" and "text_ok t" and "at m d (t @ print_xml x)"
    and "d + length t + length (print_xml x) \<le> e"
  shows "xmlfsm_next_sibling m (d, e) = Ret (Some
    \<lparr>sib_start = d,
     sib_name = (d + length t + 1, d + length t + 1 + length (xml_name x)),
     sib_node = (d + length t + 1 + length (xml_name x), d + length t + length (print_xml x)),
     sib_rest = (d + length t + length (print_xml x), e)\<rparr>)"
proof -
  have "0 < length (print_xml x)" using print_xml_head [OF assms(1,2)] by auto
  then show ?thesis
    using skip_node_xml [OF assms] node_name_at [OF assms(1-4), of "d + length t + length (print_xml x)"]
    by (simp add: xmlfsm_next_sibling_def)
qed

lemma sibling_name_contents:
  assumes "xml_ok x" and "\<not> is_text x" and "at m d (t @ print_xml x)"
  shows "slice_of m (d + length t + 1, d + length t + 1 + length (xml_name x)) = xml_name x"
proof -
  have "at m (d + length t + 1) (xml_name x)" using assms print_xml_head [OF assms(1,2)] by auto
  then show ?thesis by (rule slice_of_at)
qed

lemma next_sibling_end:
  assumes "text_ok t" and "at m d (t @ tail)" and "tail = [] \<or> (\<exists>n. name_ok n \<and> tail = close_tag n)"
  shows "xmlfsm_next_sibling m (d, d + length t + length tail) = Ret None"
  using skip_node_at_end [OF assms] by (simp add: xmlfsm_next_sibling_def)

text \<open>
  The children of a node, each an element with the text before it; the loop over the
  children calls its body once for each of them, in order, and stops at the end tag.
\<close>

type_synonym child = "bytes \<times> xml"

definition child_ok :: "child \<Rightarrow> bool" where
  "child_ok c \<longleftrightarrow> text_ok (fst c) \<and> xml_ok (snd c) \<and> \<not> is_text (snd c)"

definition print_child :: "child \<Rightarrow> bytes" where
  "print_child c = fst c @ print_xml (snd c)"

definition print_children :: "child list \<Rightarrow> bytes" where
  "print_children cs = concat (map print_child cs)"

definition child_sibling :: "nat \<Rightarrow> nat \<Rightarrow> child \<Rightarrow> sibling" where
  "child_sibling d e c =
     (let n = d + length (fst c) + 1; n' = n + length (xml_name (snd c)); d' = d + length (print_child c)
      in \<lparr>sib_start = d, sib_name = (n, n'), sib_node = (n', d'), sib_rest = (d', e)\<rparr>)"

fun loop_children :: "(sibling \<Rightarrow> 's \<Rightarrow> ('s \<times> bool) run) \<Rightarrow> nat \<Rightarrow> nat \<Rightarrow> child list \<Rightarrow> bytes \<Rightarrow> 's \<Rightarrow>
    ('s \<times> bool \<times> nat \<times> nat) run" where
  "loop_children body d e [] t s = Ret (s, False, d, e)"
| "loop_children body d e (c # cs) t s =
     bind_run (body (child_sibling d e c) s) (\<lambda>(s', leave).
       if leave then Ret (s', True, sib_rest (child_sibling d e c))
       else loop_children body (d + length (print_child c)) e cs t s')"

lemma print_children_simps [simp]:
  "print_children [] = []" "print_children (c # cs) = print_child c @ print_children cs"
  by (simp_all add: print_children_def)

lemma next_sibling_child:
  assumes "child_ok c" and "at m d (print_child c)" and "d + length (print_child c) \<le> e"
  shows "xmlfsm_next_sibling m (d, e) = Ret (Some (child_sibling d e c))"
  using assms next_sibling_at [of "snd c" "fst c" m d e]
  by (simp add: child_ok_def print_child_def child_sibling_def Let_def add.assoc)

lemma child_sibling_name:
  assumes "child_ok c" and "at m d (print_child c)"
  shows "slice_of m (sib_name (child_sibling d e c)) = xml_name (snd c)"
  using assms sibling_name_contents [of "snd c" m d "fst c"]
  by (simp add: child_ok_def print_child_def child_sibling_def Let_def)

lemma sibling_loop_children:
  assumes "\<forall>c \<in> set cs. child_ok c" and "at m d (print_children cs @ t @ tail)" and "text_ok t"
    and "tail = [] \<or> (\<exists>n. name_ok n \<and> tail = close_tag n)"
    and "e = d + length (print_children cs) + length t + length tail"
  shows "sibling_loop body m (d, e) s = loop_children body d e cs t s"
  using assms
proof (induction cs arbitrary: d s)
  case Nil
  then show ?case
    using next_sibling_end [of t m d tail] by (subst sibling_loop.simps) simp
next
  case (Cons c cs)
  have "xmlfsm_next_sibling m (d, e) = Ret (Some (child_sibling d e c))"
    using Cons.prems by (intro next_sibling_child) auto
  moreover have "sibling_loop body m (d + length (print_child c), e) s' =
      loop_children body (d + length (print_child c)) e cs t s'" for s'
    using Cons.prems by (intro Cons.IH) (auto simp: add.assoc)
  moreover have "sib_rest (child_sibling d e c) = (d + length (print_child c), e)"
    by (simp add: child_sibling_def Let_def)
  ultimately show ?case by (subst sibling_loop.simps) (simp cong: if_cong)
qed

subsection \<open>Properties of the scanner\<close>

text \<open>
  Property C23: the scanner cuts exactly one node off the stream: started on a well-formed
  element, possibly after some text, it succeeds and leaves its position right behind the
  element, whatever follows in the block and wherever in it the data ends.
\<close>

theorem skip_node_exact:
  assumes "xml_ok x" and "\<not> is_text x" and "text_ok t"
    and "length (pre @ t @ print_xml x) \<le> e"
  shows "xmlfsm_skip_node (pre @ t @ print_xml x @ post) (length pre, e) None =
    Ret (Some (length (pre @ t @ print_xml x)))"
proof -
  have "at (pre @ (t @ print_xml x) @ post) (length pre) (t @ print_xml x)" by (rule at_middle)
  then show ?thesis
    using skip_node_xml [OF assms(1-3)] assms(4) by (simp add: add.assoc)
qed

theorem skip_node_exact_witness:
  "xmlfsm_skip_node (''xx'' @ ''hi '' @
       print_xml (Element ''a'' [XAttr '' '' ''b'' CHR 0x27 ''/>''] '' '' [Text ''t/'', EmptyElement ''c'' [] []]) @ ''<z>'')
     (2, 30) None = Ret (Some 26)"
proof -
  let ?x = "Element ''a'' [XAttr '' '' ''b'' CHR 0x27 ''/>''] '' '' [Text ''t/'', EmptyElement ''c'' [] []]"
  have ok: "xml_ok ?x"
    by (simp add: name_ok_def attr_ok_def text_ok_def name_char_def special_def whitespace_def)
  have t: "text_ok ''hi ''" by (simp add: text_ok_def)
  show ?thesis
    using skip_node_exact [OF ok _ t, of "''xx''" 30 "''<z>''"]
    by (simp add: open_tag_def empty_tag_def close_tag_def print_attr_def eval_nat_numeral)
qed

definition collect_names :: "bytes \<Rightarrow> nat \<times> nat \<Rightarrow> bytes list run" where
  "collect_names m buffer =
     bind_run (sibling_loop (\<lambda>sib names. Ret (names @ [slice_of m (sib_name sib)], False)) m buffer [])
       (\<lambda>(names, _). Ret names)"

lemma loop_children_names:
  assumes "\<forall>c \<in> set cs. child_ok c" and "at m d (print_children cs)"
  shows "loop_children (\<lambda>sib names. Ret (names @ [slice_of m (sib_name sib)], False)) d e cs t names =
    Ret (names @ map (xml_name \<circ> snd) cs, False, d + length (print_children cs), e)"
  using assms by (induction cs arbitrary: d names) (simp_all add: child_sibling_name add.assoc)

text \<open>
  Walking over the siblings inside a node visits each child element exactly
  once, in the order of the text, and ends at the node's own end tag.
\<close>

theorem siblings_in_order:
  assumes "\<forall>c \<in> set cs. child_ok c" and "text_ok t" and "name_ok n"
    and "m = pre @ print_children cs @ t @ close_tag n @ post"
  shows "collect_names m (length pre, length (pre @ print_children cs @ t @ close_tag n)) =
    Ret (map (xml_name \<circ> snd) cs)"
proof -
  have "m = pre @ (print_children cs @ t @ close_tag n) @ post" using assms(4) by simp
  then have at: "at m (length pre) (print_children cs @ t @ close_tag n)" by (simp only: at_middle)
  let ?e = "length pre + length (print_children cs) + length t + length (close_tag n)"
  have "sibling_loop body m (length pre, ?e) s = loop_children body (length pre) ?e cs t s"
    for body :: "sibling \<Rightarrow> bytes list \<Rightarrow> (bytes list \<times> bool) run" and s
    using assms(3) by (intro sibling_loop_children [OF assms(1) at assms(2)]) auto
  then show ?thesis
    using loop_children_names [OF assms(1), of m "length pre" ?e t "[]"] at
    by (simp add: collect_names_def add.assoc)
qed

theorem siblings_in_order_witness:
  "collect_names (print_children [([], EmptyElement ''x'' [] []), ('' '', Element ''y'' [] [] [Text ''/'']) ] @ [] @ close_tag ''q'')
     (0, 17) = Ret [''x'', ''y'']"
proof -
  let ?cs = "[([], EmptyElement ''x'' [] []), ('' '', Element ''y'' [] [] [Text ''/''])]"
  have ok: "\<forall>c \<in> set ?cs. child_ok c"
    by (simp add: child_ok_def name_ok_def text_ok_def name_char_def special_def whitespace_def)
  have n: "name_ok ''q''" by (simp add: name_ok_def name_char_def special_def whitespace_def)
  have t: "text_ok []" by (simp add: text_ok_def)
  show ?thesis
    using siblings_in_order [OF ok t n, of "print_children ?cs @ [] @ close_tag ''q''" "[]" "[]"]
    by (simp add: print_child_def open_tag_def empty_tag_def close_tag_def eval_nat_numeral)
qed

text \<open>
  Property C39: the scanner takes quotes for XML quotes in text, too: after an apostrophe in
  the text of a node, without another one up to the end of the received data, it does not
  see the node's end tag and reports that no complete node has been received.
\<close>

theorem apostrophe_hides_end_tag:
  assumes "name_ok n" and "list_all attr_ok as" and "list_all whitespace sp" and "text_ok t"
    and "CHR 0x27 \<notin> set rest"
    and "m = pre @ open_tag n as sp @ t @ CHR 0x27 # rest"
  shows "xmlfsm_skip_node m (length pre, length m) None = Ret None"
proof -
  let ?d1 = "length pre + length (open_tag n as sp)"
  let ?d2 = "?d1 + length t"
  have "m = pre @ (open_tag n as sp @ t @ CHR 0x27 # rest) @ []" using assms(6) by simp
  then have at: "at m (length pre) (open_tag n as sp @ t @ CHR 0x27 # rest)" by (simp only: at_middle)
  have len: "length m = ?d2 + 1 + length rest" using assms(6) by simp
  have "straight m (length m) (length pre) (outside 0) = straight m (length m) ?d1 (outside (0 + 1))"
    using assms(1-3) at len by (intro straight_open_tag) auto
  also have "\<dots> = straight m (length m) ?d2 (outside (0 + 1))"
    using assms(4) at len by (intro straight_text) auto
  also have "\<dots> = straight m (length m) (Suc ?d2) ((outside 1)\<lparr>quote_char := Some CHR 0x27\<rparr>)"
    using at len by (simp add: straight_char scan_char_def)
  also have "\<dots> = Ret None"
  proof (cases "rest = []")
    case True
    then show ?thesis using len by (subst skip_loop_straight) simp
  next
    case False
    have "memchr m (Suc ?d2) (length rest) (CHR 0x27) = Ret None"
      using at assms(5) by (intro memchr_at_None) (simp_all add: add.assoc)
    then show ?thesis
      using len by (subst skip_loop_straight) (simp add: size_t_diff_def)
  qed
  finally show ?thesis by (simp add: xmlfsm_skip_node_def outside_zero)
qed

theorem apostrophe_hides_end_tag_witness:
  "xmlfsm_skip_node (''<body>don'' @ [CHR 0x27] @ ''t</body>'') (0, 18) None = Ret None"
proof -
  have n: "name_ok ''body''" by (simp add: name_ok_def name_char_def special_def whitespace_def)
  have t: "text_ok ''don''" by (simp add: text_ok_def)
  show ?thesis
    using apostrophe_hides_end_tag [OF n _ _ t, of "[]" "[]" "''t</body>''"
      "''<body>don'' @ [CHR 0x27] @ ''t</body>''" "[]"]
    by (simp add: open_tag_def eval_nat_numeral)
qed

end
