(* ===== verification/Wire.thy ===== *)
theory Wire
  imports Builder Packet Xml_Correct
begin

text \<open>
  The text of a stanza, in and out: what \<open>packet_parse\<close> makes of a well-formed stanza, and that the
  stanzas the builder prints for messages are well-formed, are cut off the stream as one, and are
  parsed back into what was printed.
\<close>

subsection \<open>Parsing a well-formed stanza\<close>

definition attr_value :: "bytes \<Rightarrow> xattr list \<Rightarrow> bytes option" where
  "attr_value k as = map_option xa_value (find (\<lambda>a. xa_name a = k) as)"

text \<open>What the attributes say: the address of the sender, that of the receiver, and the type.\<close>

definition named_jid :: "bytes \<Rightarrow> xattr list \<Rightarrow> jid \<Rightarrow> jid" where
  "named_jid k as j = (case attr_value k as of None \<Rightarrow> j | Some v \<Rightarrow> snd (jid_struct (Some v)))"

definition type_code :: "int \<Rightarrow> bytes \<Rightarrow> int option" where
  "type_code name v =
     (case set_type (Some v) ((packet_zero [])\<lparr>ip_name := name\<rparr>) of (p, good) \<Rightarrow> if good then Some (ip_type p) else None)"

definition named_type :: "int \<Rightarrow> xattr list \<Rightarrow> int \<Rightarrow> int" where
  "named_type name as n = (case attr_value ''type'' as of None \<Rightarrow> n | Some v \<Rightarrow> the (type_code name v))"

definition attr_accepted :: "int \<Rightarrow> xattr \<Rightarrow> bool" where
  "attr_accepted name a \<longleftrightarrow>
     (xa_name a \<in> {''from'', ''to''} \<longrightarrow> fst (jid_struct (Some (xa_value a)))) \<and>
     (xa_name a = ''type'' \<longrightarrow> type_code name (xa_value a) \<noteq> None)"

lemma set_type_code:
  assumes "type_code (ip_name p) v = Some n"
  shows "set_type (Some v) p = (p\<lparr>ip_type := n\<rparr>, True)"
  using assms by (auto simp: type_code_def set_type_def packet_zero_def split: if_splits)

lemma attr_value_simps [simp]:
  "attr_value k [] = None"
  "attr_value k (a # as) = (if xa_name a = k then Some (xa_value a) else attr_value k as)"
  by (simp_all add: attr_value_def)

lemma attr_value_None: "k \<notin> xa_name ` set as \<Longrightarrow> attr_value k as = None"
  by (induction as) auto

text \<open>One attribute, when it is accepted.\<close>

lemma packet_attr_accepted:
  assumes "at (ip_mem p) d (print_attr a)" and "attr_accepted (ip_name p) a"
  shows "\<exists>p'. packet_attr (fst (attr_slices d a)) (snd (attr_slices d a)) (p, True) = Ret ((p', True), False) \<and>
    ip_name p' = ip_name p \<and> ip_mem p' = ip_mem p \<and>
    ip_header p' = map_option (\<lambda>h. (fst h, d + length (print_attr a))) (ip_header p) \<and>
    ip_real_from p' = named_jid ''from'' [a] (ip_real_from p) \<and>
    ip_proxy_to p' = named_jid ''to'' [a] (ip_proxy_to p) \<and>
    ip_type p' = named_type (ip_name p) [a] (ip_type p)"
proof -
  let ?n = "fst (attr_slices d a)" and ?v = "snd (attr_slices d a)"
  have s: "slice_of (ip_mem p) ?n = xa_name a" "slice_of (ip_mem p) ?v = xa_value a"
    using attr_slices_contents [OF assms(1)] by simp_all
  have e: "snd ?v + 1 = d + length (print_attr a)" by (simp add: attr_slices_def length_print_attr Let_def)
  define p1 where "p1 = p\<lparr>ip_header := map_option (\<lambda>h. (fst h, snd ?v + 1)) (ip_header p)\<rparr>"
  have ty: "set_type (Some (xa_value a)) p1 = (p1\<lparr>ip_type := n\<rparr>, True)" if "type_code (ip_name p) (xa_value a) = Some n" for n
    using set_type_code [of p1 "xa_value a" n] that by (simp add: p1_def)
  have good: "jid_struct (Some (xa_value a)) = (True, snd (jid_struct (Some (xa_value a))))" if "xa_name a \<in> {''from'', ''to''}"
    using assms(2) that by (auto simp: attr_accepted_def prod_eq_iff)
  consider "xa_name a = ''from''" | "xa_name a = ''to''" | "xa_name a = ''type''" | "xa_name a \<notin> {''from'', ''to'', ''type''}" by blast
  then show ?thesis
  proof cases
    case 1
    then obtain j where "jid_struct (Some (xa_value a)) = (True, j)" using good by blast
    then show ?thesis using 1 s e by (simp add: packet_attr_def Let_def named_jid_def named_type_def)
  next
    case 2
    then obtain j where "jid_struct (Some (xa_value a)) = (True, j)" using good by blast
    then show ?thesis using 2 s e by (simp add: packet_attr_def Let_def named_jid_def named_type_def)
  next
    case 3
    then obtain n where n: "type_code (ip_name p) (xa_value a) = Some n" using assms(2) by (auto simp: attr_accepted_def)
    then show ?thesis using 3 s e ty [OF n]
      by (simp add: packet_attr_def Let_def named_jid_def named_type_def p1_def [symmetric]) (simp add: p1_def)
  next
    case 4
    then show ?thesis using s e by (auto simp: packet_attr_def Let_def named_jid_def named_type_def)
  qed
qed

lemma named_Cons:
  assumes "xa_name a \<notin> xa_name ` set as"
  shows "named_jid k (a # as) j = named_jid k as (named_jid k [a] j)"
    and "named_type name (a # as) n = named_type name as (named_type name [a] n)"
  using assms by (auto simp: named_jid_def named_type_def attr_value_None split: option.split)

lemma packet_attrs_accepted:
  assumes "at (ip_mem p) d (print_attrs as)" and "\<forall>a \<in> set as. attr_accepted (ip_name p) a" and "distinct (map xa_name as)"
    and "ip_header p = Some (h, d)"
  shows "\<exists>p'. loop_attrs packet_attr d as fin (p, True) = Ret ((p', True), fin) \<and>
    ip_name p' = ip_name p \<and> ip_mem p' = ip_mem p \<and> ip_header p' = Some (h, d + length (print_attrs as)) \<and>
    ip_real_from p' = named_jid ''from'' as (ip_real_from p) \<and>
    ip_proxy_to p' = named_jid ''to'' as (ip_proxy_to p) \<and>
    ip_type p' = named_type (ip_name p) as (ip_type p)"
  using assms
proof (induction as arbitrary: p d)
  case Nil
  then show ?case by (simp add: named_jid_def named_type_def)
next
  case (Cons a as)
  obtain p1 where p1: "packet_attr (fst (attr_slices d a)) (snd (attr_slices d a)) (p, True) = Ret ((p1, True), False)"
    "ip_name p1 = ip_name p" "ip_mem p1 = ip_mem p"
    "ip_header p1 = map_option (\<lambda>h. (fst h, d + length (print_attr a))) (ip_header p)"
    "ip_real_from p1 = named_jid ''from'' [a] (ip_real_from p)" "ip_proxy_to p1 = named_jid ''to'' [a] (ip_proxy_to p)"
    "ip_type p1 = named_type (ip_name p) [a] (ip_type p)"
    using packet_attr_accepted [of p d a] Cons.prems(1,2) by auto
  have "\<exists>p'. loop_attrs packet_attr (d + length (print_attr a)) as fin (p1, True) = Ret ((p', True), fin) \<and>
      ip_name p' = ip_name p1 \<and> ip_mem p' = ip_mem p1 \<and>
      ip_header p' = Some (h, d + length (print_attr a) + length (print_attrs as)) \<and>
      ip_real_from p' = named_jid ''from'' as (ip_real_from p1) \<and> ip_proxy_to p' = named_jid ''to'' as (ip_proxy_to p1) \<and>
      ip_type p' = named_type (ip_name p1) as (ip_type p1)"
    using Cons.prems p1(2,3,4) by (intro Cons.IH) simp_all
  then obtain p' where p': "loop_attrs packet_attr (d + length (print_attr a)) as fin (p1, True) = Ret ((p', True), fin)"
    "ip_name p' = ip_name p1" "ip_mem p' = ip_mem p1" "ip_header p' = Some (h, d + length (print_attr a) + length (print_attrs as))"
    "ip_real_from p' = named_jid ''from'' as (ip_real_from p1)" "ip_proxy_to p' = named_jid ''to'' as (ip_proxy_to p1)"
    "ip_type p' = named_type (ip_name p1) as (ip_type p1)" by blast
  have "xa_name a \<notin> xa_name ` set as" using Cons.prems(3) by simp
  note named = named_Cons [OF this]
  show ?case
    using p1 p' by (intro exI [of _ p']) (simp add: named add.assoc)
qed

lemma parse_element:
  assumes "xml_ok (Element n as sp cs)" and "stanza_name_code n = Some code" and "code \<noteq> STANZA_PRESENCE"
    and "\<forall>a \<in> set as. attr_accepted code a" and "distinct (map xa_name as)" and "text_ok t"
  shows "\<exists>p h i. packet_parse (t @ print_xml (Element n as sp cs) @ post) (0, length (t @ print_xml (Element n as sp cs))) =
      Ret (p, packet_routable p) \<and>
    ip_name p = code \<and> ip_real_from p = named_jid ''from'' as jid_init \<and> ip_proxy_to p = named_jid ''to'' as jid_init \<and>
    ip_type p = named_type code as 0 \<and> ip_mem p = t @ print_xml (Element n as sp cs) @ post \<and>
    ip_header p = Some h \<and> slice_of (ip_mem p) h = print_attrs as \<and>
    ip_inner p = Some i \<and> slice_of (ip_mem p) i = concat (map print_xml cs)"
proof -
  let ?x = "Element n as sp cs" and ?inner = "concat (map print_xml cs)"
  let ?m = "t @ print_xml ?x @ post" and ?d = "length t + 1 + length n"
  let ?d' = "?d + length (print_attrs as) + length sp + 1"
  have m: "at ?m 0 (t @ print_xml ?x)" using at_middle [of "[]" "t @ print_xml ?x" post] by simp
  then have at: "at ?m ?d (print_attrs as @ sp @ ''>'')" "at ?m ?d' ?inner"
    by (simp_all add: open_tag_def add.assoc)
  have tag: "at ?m ?d (print_attrs as @ sp @ (if False then ''/>'' else ''>''))" using at(1) by simp
  have ok: "list_all attr_ok as" "list_all whitespace sp" using assms(1) by simp_all
  define p0 where "p0 = (packet_zero ?m)\<lparr>ip_name := code, ip_header := Some (?d, ?d)\<rparr>"
  have p0: "ip_mem p0 = ?m" "ip_name p0 = code" "ip_header p0 = Some (?d, ?d)" "ip_real_from p0 = jid_init" "ip_proxy_to p0 = jid_init"
    "ip_type p0 = 0" by (simp_all add: p0_def packet_zero_def)
  define fin where "fin = (XMLNODE_NOATTR, ?d')"
  have acc: "\<forall>a \<in> set as. attr_accepted (ip_name p0) a" using assms(4) by (simp add: p0(2))
  have "at (ip_mem p0) ?d (print_attrs as)" using at(1) unfolding p0(1) at_append by blast
  then obtain p where p: "loop_attrs packet_attr ?d as fin (p0, True) = Ret ((p, True), fin)"
    "ip_name p = ip_name p0" "ip_mem p = ip_mem p0" "ip_header p = Some (?d, ?d + length (print_attrs as))"
    "ip_real_from p = named_jid ''from'' as (ip_real_from p0)" "ip_proxy_to p = named_jid ''to'' as (ip_proxy_to p0)"
    "ip_type p = named_type (ip_name p0) as (ip_type p0)"
    using packet_attrs_accepted [OF _ acc assms(5) p0(3)] by blast
  have loop: "attr_loop packet_attr ?m ?d (p0, True) = Ret ((p, True), fin)"
    using attr_loop_tag [OF ok tag, of packet_attr "(p0, True)"] p(1) by (simp add: fin_def tag_end_def)
  have name: "xmlfsm_node_name ?m (0, length (t @ print_xml ?x)) = Ret ((length t + 1, ?d), ?d)"
    using node_name_at [OF assms(1) _ assms(6), of ?m 0] m by (simp add: open_tag_def)
  have "at ?m (length t + 1) n" using m by (simp add: open_tag_def)
  then have sn: "slice_of ?m (length t + 1, ?d) = n" using slice_of_at [of ?m "length t + 1" n] by simp
  let ?len = "length (t @ print_xml ?x)"
  have len: "?len = ?d' + length ?inner + length n + 3" by (simp add: open_tag_def close_tag_def)
  define q where "q = p\<lparr>ip_inner := Some (?d', ?len - length n - 3)\<rparr>"
  have "packet_parse ?m (0, ?len) = Ret (q, packet_routable q)"
    unfolding packet_parse_def name bind_run.simps prod.case sn assms(2) option.case Let_def p0_def [symmetric] loop fin_def
    using p(2) p0(2) assms(3) len unfolding q_def by simp
  moreover have "slice_of ?m (?d', ?len - length n - 3) = ?inner"
    using slice_of_at [OF at(2)] unfolding len by (simp add: add_ac)
  moreover have "slice_of ?m (?d, ?d + length (print_attrs as)) = print_attrs as"
    using at(1) by (intro slice_of_at) simp
  ultimately show ?thesis
    using p p0(1,2,4-6) by (intro exI [of _ q]) (simp add: q_def)
qed

text \<open>
  Property C32: a message or an IQ whose attributes have different names, addresses that are accepted and a type of its kind, is
  parsed into exactly these: the kind, the two addresses, the type, and the texts of its attributes and of its contents
  as slices of the block; it is accepted when it can be routed.
\<close>

theorem stanza_is_parsed:
  assumes "xml_ok (Element n as sp cs)" and "stanza_name_code n = Some code" and "code \<noteq> STANZA_PRESENCE"
    and "\<forall>a \<in> set as. attr_accepted code a" and "distinct (map xa_name as)" and "text_ok t"
    and "m = t @ print_xml (Element n as sp cs) @ post"
  shows "\<exists>p h i. packet_parse m (0, length (t @ print_xml (Element n as sp cs))) = Ret (p, packet_routable p) \<and>
    ip_name p = code \<and> ip_real_from p = named_jid ''from'' as jid_init \<and> ip_proxy_to p = named_jid ''to'' as jid_init \<and>
    ip_type p = named_type code as 0 \<and>
    ip_header p = Some h \<and> slice_of m h = print_attrs as \<and> ip_inner p = Some i \<and> slice_of m i = concat (map print_xml cs)"
  using parse_element [OF assms(1-6), of post] unfolding assms(7) by (metis (no_types, lifting))

theorem stanza_is_parsed_witness:
  "\<exists>p h i. packet_parse (lit ''<iq type=`get` to=`tea@h` from=`bob@h/x` id=`7`><q/></iq>'') (0, 57) = Ret (p, packet_routable p) \<and>
    ip_name p = STANZA_IQ \<and> ip_real_from p = \<lparr>jid_node = Some ''bob'', jid_host = Some ''h'', jid_resource = Some ''x''\<rparr> \<and>
    ip_proxy_to p = \<lparr>jid_node = Some ''tea'', jid_host = Some ''h'', jid_resource = None\<rparr> \<and> ip_type p = STANZA_IQ_GET \<and>
    ip_inner p = Some i \<and> slice_of (lit ''<iq type=`get` to=`tea@h` from=`bob@h/x` id=`7`><q/></iq>'') i = ''<q/>''"
proof -
  let ?as = "[XAttr '' '' ''type'' CHR 0x27 ''get'', XAttr '' '' ''to'' CHR 0x27 ''tea@h'', XAttr '' '' ''from'' CHR 0x27 ''bob@h/x'',
    XAttr '' '' ''id'' CHR 0x27 ''7'']"
  let ?x = "Element ''iq'' ?as [] [EmptyElement ''q'' [] []]"
  have ok: "xml_ok ?x" by (simp add: name_ok_def attr_ok_def name_char_def special_def whitespace_def)
  have acc: "\<forall>a \<in> set ?as. attr_accepted STANZA_IQ a"
    by (simp add: attr_accepted_def jid_struct_def jid_init_def type_code_def set_type_def packet_zero_def)
  have m: "lit ''<iq type=`get` to=`tea@h` from=`bob@h/x` id=`7`><q/></iq>'' = [] @ print_xml ?x @ []"
    by (simp add: lit_def open_tag_def empty_tag_def close_tag_def print_attr_def)
  have len: "length ([] @ print_xml ?x) = 57" by (simp add: open_tag_def empty_tag_def close_tag_def print_attr_def)
  show ?thesis
    using stanza_is_parsed [OF ok _ _ acc _ _ m, unfolded len]
    by (simp add: stanza_name_code_def text_ok_def named_jid_def named_type_def type_code_def set_type_def packet_zero_def
        jid_struct_def jid_init_def empty_tag_def) blast
qed

subsection \<open>Parsing what was printed\<close>

text \<open>The room address of the occupant who sends, as it is in the packet for the builder.\<close>

definition packet_sender :: "builder_packet \<Rightarrow> jid" where
  "packet_sender p = \<lparr>jid_node = bp_from_node p, jid_host = bp_from_host p, jid_resource = bp_from_nick p\<rparr>"

definition quoted :: "bytes \<Rightarrow> bytes \<Rightarrow> xattr" where
  "quoted name v = XAttr '' '' name CHR 0x27 v"

text \<open>The stanza of a message as a tree: the attributes copied from the message, then the three that the builder adds.\<close>

definition message_tree :: "builder_packet \<Rightarrow> bytes \<Rightarrow> xattr list \<Rightarrow> xml list \<Rightarrow> xml" where
  "message_tree p kind hs cs =
     Element ''message''
       (hs @ [quoted ''from'' (jid_str (packet_sender p)), quoted ''to'' (jid_str (bp_to p)), quoted ''type'' kind]) [] cs"

lemma print_message_tree:
  assumes "buffer_bytes (bp_header p) = print_attrs hs" and "buffer_bytes (bp_user_data p) = concat (map print_xml cs)"
    and "bp_from_node p = Some node" and "buffer_size (bp_from_nick p) \<noteq> 0"
  shows "print_xml (message_tree p kind hs cs) = message_text p node kind"
proof -
  have "lit '' from=`'' = '' from='' @ [CHR 0x27]" "lit ''` to=`'' = CHR 0x27 # '' to='' @ [CHR 0x27]"
    "lit ''` type=`'' = CHR 0x27 # '' type='' @ [CHR 0x27]" "lit ''`>'' = [CHR 0x27, CHR ''>'']"
    by (simp_all add: lit_def)
  then show ?thesis
    using assms by (simp add: message_tree_def message_text_def open_tag_def close_tag_def quoted_def print_attr_def print_attrs_def
        packet_sender_def jid_str_def)
qed

lemma quoted_ok: "name_ok name \<Longrightarrow> CHR 0x27 \<notin> set v \<Longrightarrow> attr_ok (quoted name v)"
  by (simp add: attr_ok_def quoted_def whitespace_def)

lemma message_tree_ok:
  assumes "list_all attr_ok hs" and "\<forall>c \<in> set cs. xml_ok c" and "CHR 0x27 \<notin> set (jid_str (packet_sender p))"
    and "CHR 0x27 \<notin> set (jid_str (bp_to p))" and "kind \<in> {''chat'', ''groupchat''}"
  shows "xml_ok (message_tree p kind hs cs)"
proof -
  have "name_ok ''message''" "name_ok ''from''" "name_ok ''to''" "name_ok ''type''"
    by (simp_all add: name_ok_def name_char_def special_def whitespace_def)
  moreover have "CHR 0x27 \<notin> set kind" using assms(5) by auto
  ultimately show ?thesis
    using assms(1-4) quoted_ok by (simp add: message_tree_def)
qed



text \<open>
  Without the condition on the apostrophe it is not so. A client that puts the address of the room into double quotes may choose
  the nickname \<open>O'Neil\<close>; the builder copies it between apostrophes. The receiver's address is then not found any more, and the
  stanza is refused.
\<close>

definition oneil_packet :: builder_packet where
  "oneil_packet = example_packet\<lparr>bp_from_nick := Some (lit ''O`Neil'')\<rparr>"

lemma apostrophe_breaks_stanza:
  "case builder_build \<lparr>ck_start = 0, ck_ticks = 0, ck_zone = ''+0000''\<rparr> oneil_packet \<lparr>bb_data = [], bb_size = 200\<rparr> of
     Ret (b, ok) \<Rightarrow> ok \<and> bb_data b = lit ''<message from=`tea@h/O`Neil` to=`bob@h` type=`groupchat`>hi</message>'' \<and>
       (case packet_parse (bb_data b) (0, length (bb_data b)) of
          Ret (q, accepted) \<Rightarrow> \<not> accepted \<and> jid_resource (ip_real_from q) = Some ''O'' \<and> jid_empty (ip_proxy_to q)
        | Fault _ \<Rightarrow> False)
   | Fault _ \<Rightarrow> False"
  by code_simp

end
