(* ===== verification/Rooms.thy ===== *)
theory Rooms
  imports Route_Rules
begin

text \<open>
  The table of rooms (\<^verbatim>\<open>src/room/rooms.c\<close>): lookup by the node of the address, creation by the
  first presence, removal of destroyed rooms, and the data file. The table is a hash of the
  \<open>uthash\<close> submodule, which is not part of the repository: its operations are a parameter \<open>H\<close>,
  and the locale \<open>uthash_laws\<close> states their documented behaviour.

  Here one worker is in the table at a time. Theory Concurrency cuts \<open>rooms_process\<close> where it takes and gives
  back its locks, for several workers at once.
\<close>

subsection \<open>The interface of uthash\<close>

record 'h uthash =
  uh_empty :: 'h
  uh_find :: "'h \<Rightarrow> bytes \<Rightarrow> addr option"
  uh_add :: "'h \<Rightarrow> bytes \<Rightarrow> addr \<Rightarrow> 'h"        \<comment> \<open>\<open>HASH_ADD_KEYPTR\<close>\<close>
  uh_del :: "'h \<Rightarrow> addr \<Rightarrow> 'h"
  uh_items :: "'h \<Rightarrow> addr list"                 \<comment> \<open>in the order of \<open>HASH_ITER\<close>, the order of insertion\<close>

text \<open>
  The laws hold for hashes that are used as documented (\<open>ok\<close>): a key is added only when it is not
  there, and only elements of the hash are deleted.
\<close>

locale uthash_laws =
  fixes H :: "'h uthash"
    and ok :: "'h \<Rightarrow> bool"
  assumes ok_empty: "ok (uh_empty H)"
    and items_empty: "uh_items H (uh_empty H) = []"
    and ok_add: "ok h \<Longrightarrow> uh_find H h k = None \<Longrightarrow> a \<notin> set (uh_items H h) \<Longrightarrow> ok (uh_add H h k a)"
    and items_add: "ok h \<Longrightarrow> uh_find H h k = None \<Longrightarrow> a \<notin> set (uh_items H h) \<Longrightarrow>
      uh_items H (uh_add H h k a) = uh_items H h @ [a]"
    and find_add: "ok h \<Longrightarrow> uh_find H h k = None \<Longrightarrow> a \<notin> set (uh_items H h) \<Longrightarrow>
      uh_find H (uh_add H h k a) k' = (if k' = k then Some a else uh_find H h k')"
    and ok_del: "ok h \<Longrightarrow> a \<in> set (uh_items H h) \<Longrightarrow> ok (uh_del H h a)"
    and items_del: "ok h \<Longrightarrow> a \<in> set (uh_items H h) \<Longrightarrow> uh_items H (uh_del H h a) = remove1 a (uh_items H h)"
    and find_del: "ok h \<Longrightarrow> a \<in> set (uh_items H h) \<Longrightarrow>
      uh_find H (uh_del H h a) k = (if uh_find H h k = Some a then None else uh_find H h k)"
    and find_empty: "uh_find H (uh_empty H) k = None"

text \<open>An association list in the order of insertion.\<close>

definition uthash_ref :: "(bytes \<times> addr) list uthash" where
  "uthash_ref =
     \<lparr>uh_empty = [], uh_find = map_of, uh_add = (\<lambda>h k a. h @ [(k, a)]),
      uh_del = (\<lambda>h a. filter (\<lambda>e. snd e \<noteq> a) h), uh_items = map snd\<rparr>"

definition uthash_ref_ok :: "(bytes \<times> addr) list \<Rightarrow> bool" where
  "uthash_ref_ok h \<longleftrightarrow> distinct (map fst h) \<and> distinct (map snd h)"

lemma map_of_filter_snd:
  "distinct (map fst h) \<Longrightarrow> map_of (filter (\<lambda>e. snd e \<noteq> a) h) k = (if map_of h k = Some a then None else map_of h k)"
proof (induction h)
  case (Cons e h)
  obtain k' b where e: "e = (k', b)" by (cases e)
  show ?case
  proof (cases "k' = k")
    case True
    then have "k \<notin> fst ` set (filter (\<lambda>e. snd e \<noteq> a) h)" using Cons.prems by (auto simp: e)
    then have "map_of (filter (\<lambda>e. snd e \<noteq> a) h) k = None" by (rule map_of_eq_None_iff [THEN iffD2])
    then show ?thesis using True by (simp add: e)
  qed (use Cons in \<open>simp add: e\<close>)
qed simp

interpretation uthash_ref: uthash_laws uthash_ref uthash_ref_ok
proof
  fix h :: "(bytes \<times> addr) list" and k k' a
  assume ok: "uthash_ref_ok h"
  show "uh_find uthash_ref h k = None \<Longrightarrow> a \<notin> set (uh_items uthash_ref h) \<Longrightarrow> uthash_ref_ok (uh_add uthash_ref h k a)"
    using ok by (auto simp: uthash_ref_def uthash_ref_ok_def map_of_eq_None_iff)
  show "uh_find uthash_ref h k = None \<Longrightarrow> a \<notin> set (uh_items uthash_ref h) \<Longrightarrow>
      uh_find uthash_ref (uh_add uthash_ref h k a) k' = (if k' = k then Some a else uh_find uthash_ref h k')"
    by (auto simp: uthash_ref_def map_add_def split: option.split)
  assume "a \<in> set (uh_items uthash_ref h)"
  show "uthash_ref_ok (uh_del uthash_ref h a)"
    using ok by (auto simp: uthash_ref_def uthash_ref_ok_def intro: distinct_map_filter)
  show "uh_items uthash_ref (uh_del uthash_ref h a) = remove1 a (uh_items uthash_ref h)"
    using ok by (simp add: uthash_ref_def uthash_ref_ok_def distinct_remove1_removeAll removeAll_filter_not_eq
      filter_map o_def eq_commute)
  show "uh_find uthash_ref (uh_del uthash_ref h a) k =
      (if uh_find uthash_ref h k = Some a then None else uh_find uthash_ref h k)"
    using ok by (simp add: uthash_ref_def uthash_ref_ok_def map_of_filter_snd)
qed (simp_all add: uthash_ref_def uthash_ref_ok_def)

subsection \<open>The table\<close>

text \<open>\<open>limits.min_message_interval\<close> is the only limit that is read; nothing sets it.\<close>

record 'h rooms =
  rs_min_message_interval :: int
  rs_size :: int
  rs_max_size :: int
  rs_head :: 'h
  rs_room :: "addr \<Rightarrow> room"
  rs_nicks :: "registered_nick dls"

definition rooms_init :: "'h uthash \<Rightarrow> 'h rooms" where
  "rooms_init H =
     \<lparr>rs_min_message_interval = 0, rs_size = 0, rs_max_size = 0, rs_head = uh_empty H,
      rs_room = (\<lambda>_. room_zero), rs_nicks = dls_init 0 \<lparr>rn_jid = jid_init, rn_nick = None\<rparr>\<rparr>"

text \<open>\<open>HASHS_ADD_KEYPTR(rooms, room->node.data, room->node.size, room)\<close> and \<open>HASHS_DEL\<close>.\<close>

definition rooms_add :: "'h uthash \<Rightarrow> 'h rooms \<Rightarrow> addr \<Rightarrow> room \<Rightarrow> 'h rooms" where
  "rooms_add H rs a r =
     rs\<lparr>rs_head := uh_add H (rs_head rs) (buffer_bytes (room_node r)) a, rs_room := (rs_room rs)(a := r),
        rs_size := rs_size rs + 1\<rparr>"

definition rooms_create_room :: "'h uthash \<Rightarrow> 'h rooms \<Rightarrow> bytes option \<Rightarrow> 'h rooms \<times> addr" where
  "rooms_create_room H rs node =
     (let a = malloc_addr (uh_items H (rs_head rs)) in (rooms_add H rs a (room_init node), a))"

definition rooms_destroy_room :: "'h uthash \<Rightarrow> 'h rooms \<Rightarrow> addr \<Rightarrow> 'h rooms" where
  "rooms_destroy_room H rs a = rs\<lparr>rs_head := uh_del H (rs_head rs) a, rs_size := rs_size rs - 1\<rparr>"

definition rooms_destroy :: "'h uthash \<Rightarrow> 'h rooms \<Rightarrow> 'h rooms" where
  "rooms_destroy H rs = fold (\<lambda>a rs. rooms_destroy_room H rs a) (uh_items H (rs_head rs)) rs"

definition rooms_error_definitions :: "xmpp_error list" where
  "rooms_error_definitions =
     [xmpp_error ''405'' ''item-not-found'' ''cancel'' ''Room does not exist'',
      xmpp_error ''403'' ''forbidden'' ''auth'' ''Room creation is denied by the service policy'']"

abbreviation ERROR_ROOM_NOT_FOUND :: nat where "ERROR_ROOM_NOT_FOUND \<equiv> 0"
abbreviation ERROR_ROOM_CREATE_PERMISSION :: nat where "ERROR_ROOM_CREATE_PERMISSION \<equiv> 1"

subsection \<open>One stanza\<close>

text \<open>The result: the table, the packet (whose block was overwritten) and the packets sent.\<close>

type_synonym 'h processed = "'h rooms \<times> packet \<times> builder_packet list"

definition rooms_bounce :: "nat \<Rightarrow> bytes option \<Rightarrow> 'h rooms \<Rightarrow> packet \<Rightarrow> 'h processed run" where
  "rooms_bounce e node rs p =
     bind_run (bounce_packet p (rooms_error_definitions ! e) node) (\<lambda>(p', egress). Ret (rs, p', [egress]))"

definition rooms_route ::
  "'h uthash \<Rightarrow> platform \<Rightarrow> acl_config \<Rightarrow> int \<Rightarrow> int \<Rightarrow> 'h rooms \<Rightarrow> addr \<Rightarrow> packet \<Rightarrow> 'h processed run" where
  "rooms_route H P acl now now' rs a p =
     bind_run (room_route P acl (rs_min_message_interval rs) now now'
                 \<lparr>cx_room = rs_room rs a, cx_in = p, cx_out = []\<rparr>) (\<lambda>c.
       let rs' = rs\<lparr>rs_room := (rs_room rs)(a := cx_room c)\<rparr> in
       Ret (if has_flag (cx_room c) MUC_FLAG_DESTROYED then rooms_destroy_room H rs' a else rs', cx_in c, cx_out c))"

definition rooms_process ::
  "'h uthash \<Rightarrow> platform \<Rightarrow> acl_config \<Rightarrow> int \<Rightarrow> int \<Rightarrow> 'h rooms \<Rightarrow> packet \<Rightarrow> 'h processed run" where
  "rooms_process H P acl now now' rs p =
     (let node = jid_node (ip_proxy_to p) in
      case uh_find H (rs_head rs) (buffer_bytes node) of
        Some a \<Rightarrow> rooms_route H P acl now now' rs a p
      | None \<Rightarrow>
          if ip_type p = STANZA_ERROR then Ret (rs, p, [])
          else if ip_name p \<noteq> STANZA_PRESENCE \<or> ip_type p = STANZA_PRESENCE_UNAVAILABLE
          then rooms_bounce ERROR_ROOM_NOT_FOUND None rs p
          else if acl_role acl (ip_real_from p) \<ge> ACL_MUC_CREATE then
            (case rooms_create_room H rs node of (rs', a) \<Rightarrow> rooms_route H P acl now now' rs' a p)
          else rooms_bounce ERROR_ROOM_CREATE_PERMISSION (buffer_ptr_cpy node) rs p)"

subsection \<open>The data file\<close>

definition rooms_values :: "'h uthash \<Rightarrow> 'h rooms \<Rightarrow> room list" where
  "rooms_values H rs = map (rs_room rs) (uh_items H (rs_head rs))"

definition rooms_serialize :: "'h uthash \<Rightarrow> 'h rooms \<Rightarrow> put" where
  "rooms_serialize H rs =
     put_and (registered_nicks_serialize (rs_nicks rs))
       (container_serialize_from room_serialize (rs_max_size rs) 0 (rooms_values H rs))"

text \<open>\<open>HASHS_DESERIALIZE\<close>: the size is counted by the loop and by the setter, as for lists.\<close>

function rooms_read :: "'h uthash \<Rightarrow> utlist \<Rightarrow> 'h rooms \<Rightarrow> bytes \<Rightarrow> ('h rooms \<times> bytes) option" where
  "rooms_read H U rs f =
     (let rs1 = rs\<lparr>rs_size := rs_size rs + 1\<rparr> in
      if rs_size rs1 > rs_max_size rs1 * 2 then None
      else case room_deserialize U f of
          None \<Rightarrow> None
        | Some (r, f1) \<Rightarrow>
            (case deserialize_base 8 f1 of
               None \<Rightarrow> None
             | Some (mark, f2) \<Rightarrow>
                 (let rs2 = rooms_add H rs1 (malloc_addr (uh_items H (rs_head rs1))) r in
                  if mark \<noteq> 0 then rooms_read H U rs2 f2 else Some (rs2, f2))))"
  by pat_completeness auto
termination
  by (relation "measure (\<lambda>(H, U, rs, f). nat (rs_max_size rs * 2 + 1 - rs_size rs))") (auto simp: rooms_add_def Let_def)

declare rooms_read.simps [simp del]

definition rooms_deserialize :: "'h uthash \<Rightarrow> utlist \<Rightarrow> 'h rooms \<Rightarrow> bytes \<Rightarrow> ('h rooms \<times> bytes) option" where
  "rooms_deserialize H U rs f =
     (case registered_nicks_deserialize U (rs_nicks rs) f of
        None \<Rightarrow> None
      | Some (nicks, f1) \<Rightarrow>
          (let rs1 = rs\<lparr>rs_nicks := nicks\<rparr> in
           case deserialize_base 8 f1 of
             None \<Rightarrow> None
           | Some (mark, f2) \<Rightarrow>
               if mark = 0 then Some (rs1, f2)
               else rooms_read H U (rs1\<lparr>rs_head := uh_empty H, rs_size := 0\<rparr>) f2))"

text \<open>
  \<open>deserialize_data\<close> of \<^verbatim>\<open>src/mukite.c\<close>: the limits are set only when there is a file to read,
  \<open>None\<close> stands for no file. A file that cannot be read ends the process (no result).
\<close>

definition deserialize_data :: "'h uthash \<Rightarrow> utlist \<Rightarrow> bytes option \<Rightarrow> 'h rooms \<Rightarrow> 'h rooms option" where
  "deserialize_data H U file rs =
     (case file of
        None \<Rightarrow> Some rs
      | Some f \<Rightarrow>
          map_option fst (rooms_deserialize H U
            (rs\<lparr>rs_max_size := 10240, rs_nicks := (rs_nicks rs)\<lparr>dls_max_size := 102400\<rparr>\<rparr>) f))"

subsection \<open>Routing keeps the name of a room\<close>

lemma bounced_same: "bounced e c c' \<Longrightarrow> room_node (cx_room c') = room_node (cx_room c)"
  by (simp add: bounced_room)

lemma spoke_node: "room_node (cx_room (spoke now s c)) = room_node (cx_room c)"
  by (simp add: spoke_def update_participant_def)

lemma message_node:
  assumes "route_message P limit now now' c = Ret c'"
  shows "room_node (cx_room c') = room_node (cx_room c)"
  using assms
proof (cases rule: route_message_cases)
  case (to_all s)
  then show ?thesis
    using public_message_outcome [OF to_all(3)] by (auto simp: spoke_node dest!: bounced_same split: option.splits)
qed (simp_all add: bounced_same private_message_wf)

lemma room_leave_node [simp]: "room_node (room_leave U r a) = room_node r"
  by (simp add: room_leave_def Let_def set_flag_def)

lemma update_node [simp]: "room_node (update_participant a f r) = room_node r"
  by (simp add: update_participant_def)

lemma room_join_node: "room_join U r j nick v = (r', a) \<Longrightarrow> room_node r' = room_node r"
  by (auto simp: room_join_def Let_def)

lemma settle_node: "room_node (cx_room (settle_affected P a c)) = room_node (cx_room c)"
  by (simp add: settle_affected_def Let_def split: prod.split)

lemma settle_fold_node: "room_node (cx_room (fold (settle_affected P) xs c)) = room_node (cx_room c)"
  by (induction xs arbitrary: c) (simp_all add: settle_node)

lemma presence_tail_node:
  assumes "presence_tail P just_joined s c = Ret c'"
  shows "room_node (cx_room c') = room_node (cx_room c)"
  by (rule presence_tail_room [OF assms]) (simp add: Let_def clear_flag_def split: if_splits)

lemma presence_node:
  assumes run: "route_presence P acl c = Ret c'"
  shows "room_node (cx_room c') = room_node (cx_room c)"
proof (cases "find_sender c")
  case (Some s)
  then obtain c1 goes_on where p: "presence_of_occupant s c = Ret (c1, goes_on)"
    and t: "(case goes_on of None \<Rightarrow> Ret c1 | Some a \<Rightarrow> presence_tail P False a c1) = Ret c'"
    using run by (auto simp: route_presence_def)
  have "room_node (cx_room c1) = room_node (cx_room c)"
    using presence_of_occupant_cases [OF p] by (auto simp: Let_def dest: with_cleanup_keeps bounced_same)
  then show ?thesis using t by (auto split: option.splits dest: presence_tail_node)
next
  case None
  then obtain mn c1 goes_on where p: "presence_of_stranger P acl mn c = Ret (c1, goes_on)"
    and t: "(case goes_on of None \<Rightarrow> Ret c1 | Some a \<Rightarrow> presence_tail P True a c1) = Ret c'"
    using run by (auto simp: route_presence_def)
  have "room_node (cx_room c1) = room_node (cx_room c)"
    using presence_of_stranger_cases [OF p] by (auto simp: found_room_keeps dest!: bounced_same room_join_node)
  then show ?thesis using t by (auto split: option.splits dest: presence_tail_node)
qed

lemma iq_node:
  assumes U: "utlist_laws (pf_utlist P)" and run: "route_iq P acl c = Ret c'" and wf: "occupants_wf (cx_room c)"
  shows "room_node (cx_room c') = room_node (cx_room c)"
  using run
proof (cases rule: route_iq_cases)
  case (answered q r result)
  have inv: "query_inv (cx_room c) (cx_room (c\<lparr>cx_room := r\<rparr>), result_chain result)"
    using iq_query_inv [OF answered(1)] wf by (simp add: occupants_wf_def)
  then have "room_node r = room_node (cx_room c)" by (simp add: query_inv_def)
  then show ?thesis
    using iq_finish_cases [OF U inv wf answered(2)] by (auto simp: settle_fold_node dest!: bounced_same)
qed simp

lemma route_node:
  assumes U: "utlist_laws (pf_utlist P)" and wf: "occupants_wf (cx_room c)"
    and run: "room_route P acl limit now now' c = Ret c'"
  shows "room_node (cx_room c') = room_node (cx_room c)"
proof -
  have kick: "kick_for_error P s c = Ret c' \<Longrightarrow> room_node (cx_room c') = room_node (cx_room c)" for s
    by (auto simp: kick_for_error_def dest!: with_cleanup_keeps)
  show ?thesis
    using run message_node [of P limit now now' c c'] presence_node [of P acl c c'] iq_node [OF U _ wf, of acl c'] kick
    by (auto simp: room_route_def split: if_splits option.splits)
qed

subsection \<open>The invariant of the table\<close>

text \<open>
  Every room is found under its name, and nothing else is found; every room has proper occupants
  and none is marked destroyed.
\<close>

definition rooms_ok :: "'h uthash \<Rightarrow> ('h \<Rightarrow> bool) \<Rightarrow> 'h rooms \<Rightarrow> bool" where
  "rooms_ok H ok rs \<longleftrightarrow>
     ok (rs_head rs) \<and> distinct (uh_items H (rs_head rs)) \<and>
     (\<forall>a \<in> set (uh_items H (rs_head rs)).
        uh_find H (rs_head rs) (buffer_bytes (room_node (rs_room rs a))) = Some a \<and>
        occupants_wf (rs_room rs a) \<and> \<not> has_flag (rs_room rs a) MUC_FLAG_DESTROYED) \<and>
     (\<forall>k a. uh_find H (rs_head rs) k = Some a \<longrightarrow> a \<in> set (uh_items H (rs_head rs)))"

lemma rooms_okD:
  assumes "rooms_ok H ok rs"
  shows "ok (rs_head rs)" and "distinct (uh_items H (rs_head rs))"
    and "a \<in> set (uh_items H (rs_head rs)) \<Longrightarrow> uh_find H (rs_head rs) (buffer_bytes (room_node (rs_room rs a))) = Some a"
    and "a \<in> set (uh_items H (rs_head rs)) \<Longrightarrow> occupants_wf (rs_room rs a)"
    and "a \<in> set (uh_items H (rs_head rs)) \<Longrightarrow> \<not> has_flag (rs_room rs a) MUC_FLAG_DESTROYED"
    and "uh_find H (rs_head rs) k = Some a \<Longrightarrow> a \<in> set (uh_items H (rs_head rs))"
  using assms by (auto simp: rooms_ok_def)

context uthash_laws
begin

lemma rooms_init_ok: "rooms_ok H ok (rooms_init H)"
  by (simp add: rooms_ok_def rooms_init_def ok_empty items_empty find_empty)

lemma rooms_add_items:
  assumes "ok (rs_head rs)" and "uh_find H (rs_head rs) (buffer_bytes (room_node r)) = None"
    and "a \<notin> set (uh_items H (rs_head rs))"
  shows "uh_items H (rs_head (rooms_add H rs a r)) = uh_items H (rs_head rs) @ [a]"
    and "ok (rs_head (rooms_add H rs a r))"
    and "rooms_values H (rooms_add H rs a r) = rooms_values H rs @ [r]"
  using assms by (auto simp: rooms_add_def items_add ok_add rooms_values_def)

lemma rooms_add_ok:
  assumes "rooms_ok H ok rs" and new: "uh_find H (rs_head rs) (buffer_bytes (room_node r)) = None"
    and a: "a \<notin> set (uh_items H (rs_head rs))" and "occupants_wf r" and "\<not> has_flag r MUC_FLAG_DESTROYED"
  shows "rooms_ok H ok (rooms_add H rs a r)"
proof -
  note d = rooms_okD [OF assms(1)]
  have f: "uh_find H (rs_head (rooms_add H rs a r)) k =
      (if k = buffer_bytes (room_node r) then Some a else uh_find H (rs_head rs) k)" for k
    using d(1) new a by (simp add: rooms_add_def find_add)
  have room: "rs_room (rooms_add H rs a r) b = (if b = a then r else rs_room rs b)" for b
    by (simp add: rooms_add_def)
  have "buffer_bytes (room_node (rs_room rs b)) \<noteq> buffer_bytes (room_node r)" if "b \<in> set (uh_items H (rs_head rs))" for b
    using d(3) [OF that] new by auto
  then show ?thesis
    using rooms_add_items [OF d(1) new a] d assms(4,5) a
    by (auto simp: rooms_ok_def f room split: if_splits)
qed

lemma rooms_create_ok:
  assumes "rooms_ok H ok rs" and "uh_find H (rs_head rs) (buffer_bytes node) = None"
    and "rooms_create_room H rs node = (rs', a)"
  shows "rooms_ok H ok rs'" and "uh_items H (rs_head rs') = uh_items H (rs_head rs) @ [a]"
    and "rs_room rs' a = room_init node" and "a \<notin> set (uh_items H (rs_head rs))"
proof -
  have a: "a = malloc_addr (uh_items H (rs_head rs))" "rs' = rooms_add H rs a (room_init node)"
    using assms(3) by (auto simp: rooms_create_room_def Let_def)
  then show fresh: "a \<notin> set (uh_items H (rs_head rs))" by simp
  have node: "buffer_bytes (room_node (room_init node)) = buffer_bytes node"
    by (simp add: room_init_def buffer_ptr_cpy_def buffer_bytes_def split: option.split)
  have "occupants (room_init node) = []" "\<not> has_flag (room_init node) MUC_FLAG_DESTROYED"
    by (simp_all add: room_init_def occupants_def has_flag_def MUC_FLAGS_DEFAULT_def)
  then show "rooms_ok H ok rs'"
    unfolding a(2) using assms(1,2) fresh
    by (intro rooms_add_ok) (simp_all add: node occupants_wf_def linked_occupants)
  show "uh_items H (rs_head rs') = uh_items H (rs_head rs) @ [a]"
    unfolding a(2) using rooms_okD(1) [OF assms(1)] assms(2) fresh by (intro rooms_add_items) (simp_all add: node)
  show "rs_room rs' a = room_init node" by (simp add: a(2) rooms_add_def)
qed

lemma rooms_route_ok:
  assumes "rooms_ok H ok rs" and "a \<in> set (uh_items H (rs_head rs))" and U: "utlist_laws (pf_utlist P)"
    and "buffer_size (jid_resource (ip_proxy_to p)) \<le> MAX_JID_PART_SIZE"
    and "rooms_route H P acl now now' rs a p = Ret (rs', p', out)"
  shows "rooms_ok H ok rs'" and "set (uh_items H (rs_head rs')) \<subseteq> set (uh_items H (rs_head rs))"
    and "rs_max_size rs' = rs_max_size rs" and "rs_nicks rs' = rs_nicks rs"
proof -
  note d = rooms_okD [OF assms(1)]
  obtain c where c: "room_route P acl (rs_min_message_interval rs) now now'
      \<lparr>cx_room = rs_room rs a, cx_in = p, cx_out = []\<rparr> = Ret c"
    and rs': "rs' = (if has_flag (cx_room c) MUC_FLAG_DESTROYED
      then rooms_destroy_room H (rs\<lparr>rs_room := (rs_room rs)(a := cx_room c)\<rparr>) a
      else rs\<lparr>rs_room := (rs_room rs)(a := cx_room c)\<rparr>)"
    using assms(5) by (auto simp: rooms_route_def Let_def)
  have wf: "occupants_wf (cx_room c)"
    by (rule room_route_wf [OF U _ _ c]) (use d(4) [OF assms(2)] assms(4) in simp_all)
  have node: "room_node (cx_room c) = room_node (rs_room rs a)"
    using route_node [OF U _ c] d(4) [OF assms(2)] by simp
  have key: "uh_find H (rs_head rs) (buffer_bytes (room_node (rs_room rs b))) \<noteq> Some a"
    if "b \<in> set (uh_items H (rs_head rs))" "b \<noteq> a" for b
    using d(3) [OF that(1)] that(2) by simp
  show "rooms_ok H ok rs'"
  proof (cases "has_flag (cx_room c) MUC_FLAG_DESTROYED")
    case True
    have items: "uh_items H (uh_del H (rs_head rs) a) = remove1 a (uh_items H (rs_head rs))"
      by (rule items_del [OF d(1) assms(2)])
    have mem: "b \<in> set (remove1 a (uh_items H (rs_head rs))) \<longleftrightarrow> b \<in> set (uh_items H (rs_head rs)) \<and> b \<noteq> a" for b
      using d(2) by simp
    show ?thesis
      using True d assms(2) key
      by (auto simp: rs' rooms_ok_def rooms_destroy_room_def items mem ok_del find_del split: if_splits)
  next
    case False
    then show ?thesis using d wf node by (auto simp: rs' rooms_ok_def)
  qed
  show "set (uh_items H (rs_head rs')) \<subseteq> set (uh_items H (rs_head rs))"
    using set_remove1_subset [of a "uh_items H (rs_head rs)"] d(1) assms(2)
    by (simp add: rs' rooms_destroy_room_def items_del)
  show "rs_max_size rs' = rs_max_size rs" and "rs_nicks rs' = rs_nicks rs"
    by (simp_all add: rs' rooms_destroy_room_def)
qed

text \<open>The ways a stanza can go through the table.\<close>

lemma rooms_process_cases:
  assumes "rooms_ok H ok rs" and "rooms_process H P acl now now' rs p = Ret (rs', p', out)"
  obtains (found) a where "uh_find H (rs_head rs) (buffer_bytes (jid_node (ip_proxy_to p))) = Some a"
      "a \<in> set (uh_items H (rs_head rs))" "rooms_route H P acl now now' rs a p = Ret (rs', p', out)"
  | (ignored) "uh_find H (rs_head rs) (buffer_bytes (jid_node (ip_proxy_to p))) = None"
      "ip_type p = STANZA_ERROR" "rs' = rs" "out = []"
  | (unknown) "uh_find H (rs_head rs) (buffer_bytes (jid_node (ip_proxy_to p))) = None"
      "ip_type p \<noteq> STANZA_ERROR" "ip_name p \<noteq> STANZA_PRESENCE \<or> ip_type p = STANZA_PRESENCE_UNAVAILABLE"
      "rooms_bounce ERROR_ROOM_NOT_FOUND None rs p = Ret (rs', p', out)"
  | (forbidden) "uh_find H (rs_head rs) (buffer_bytes (jid_node (ip_proxy_to p))) = None"
      "ip_type p \<noteq> STANZA_ERROR" "ip_name p = STANZA_PRESENCE" "ip_type p \<noteq> STANZA_PRESENCE_UNAVAILABLE"
      "acl_role acl (ip_real_from p) < ACL_MUC_CREATE"
      "rooms_bounce ERROR_ROOM_CREATE_PERMISSION (buffer_ptr_cpy (jid_node (ip_proxy_to p))) rs p = Ret (rs', p', out)"
  | (created) rs1 a where "uh_find H (rs_head rs) (buffer_bytes (jid_node (ip_proxy_to p))) = None"
      "ip_type p \<noteq> STANZA_ERROR" "ip_name p = STANZA_PRESENCE" "ip_type p \<noteq> STANZA_PRESENCE_UNAVAILABLE"
      "acl_role acl (ip_real_from p) \<ge> ACL_MUC_CREATE"
      "rooms_create_room H rs (jid_node (ip_proxy_to p)) = (rs1, a)"
      "rooms_route H P acl now now' rs1 a p = Ret (rs', p', out)"
proof (cases "uh_find H (rs_head rs) (buffer_bytes (jid_node (ip_proxy_to p)))")
  case (Some a)
  then show ?thesis
    using found [of a] rooms_okD(6) [OF assms(1) Some] assms(2) by (simp add: rooms_process_def Let_def)
next
  case None
  obtain rs1 a where c: "rooms_create_room H rs (jid_node (ip_proxy_to p)) = (rs1, a)"
    by (cases "rooms_create_room H rs (jid_node (ip_proxy_to p))")
  show ?thesis
    using None assms(2) ignored unknown forbidden created [OF None _ _ _ _ c]
    by (auto simp: rooms_process_def Let_def c split: if_splits)
qed

lemma rooms_bounce_keeps:
  "rooms_bounce e node rs p = Ret (rs', p', out) \<Longrightarrow> rs' = rs \<and>
   (\<exists>pk. out = [pk] \<and> bp_type pk = STANZA_ERROR \<and> bp_name pk = ip_name p \<and> bp_from_node pk = node \<and>
      bp_sys_data pk = SysError (rooms_error_definitions ! e))"
  by (auto simp: rooms_bounce_def bounce_packet_def dest!: cleanup_keeps)

lemma rooms_process_ok:
  assumes ok: "rooms_ok H ok rs" and U: "utlist_laws (pf_utlist P)"
    and size: "buffer_size (jid_resource (ip_proxy_to p)) \<le> MAX_JID_PART_SIZE"
    and run: "rooms_process H P acl now now' rs p = Ret (rs', p', out)"
  shows "rooms_ok H ok rs' \<and> rs_max_size rs' = rs_max_size rs \<and> rs_nicks rs' = rs_nicks rs"
  using ok run
proof (cases rule: rooms_process_cases)
  case (found a)
  then show ?thesis using rooms_route_ok [OF ok found(2) U size found(3)] by simp
next
  case (created rs1 a)
  note c = rooms_create_ok [OF ok created(1,6)]
  have "a \<in> set (uh_items H (rs_head rs1))" by (simp add: c(2))
  moreover have "rs_max_size rs1 = rs_max_size rs" "rs_nicks rs1 = rs_nicks rs"
    using created(6) by (auto simp: rooms_create_room_def rooms_add_def Let_def)
  ultimately show ?thesis using rooms_route_ok [OF c(1) _ U size created(7)] by simp
qed (use ok in \<open>auto dest: rooms_bounce_keeps\<close>)

end

text \<open>The tables a worker can reach, stanza by stanza.\<close>

inductive rooms_reach :: "'h uthash \<Rightarrow> platform \<Rightarrow> 'h rooms \<Rightarrow> 'h rooms \<Rightarrow> bool"
  for H :: "'h uthash" and P :: platform and rs0 :: "'h rooms" where
  start: "rooms_reach H P rs0 rs0"
| step: "rooms_reach H P rs0 rs \<Longrightarrow> buffer_size (jid_resource (ip_proxy_to p)) \<le> MAX_JID_PART_SIZE \<Longrightarrow>
    rooms_process H P acl now now' rs p = Ret (rs', p', out) \<Longrightarrow> rooms_reach H P rs0 rs'"

lemma rooms_reach_ok:
  assumes "rooms_reach H P rs0 rs" and "uthash_laws H ok" and "utlist_laws (pf_utlist P)" and "rooms_ok H ok rs0"
  shows "rooms_ok H ok rs \<and> rs_max_size rs = rs_max_size rs0 \<and> rs_nicks rs = rs_nicks rs0"
  using assms
proof (induction rule: rooms_reach.induct)
  case (step rs p acl now now' rs' p' out)
  then show ?case using uthash_laws.rooms_process_ok [OF step.prems(1) _ step.prems(2) step.hyps(2,3)] by simp
qed simp

text \<open>
  Property C12: whatever stanzas arrive after the start, the table of rooms stays consistent: every
  room in it is found under its own name, so no two rooms share a name; what is found is in the
  table; the occupants of every room have different nicknames; and no destroyed room stays.
\<close>

theorem rooms_stay_consistent:
  assumes "uthash_laws H ok" and "utlist_laws (pf_utlist P)" and "rooms_reach H P (rooms_init H) rs"
  shows "(\<forall>a \<in> set (uh_items H (rs_head rs)).
       uh_find H (rs_head rs) (buffer_bytes (room_node (rs_room rs a))) = Some a \<and>
       occupants_wf (rs_room rs a) \<and> \<not> has_flag (rs_room rs a) MUC_FLAG_DESTROYED) \<and>
    (\<forall>k a. uh_find H (rs_head rs) k = Some a \<longrightarrow> a \<in> set (uh_items H (rs_head rs))) \<and>
    distinct (map (\<lambda>r. buffer_bytes (room_node r)) (rooms_values H rs))"
proof -
  have "rooms_ok H ok rs"
    using rooms_reach_ok [OF assms(3,1,2) uthash_laws.rooms_init_ok [OF assms(1)]] by blast
  note d = rooms_okD [OF this]
  have "inj_on (\<lambda>a. buffer_bytes (room_node (rs_room rs a))) (set (uh_items H (rs_head rs)))"
    by (rule inj_onI) (metis d(3) option.inject)
  then have "distinct (map (\<lambda>r. buffer_bytes (room_node r)) (rooms_values H rs))"
    using d(2) by (simp add: rooms_values_def distinct_map comp_inj_on_iff o_def)
  then show ?thesis using d by blast
qed

text \<open>Bob is the first one in the room.\<close>

lemma rooms_example:
  "case rooms_process uthash_ref reference_platform acl_nobody 0 0 (rooms_init uthash_ref) (cx_in example_ctx0) of
     Ret (rs', p', out) \<Rightarrow> uh_items uthash_ref (rs_head rs') = [1] \<and>
       map (p_nick \<circ> occupant (rs_room rs' 1)) (occupants (rs_room rs' 1)) = [Some ''Bob''] \<and> length out = 1
   | Fault _ \<Rightarrow> False"
  by code_simp

lemma rooms_example_reached:
  obtains rs' where "rooms_reach uthash_ref reference_platform (rooms_init uthash_ref) rs'"
    "uh_items uthash_ref (rs_head rs') = [1]"
proof -
  obtain rs' p' out where r: "rooms_process uthash_ref reference_platform acl_nobody 0 0 (rooms_init uthash_ref)
      (cx_in example_ctx0) = Ret (rs', p', out)" and i: "uh_items uthash_ref (rs_head rs') = [1]"
    using rooms_example by (auto split: run.splits prod.splits)
  have "rooms_reach uthash_ref reference_platform (rooms_init uthash_ref) rs'"
    by (rule rooms_reach.step [OF rooms_reach.start example_ctx0_ok(3) r])
  with i that show ?thesis by blast
qed

theorem rooms_stay_consistent_witness:
  "\<exists>rs. rooms_reach uthash_ref reference_platform (rooms_init uthash_ref) rs \<and> uh_items uthash_ref (rs_head rs) = [1] \<and>
     uh_find uthash_ref (rs_head rs) (buffer_bytes (room_node (rs_room rs 1))) = Some 1"
proof -
  obtain rs where rs: "rooms_reach uthash_ref reference_platform (rooms_init uthash_ref) rs"
    "uh_items uthash_ref (rs_head rs) = [1]" by (rule rooms_example_reached)
  have "\<forall>a \<in> set (uh_items uthash_ref (rs_head rs)).
      uh_find uthash_ref (rs_head rs) (buffer_bytes (room_node (rs_room rs a))) = Some a"
    using rooms_stay_consistent [OF uthash_ref.uthash_laws_axioms platform_laws(1) rs(1)] by blast
  with rs show ?thesis by auto
qed

context uthash_laws
begin

lemma rooms_process_unknown:
  assumes "rooms_ok H ok rs"
    and "uh_find H (rs_head rs) (buffer_bytes (jid_node (ip_proxy_to p))) = None"
    and "ip_name p \<noteq> STANZA_PRESENCE \<or> ip_type p \<in> {STANZA_ERROR, STANZA_PRESENCE_UNAVAILABLE} \<or>
      acl_role acl (ip_real_from p) < ACL_MUC_CREATE"
    and "rooms_process H P acl now now' rs p = Ret (rs', p', out)"
  shows "rs' = rs \<and>
    (if ip_type p = STANZA_ERROR then out = []
     else \<exists>pk e. out = [pk] \<and> bp_type pk = STANZA_ERROR \<and> bp_name pk = ip_name p \<and>
       bp_sys_data pk = SysError (rooms_error_definitions ! e) \<and>
       (if ip_name p \<noteq> STANZA_PRESENCE \<or> ip_type p = STANZA_PRESENCE_UNAVAILABLE
        then e = ERROR_ROOM_NOT_FOUND \<and> bp_from_node pk = None
        else e = ERROR_ROOM_CREATE_PERMISSION \<and> bp_from_node pk = buffer_ptr_cpy (jid_node (ip_proxy_to p))))"
  using assms(1,4)
proof (cases rule: rooms_process_cases)
  case unknown
  then show ?thesis using rooms_bounce_keeps [OF unknown(4)] by auto
next
  case forbidden
  then show ?thesis using rooms_bounce_keeps [OF forbidden(6)] by auto
qed (use assms(2,3) in auto)

end

text \<open>
  A stanza to a room that does not exist is ignored if it is an error, answered with
  one error if it is not a presence to join, or if the sender may not create rooms; in these cases
  the table stays as it is, so only a presence from an address with the permission adds a room.
\<close>

theorem unknown_room:
  assumes "uthash_laws H ok" and "rooms_ok H ok rs"
    and "uh_find H (rs_head rs) (buffer_bytes (jid_node (ip_proxy_to p))) = None"
    and "ip_name p \<noteq> STANZA_PRESENCE \<or> ip_type p \<in> {STANZA_ERROR, STANZA_PRESENCE_UNAVAILABLE} \<or>
      acl_role acl (ip_real_from p) < ACL_MUC_CREATE"
    and "rooms_process H P acl now now' rs p = Ret (rs', p', out)"
  shows "rs' = rs \<and>
    (if ip_type p = STANZA_ERROR then out = []
     else \<exists>pk e. out = [pk] \<and> bp_type pk = STANZA_ERROR \<and> bp_name pk = ip_name p \<and>
       bp_sys_data pk = SysError (rooms_error_definitions ! e) \<and>
       (if ip_name p \<noteq> STANZA_PRESENCE \<or> ip_type p = STANZA_PRESENCE_UNAVAILABLE
        then e = ERROR_ROOM_NOT_FOUND \<and> bp_from_node pk = None
        else e = ERROR_ROOM_CREATE_PERMISSION \<and> bp_from_node pk = buffer_ptr_cpy (jid_node (ip_proxy_to p))))"
  using assms(2-5) by (rule uthash_laws.rooms_process_unknown [OF assms(1)])

definition example_lost :: packet where
  "example_lost = cx_in (routed example_room (lit ''<message type=`chat` from=`bob@h/w` to=`tea@c/Ann`>hi</message>''))"

lemma lost_example:
  "ip_name example_lost = STANZA_MESSAGE"
  "case rooms_process uthash_ref reference_platform acl_nobody 0 0 (rooms_init uthash_ref) example_lost of
     Ret (rs', p', out) \<Rightarrow> length out = 1 | Fault _ \<Rightarrow> False"
  by code_simp+

theorem unknown_room_witness:
  "\<exists>rs' p' out. rooms_process uthash_ref reference_platform acl_nobody 0 0 (rooms_init uthash_ref) example_lost = Ret (rs', p', out) \<and>
     rs' = rooms_init uthash_ref \<and> length out = 1"
proof -
  obtain rs' p' out where r: "rooms_process uthash_ref reference_platform acl_nobody 0 0 (rooms_init uthash_ref) example_lost = Ret (rs', p', out)"
    "length out = 1"
    using lost_example(2) by (auto split: run.splits prod.splits)
  have "uh_find uthash_ref (rs_head (rooms_init uthash_ref)) k = None" for k
    by (simp add: rooms_init_def uthash_ref.find_empty)
  then have "rs' = rooms_init uthash_ref"
    using unknown_room [OF uthash_ref.uthash_laws_axioms uthash_ref.rooms_init_ok _ _ r(1)] lost_example(1) by simp
  with r show ?thesis by blast
qed

subsection \<open>Saving and loading\<close>

primrec rooms_load :: "'h uthash \<Rightarrow> room list \<Rightarrow> 'h rooms \<Rightarrow> 'h rooms" where
  "rooms_load H [] rs = rs"
| "rooms_load H (r # xs) rs =
     rooms_load H xs (rooms_add H (rs\<lparr>rs_size := rs_size rs + 1\<rparr>) (malloc_addr (uh_items H (rs_head rs))) r)"

lemma rooms_load_sizes [simp]:
  "rs_size (rooms_load H xs rs) = rs_size rs + 2 * int (length xs)" "rs_nicks (rooms_load H xs rs) = rs_nicks rs"
  by (induction xs arbitrary: rs) (simp_all add: rooms_add_def)

lemma rooms_read_enc:
  "\<forall>y \<in> set (x # xs). valid_room y \<Longrightarrow> rs_size rs + 2 * int (length (x # xs)) \<le> 2 * rs_max_size rs \<Longrightarrow>
    rooms_read H U rs (enc_room x @ enc_container enc_room xs @ rest) =
      Some (rooms_load H (map (canon_room U) (x # xs)) rs, rest)"
proof (induction xs arbitrary: rs x)
  case Nil
  then show ?case by (subst rooms_read.simps) (simp add: room.get_enc get_mark Let_def)
next
  case (Cons y ys)
  let ?rs2 = "rooms_add H (rs\<lparr>rs_size := rs_size rs + 1\<rparr>) (malloc_addr (uh_items H (rs_head rs))) (canon_room U x)"
  have "rooms_read H U ?rs2 (enc_room y @ enc_container enc_room ys @ rest) =
      Some (rooms_load H (map (canon_room U) (y # ys)) ?rs2, rest)"
    using Cons.prems by (intro Cons.IH) (auto simp: rooms_add_def)
  moreover have "rooms_read H U rs (enc_room x @ enc_container enc_room (y # ys) @ rest) =
      rooms_read H U ?rs2 (enc_room y @ enc_container enc_room ys @ rest)"
    using Cons.prems by (subst rooms_read.simps) (simp add: room.get_enc get_mark Let_def)
  ultimately show ?case by simp
qed

context uthash_laws
begin

lemma rooms_load_values:
  "ok (rs_head rs) \<Longrightarrow> \<forall>x \<in> set xs. uh_find H (rs_head rs) (buffer_bytes (room_node x)) = None \<Longrightarrow>
   distinct (map (\<lambda>x. buffer_bytes (room_node x)) xs) \<Longrightarrow>
   rooms_values H (rooms_load H xs rs) = rooms_values H rs @ xs"
proof (induction xs arbitrary: rs)
  case (Cons x xs)
  let ?rs1 = "rs\<lparr>rs_size := rs_size rs + 1\<rparr>" and ?a = "malloc_addr (uh_items H (rs_head rs))"
  have new: "uh_find H (rs_head ?rs1) (buffer_bytes (room_node x)) = None" and fresh: "?a \<notin> set (uh_items H (rs_head ?rs1))"
    and okh: "ok (rs_head ?rs1)" using Cons.prems by simp_all
  note add = rooms_add_items [OF okh new fresh]
  have "uh_find H (rs_head (rooms_add H ?rs1 ?a x)) (buffer_bytes (room_node y)) = None" if "y \<in> set xs" for y
  proof -
    have "buffer_bytes (room_node y) \<noteq> buffer_bytes (room_node x)" using Cons.prems(3) that by (simp add: image_iff) metis
    then show ?thesis using Cons.prems(1,2) that new fresh by (simp add: rooms_add_def find_add)
  qed
  then have "rooms_values H (rooms_load H xs (rooms_add H ?rs1 ?a x)) = rooms_values H (rooms_add H ?rs1 ?a x) @ xs"
    using Cons.prems add(2) by (intro Cons.IH) simp_all
  then show ?case using add(3) by (simp add: rooms_values_def)
qed simp

end

definition rooms_saved :: "'h uthash \<Rightarrow> 'h rooms \<Rightarrow> room list" where
  "rooms_saved H rs = take (nat (rs_max_size rs)) (rooms_values H rs)"

lemma rooms_serialize_saved:
  "rooms_serialize H rs = fwrite (enc_container enc_registered_nick (dls_saved (rs_nicks rs)) @
     enc_container enc_room (rooms_saved H rs))"
  by (simp add: rooms_serialize_def registered_nicks_serialize_def registered_nick.container_serialize_saved
    room.container_serialize_from_enc rooms_saved_def put_and_fwrite)

lemma rooms_deserialize_enc:
  assumes "\<forall>n \<in> set nicks. valid_registered_nick n" and "int (length nicks) \<le> dls_max_size (rs_nicks rs)"
    and "\<forall>r \<in> set xs. valid_room r" and "int (length xs) \<le> rs_max_size rs"
  shows "rooms_deserialize H U rs (enc_container enc_registered_nick nicks @ enc_container enc_room xs) =
    Some (let rs1 = rs\<lparr>rs_nicks := container_load U (map canon_registered_nick nicks) (rs_nicks rs)\<rparr> in
          if xs = [] then rs1 else rooms_load H (map (canon_room U) xs) (rs1\<lparr>rs_head := uh_empty H, rs_size := 0\<rparr>), [])"
proof -
  have n: "registered_nicks_deserialize U (rs_nicks rs) (enc_container enc_registered_nick nicks @ rest) =
      Some (container_load U (map canon_registered_nick nicks) (rs_nicks rs), rest)" for rest
    unfolding registered_nicks_deserialize_def
    by (rule registered_nick.container_deserialize_enc) (use assms(1,2) in simp_all)
  show ?thesis
  proof (cases xs)
    case Nil
    then show ?thesis using get_mark [of False "[]"] by (simp add: rooms_deserialize_def n Let_def)
  next
    case (Cons y ys)
    let ?rs = "rs\<lparr>rs_nicks := container_load U (map canon_registered_nick nicks) (rs_nicks rs), rs_head := uh_empty H, rs_size := 0\<rparr>"
    have "rooms_read H U ?rs (enc_room y @ enc_container enc_room ys @ []) =
        Some (rooms_load H (map (canon_room U) (y # ys)) ?rs, [])"
      by (rule rooms_read_enc) (use assms(3,4) Cons in simp_all)
    then show ?thesis
      using get_mark [of True "enc_room y @ enc_container enc_room ys"]
      by (simp add: rooms_deserialize_def n Let_def Cons)
  qed
qed


text \<open>A table of one room.\<close>

definition example_rooms :: "(bytes \<times> addr) list rooms" where
  "example_rooms = rooms_add uthash_ref ((rooms_init uthash_ref)\<lparr>rs_max_size := 10240\<rparr>) 1 example_room"

lemma example_rooms_ok: "rooms_ok uthash_ref uthash_ref_ok example_rooms"
  unfolding example_rooms_def
proof (rule uthash_ref.rooms_add_ok)
  show "rooms_ok uthash_ref uthash_ref_ok ((rooms_init uthash_ref)\<lparr>rs_max_size := 10240\<rparr>)"
    using uthash_ref.rooms_init_ok by (simp add: rooms_ok_def)
  show "occupants_wf example_room" using example_ctx0_ok(1) by (simp add: example_ctx0_def routed_def)
  show "\<not> has_flag example_room MUC_FLAG_DESTROYED"
    by (simp add: has_flag_def example_room_def room_init_def Let_def MUC_FLAGS_DEFAULT_def)
qed (simp_all add: rooms_init_def uthash_ref.find_empty uthash_ref.items_empty)

lemma example_rooms_saved: "rooms_saved uthash_ref example_rooms = [example_room]" "dls_saved (rs_nicks example_rooms) = []"
  by (simp_all add: rooms_saved_def rooms_values_def example_rooms_def rooms_add_def rooms_init_def uthash_ref_def
    dls_saved_def dls_init_def)


text \<open>
  A process that found no data file when it started never saves anything: the limits
  are set only when there is a file, and the writer takes them for the number of entries to write,
  so the file it leaves has neither rooms nor nicknames, whatever happened in between.
\<close>

theorem first_run_saves_nothing:
  assumes "uthash_laws H ok" and "utlist_laws (pf_utlist P)"
    and "deserialize_data H U None (rooms_init H) = Some rs0" and "rooms_reach H P rs0 rs"
    and "rooms_serialize H rs f = (f', True)"
  shows "of_written f' = of_written f @ enc_mark False @ enc_mark False"
proof -
  have rs0: "rs0 = rooms_init H" using assms(3) by (simp add: deserialize_data_def)
  have "rs_max_size rs = 0 \<and> dls_max_size (rs_nicks rs) = 0"
    using rooms_reach_ok [OF assms(4,1,2)] uthash_laws.rooms_init_ok [OF assms(1)] by (simp add: rs0 rooms_init_def)
  then have "dls_saved (rs_nicks rs) = []" "rooms_saved H rs = []" by (simp_all add: dls_saved_def rooms_saved_def)
  then show ?thesis using assms(5) by (auto simp: rooms_serialize_saved fwrite_def split: if_splits)
qed

theorem first_run_saves_nothing_witness:
  "\<exists>rs f'. uh_items uthash_ref (rs_head rs) = [1] \<and>
     rooms_serialize uthash_ref rs \<lparr>of_written = [], of_space = 100\<rparr> = (f', True) \<and>
     of_written f' = enc_mark False @ enc_mark False"
proof -
  let ?f = "\<lparr>of_written = [], of_space = 100\<rparr>"
  have d: "deserialize_data uthash_ref utlist_ref None (rooms_init uthash_ref) = Some (rooms_init uthash_ref)"
    by (simp add: deserialize_data_def)
  obtain rs where rs: "rooms_reach uthash_ref reference_platform (rooms_init uthash_ref) rs"
    "uh_items uthash_ref (rs_head rs) = [1]" by (rule rooms_example_reached)
  have "rs_max_size rs = 0 \<and> dls_max_size (rs_nicks rs) = 0"
    using rooms_reach_ok [OF rs(1) uthash_ref.uthash_laws_axioms platform_laws(1) uthash_ref.rooms_init_ok]
    by (simp add: rooms_init_def)
  then have "rooms_serialize uthash_ref rs = fwrite (enc_mark False @ enc_mark False)"
    by (simp add: rooms_serialize_saved dls_saved_def rooms_saved_def)
  then obtain f' where f': "rooms_serialize uthash_ref rs ?f = (f', True)"
    by (simp add: fwrite_def enc_mark_def)
  show ?thesis
    using first_run_saves_nothing [OF uthash_ref.uthash_laws_axioms platform_laws(1) d rs(1) f'] rs(2) f' by auto
qed

end
