(* ===== verification/Concurrency.thy ===== *)
theory Concurrency
  imports Rooms
begin

text \<open>
  Several workers in the table of rooms at once. \<open>rooms_process\<close> of \<^verbatim>\<open>src/room/rooms.c\<close> is cut where it
  takes or gives back a lock: the search, the creation and the removal of a room happen under the lock of the table,
  everything in between does not. The theory shows that the parts done one after the other are the function of theory Rooms,
  that the table stays consistent as long as no two workers have stanzas to the same room, and what can happen otherwise.
\<close>

subsection \<open>The parts of \<open>rooms_process\<close>\<close>

text \<open>
  What is left of a stanza: the packet as it was received, the room that was found or created and, after
  the routing, the packet and the packets that were sent.
\<close>

type_synonym reply = "packet \<times> builder_packet list"

datatype phase =
    Idle
  | Searching packet
  | Creating packet
  | Inside packet addr
  | Unlocking packet addr reply
  | Checking packet addr reply
  | Removing packet addr reply
  | Finished reply

text \<open>
  The table with the mutexes of the rooms that are locked. A mutex that is unlocked without being locked is counted:
  the result of that is not defined.
\<close>

record 'h table =
  tb_rooms :: "'h rooms"
  tb_locked :: "addr set"
  tb_misused :: nat

definition room_name :: "packet \<Rightarrow> bytes" where
  "room_name p = buffer_bytes (jid_node (ip_proxy_to p))"

definition in_table :: "'h uthash \<Rightarrow> 'h rooms \<Rightarrow> addr \<Rightarrow> bool" where
  "in_table H rs a \<longleftrightarrow> a \<in> set (uh_items H (rs_head rs))"

text \<open>\<open>pthread_rwlock_rdlock\<close>, \<open>HASHS_FIND\<close>, \<open>pthread_rwlock_unlock\<close>, and what is decided from the result.\<close>

definition search_phase :: "'h uthash \<Rightarrow> acl_config \<Rightarrow> 'h rooms \<Rightarrow> packet \<Rightarrow> phase run" where
  "search_phase H acl rs p =
     (case uh_find H (rs_head rs) (room_name p) of
        Some a \<Rightarrow> Ret (Inside p a)
      | None \<Rightarrow>
          if ip_type p = STANZA_ERROR then Ret (Finished (p, []))
          else if ip_name p \<noteq> STANZA_PRESENCE \<or> ip_type p = STANZA_PRESENCE_UNAVAILABLE
          then bind_run (rooms_bounce ERROR_ROOM_NOT_FOUND None rs p) (\<lambda>(_, p', out). Ret (Finished (p', out)))
          else if acl_role acl (ip_real_from p) \<ge> ACL_MUC_CREATE then Ret (Creating p)
          else bind_run (rooms_bounce ERROR_ROOM_CREATE_PERMISSION (buffer_ptr_cpy (jid_node (ip_proxy_to p))) rs p)
            (\<lambda>(_, p', out). Ret (Finished (p', out))))"

text \<open>\<open>rooms_create_room\<close>: the new room has its mutex locked before the table is given back.\<close>

definition create_phase :: "'h uthash \<Rightarrow> 'h table \<Rightarrow> packet \<Rightarrow> 'h table \<times> phase" where
  "create_phase H tb p =
     (case rooms_create_room H (tb_rooms tb) (jid_node (ip_proxy_to p)) of
        (rs, a) \<Rightarrow> (tb\<lparr>tb_rooms := rs, tb_locked := insert a (tb_locked tb)\<rparr>, Inside p a))"

definition route_phase ::
  "platform \<Rightarrow> acl_config \<Rightarrow> int \<Rightarrow> int \<Rightarrow> 'h rooms \<Rightarrow> packet \<Rightarrow> addr \<Rightarrow> ('h rooms \<times> phase) run" where
  "route_phase P acl now now' rs p a =
     bind_run (room_route P acl (rs_min_message_interval rs) now now' \<lparr>cx_room = rs_room rs a, cx_in = p, cx_out = []\<rparr>)
       (\<lambda>c. Ret (rs\<lparr>rs_room := (rs_room rs)(a := cx_room c)\<rparr>, Unlocking p a (cx_in c, cx_out c)))"

definition unlock_room :: "addr \<Rightarrow> 'h table \<Rightarrow> 'h table" where
  "unlock_room a tb =
     tb\<lparr>tb_locked := tb_locked tb - {a}, tb_misused := (if a \<in> tb_locked tb then tb_misused tb else Suc (tb_misused tb))\<rparr>"

text \<open>Whatever is done with a room that is not in the table any more is done with freed memory.\<close>

definition with_room_of :: "'h uthash \<Rightarrow> 'h rooms \<Rightarrow> addr \<Rightarrow> 'b run \<Rightarrow> 'b run" where
  "with_room_of H rs a r = (if in_table H rs a then r else Fault UseAfterFree)"

fun phase_step ::
  "'h uthash \<Rightarrow> platform \<Rightarrow> acl_config \<Rightarrow> int \<Rightarrow> int \<Rightarrow> 'h table \<Rightarrow> phase \<Rightarrow> ('h table \<times> phase) run" where
  "phase_step H P acl now now' tb (Searching p) = bind_run (search_phase H acl (tb_rooms tb) p) (\<lambda>ph. Ret (tb, ph))"
| "phase_step H P acl now now' tb (Creating p) = Ret (create_phase H tb p)"
| "phase_step H P acl now now' tb (Inside p a) =
     with_room_of H (tb_rooms tb) a
       (bind_run (route_phase P acl now now' (tb_rooms tb) p a) (\<lambda>(rs, ph). Ret (tb\<lparr>tb_rooms := rs\<rparr>, ph)))"
| "phase_step H P acl now now' tb (Unlocking p a r) =
     with_room_of H (tb_rooms tb) a (Ret (unlock_room a tb, Checking p a r))"
| "phase_step H P acl now now' tb (Checking p a r) =
     with_room_of H (tb_rooms tb) a
       (Ret (tb, if has_flag (rs_room (tb_rooms tb) a) MUC_FLAG_DESTROYED then Removing p a r else Finished r))"
| "phase_step H P acl now now' tb (Removing p a r) =
     with_room_of H (tb_rooms tb) a
       (Ret (tb\<lparr>tb_rooms := rooms_destroy_room H (tb_rooms tb) a, tb_locked := tb_locked tb - {a}\<rparr>, Finished r))"
| "phase_step H P acl now now' tb Idle = Ret (tb, Idle)"
| "phase_step H P acl now now' tb (Finished r) = Ret (tb, Finished r)"

primrec run_phases ::
  "'h uthash \<Rightarrow> platform \<Rightarrow> acl_config \<Rightarrow> int \<Rightarrow> int \<Rightarrow> nat \<Rightarrow> 'h table \<Rightarrow> phase \<Rightarrow> ('h table \<times> phase) run" where
  "run_phases H P acl now now' 0 tb ph = Ret (tb, ph)"
| "run_phases H P acl now now' (Suc n) tb ph =
     bind_run (phase_step H P acl now now' tb ph) (\<lambda>(tb', ph'). run_phases H P acl now now' n tb' ph')"

lemma run_finished: "run_phases H P acl now now' n tb (Finished r) = Ret (tb, Finished r)"
  by (induction n) simp_all

lemma run_step:
  "run_phases H P acl now now' 6 tb ph =
    bind_run (phase_step H P acl now now' tb ph) (\<lambda>(tb', ph'). run_phases H P acl now now' 5 tb' ph')"
  "run_phases H P acl now now' 5 tb ph =
    bind_run (phase_step H P acl now now' tb ph) (\<lambda>(tb', ph'). run_phases H P acl now now' 4 tb' ph')"
  by (simp_all add: eval_nat_numeral)

lemma run_longer:
  "run_phases H P acl now now' n tb ph = Ret (tb', Finished r) \<Longrightarrow> run_phases H P acl now now' (n + k) tb ph = Ret (tb', Finished r)"
proof (induction n arbitrary: tb ph)
  case (Suc n)
  then obtain tb1 ph1 where "phase_step H P acl now now' tb ph = Ret (tb1, ph1)" by auto
  then show ?case using Suc by simp
qed (simp add: run_finished)

subsection \<open>One worker alone\<close>

definition table_of :: "'h rooms \<Rightarrow> 'h table" where
  "table_of rs = \<lparr>tb_rooms = rs, tb_locked = {}, tb_misused = 0\<rparr>"

context uthash_laws
begin

lemma run_from_room:
  assumes "in_table H (tb_rooms tb) a" and "rooms_route H P acl now now' (tb_rooms tb) a p = Ret (rs', p', out)"
  shows "run_phases H P acl now now' 4 tb (Inside p a) =
    Ret ((unlock_room a tb)\<lparr>tb_rooms := rs'\<rparr>, Finished (p', out))"
proof -
  obtain c where c: "room_route P acl (rs_min_message_interval (tb_rooms tb)) now now'
      \<lparr>cx_room = rs_room (tb_rooms tb) a, cx_in = p, cx_out = []\<rparr> = Ret c"
    and rs': "rs' = (if has_flag (cx_room c) MUC_FLAG_DESTROYED
      then rooms_destroy_room H ((tb_rooms tb)\<lparr>rs_room := (rs_room (tb_rooms tb))(a := cx_room c)\<rparr>) a
      else (tb_rooms tb)\<lparr>rs_room := (rs_room (tb_rooms tb))(a := cx_room c)\<rparr>)" "p' = cx_in c" "out = cx_out c"
    using assms(2) by (auto simp: rooms_route_def Let_def)
  show ?thesis
    using assms(1) c rs'
    by (simp add: eval_nat_numeral with_room_of_def in_table_def route_phase_def unlock_room_def rooms_destroy_room_def)
qed

lemma run_alone:
  assumes "rooms_ok H ok rs" and "rooms_process H P acl now now' rs p = Ret (rs', p', out)"
  shows "run_phases H P acl now now' 6 (table_of rs) (Searching p) =
    Ret (\<lparr>tb_rooms = rs', tb_locked = {},
          tb_misused = (if uh_find H (rs_head rs) (room_name p) = None then 0 else 1)\<rparr>, Finished (p', out))"
  using assms(1,2)
proof (cases rule: rooms_process_cases)
  case (found a)
  have search: "search_phase H acl rs p = Ret (Inside p a)" using found(1) by (simp add: search_phase_def room_name_def)
  have "run_phases H P acl now now' 4 (table_of rs) (Inside p a) = Ret ((unlock_room a (table_of rs))\<lparr>tb_rooms := rs'\<rparr>, Finished (p', out))"
    using found(2,3) by (intro run_from_room) (simp_all add: table_of_def in_table_def)
  from run_longer [OF this, of 1] show ?thesis
    using found(1) by (simp add: run_step(1) search table_of_def unlock_room_def room_name_def)
next
  case (created rs1 a)
  note c = rooms_create_ok [OF assms(1) created(1,6)]
  let ?tb = "\<lparr>tb_rooms = rs1, tb_locked = {a}, tb_misused = 0\<rparr>"
  have search: "search_phase H acl rs p = Ret (Creating p)" using created(1-5) by (simp add: search_phase_def room_name_def)
  have create: "create_phase H \<lparr>tb_rooms = rs, tb_locked = {}, tb_misused = 0\<rparr> p = (?tb, Inside p a)"
    using created(6) by (simp add: create_phase_def)
  have "run_phases H P acl now now' 4 ?tb (Inside p a) = Ret ((unlock_room a ?tb)\<lparr>tb_rooms := rs'\<rparr>, Finished (p', out))"
    using created(7) c(2) by (intro run_from_room) (simp_all add: in_table_def)
  then show ?thesis
    using created(1) by (simp add: run_step search create table_of_def unlock_room_def room_name_def)
next
  case ignored
  then have "search_phase H acl rs p = Ret (Finished (p', out)) \<and> rs' = rs"
    using assms(2) by (simp add: search_phase_def room_name_def rooms_process_def Let_def)
  then show ?thesis using ignored(1) by (simp add: run_step(1) run_finished table_of_def room_name_def)
next
  case unknown
  then have "search_phase H acl rs p = Ret (Finished (p', out)) \<and> rs' = rs"
    using rooms_bounce_keeps [OF unknown(4)] by (auto simp: search_phase_def room_name_def)
  then show ?thesis using unknown(1) by (simp add: run_step(1) run_finished table_of_def room_name_def)
next
  case forbidden
  then have "search_phase H acl rs p = Ret (Finished (p', out)) \<and> rs' = rs"
    using rooms_bounce_keeps [OF forbidden(6)] by (auto simp: search_phase_def room_name_def)
  then show ?thesis using forbidden(1) by (simp add: run_step(1) run_finished table_of_def room_name_def)
qed

end

text \<open>
  Property C15: the parts of \<open>rooms_process\<close>, done by one worker while no other is in the table, are the function as it is
  modelled in theory Rooms: the same table, packet and packets sent. No mutex stays locked. But a stanza to a room that
  exists unlocks its mutex without having locked it.
\<close>

theorem one_worker_is_sequential:
  assumes "uthash_laws H ok" and "rooms_ok H ok rs" and "rooms_process H P acl now now' rs p = Ret (rs', p', out)"
  shows "run_phases H P acl now now' 6 (table_of rs) (Searching p) =
    Ret (\<lparr>tb_rooms = rs', tb_locked = {},
          tb_misused = (if uh_find H (rs_head rs) (room_name p) = None then 0 else 1)\<rparr>, Finished (p', out))"
  using assms(2,3) by (rule uthash_laws.run_alone [OF assms(1)])

theorem one_worker_is_sequential_witness:
  "\<exists>tb r. run_phases uthash_ref reference_platform acl_nobody 0 0 6 (table_of (rooms_init uthash_ref)) (Searching (cx_in example_ctx0)) =
     Ret (tb, Finished r) \<and> tb_misused tb = 0 \<and> uh_items uthash_ref (rs_head (tb_rooms tb)) = [1]"
proof -
  obtain rs' p' out where r: "rooms_process uthash_ref reference_platform acl_nobody 0 0 (rooms_init uthash_ref)
      (cx_in example_ctx0) = Ret (rs', p', out)" and i: "uh_items uthash_ref (rs_head rs') = [1]"
    using rooms_example by (auto split: run.splits prod.splits)
  have "uh_find uthash_ref (rs_head (rooms_init uthash_ref)) k = None" for k
    by (simp add: rooms_init_def uthash_ref.find_empty)
  then show ?thesis
    using one_worker_is_sequential [OF uthash_ref.uthash_laws_axioms uthash_ref.rooms_init_ok r] i by simp
qed

subsection \<open>Several workers\<close>

definition phase_packet :: "phase \<Rightarrow> packet option" where
  "phase_packet ph =
     (case ph of Searching p \<Rightarrow> Some p | Creating p \<Rightarrow> Some p | Inside p a \<Rightarrow> Some p | Unlocking p a r \<Rightarrow> Some p
      | Checking p a r \<Rightarrow> Some p | Removing p a r \<Rightarrow> Some p | _ \<Rightarrow> None)"

definition phase_room :: "phase \<Rightarrow> addr option" where
  "phase_room ph =
     (case ph of Inside p a \<Rightarrow> Some a | Unlocking p a r \<Rightarrow> Some a | Checking p a r \<Rightarrow> Some a | Removing p a r \<Rightarrow> Some a | _ \<Rightarrow> None)"

lemma phase_simps [simp]:
  "phase_packet Idle = None" "phase_packet (Searching p) = Some p" "phase_packet (Creating p) = Some p"
  "phase_packet (Inside p a) = Some p" "phase_packet (Unlocking p a r) = Some p" "phase_packet (Checking p a r) = Some p"
  "phase_packet (Removing p a r) = Some p" "phase_packet (Finished r) = None"
  "phase_room Idle = None" "phase_room (Searching p) = None" "phase_room (Creating p) = None"
  "phase_room (Inside p a) = Some a" "phase_room (Unlocking p a r) = Some a" "phase_room (Checking p a r) = Some a"
  "phase_room (Removing p a r) = Some a" "phase_room (Finished r) = None"
  by (simp_all add: phase_packet_def phase_room_def)

record 'h workers =
  ws_table :: "'h table"
  ws_phase :: "nat \<Rightarrow> phase"

abbreviation ws_rooms :: "'h workers \<Rightarrow> 'h rooms" where "ws_rooms s \<equiv> tb_rooms (ws_table s)"

text \<open>
  The steps of the workers, in any order. With \<open>apart\<close>, a worker takes a stanza only when no other one has a
  stanza to the same room; the code does not see to that.
\<close>

inductive work :: "bool \<Rightarrow> 'h uthash \<Rightarrow> platform \<Rightarrow> 'h workers \<Rightarrow> 'h workers \<Rightarrow> bool" for apart H P where
  take: "ws_phase s t = Idle \<Longrightarrow> buffer_size (jid_resource (ip_proxy_to p)) \<le> MAX_JID_PART_SIZE \<Longrightarrow>
    (apart \<longrightarrow> (\<forall>u q. phase_packet (ws_phase s u) = Some q \<longrightarrow> room_name q \<noteq> room_name p)) \<Longrightarrow>
    work apart H P s (s\<lparr>ws_phase := (ws_phase s)(t := Searching p)\<rparr>)"
| phase: "phase_step H P acl now now' (ws_table s) (ws_phase s t) = Ret (tb, ph) \<Longrightarrow>
    work apart H P s \<lparr>ws_table = tb, ws_phase = (ws_phase s)(t := ph)\<rparr>"
| give_back: "ws_phase s t = Finished r \<Longrightarrow> work apart H P s (s\<lparr>ws_phase := (ws_phase s)(t := Idle)\<rparr>)"

definition workers_start :: "'h rooms \<Rightarrow> 'h workers" where
  "workers_start rs = \<lparr>ws_table = table_of rs, ws_phase = (\<lambda>_. Idle)\<rparr>"

subsection \<open>Workers in different rooms\<close>

text \<open>The table, with rooms that are marked destroyed and not yet removed.\<close>

definition index_ok :: "'h uthash \<Rightarrow> ('h \<Rightarrow> bool) \<Rightarrow> 'h rooms \<Rightarrow> bool" where
  "index_ok H ok rs \<longleftrightarrow>
     ok (rs_head rs) \<and> distinct (uh_items H (rs_head rs)) \<and>
     (\<forall>a \<in> set (uh_items H (rs_head rs)).
        uh_find H (rs_head rs) (buffer_bytes (room_node (rs_room rs a))) = Some a \<and> occupants_wf (rs_room rs a)) \<and>
     (\<forall>k a. uh_find H (rs_head rs) k = Some a \<longrightarrow>
        a \<in> set (uh_items H (rs_head rs)) \<and> buffer_bytes (room_node (rs_room rs a)) = k)"

definition leaves :: "addr \<Rightarrow> phase \<Rightarrow> bool" where
  "leaves a ph \<longleftrightarrow> (case ph of Unlocking p b r \<Rightarrow> b = a | Checking p b r \<Rightarrow> b = a | Removing p b r \<Rightarrow> b = a | _ \<Rightarrow> False)"

lemma leaves_simps [simp]:
  "\<not> leaves a Idle" "\<not> leaves a (Searching p)" "\<not> leaves a (Creating p)" "\<not> leaves a (Inside p b)" "\<not> leaves a (Finished r)"
  "leaves a (Unlocking p b r) \<longleftrightarrow> b = a" "leaves a (Checking p b r) \<longleftrightarrow> b = a" "leaves a (Removing p b r) \<longleftrightarrow> b = a"
  by (simp_all add: leaves_def)

definition worker_ok :: "'h uthash \<Rightarrow> 'h rooms \<Rightarrow> phase \<Rightarrow> bool" where
  "worker_ok H rs ph \<longleftrightarrow>
     (\<forall>p. phase_packet ph = Some p \<longrightarrow> buffer_size (jid_resource (ip_proxy_to p)) \<le> MAX_JID_PART_SIZE) \<and>
     (\<forall>p. ph = Creating p \<longrightarrow> uh_find H (rs_head rs) (room_name p) = None) \<and>
     (\<forall>p a. phase_packet ph = Some p \<longrightarrow> phase_room ph = Some a \<longrightarrow>
        in_table H rs a \<and> buffer_bytes (room_node (rs_room rs a)) = room_name p) \<and>
     (\<forall>p a r. ph = Removing p a r \<longrightarrow> has_flag (rs_room rs a) MUC_FLAG_DESTROYED)"

definition workers_ok :: "'h uthash \<Rightarrow> ('h \<Rightarrow> bool) \<Rightarrow> 'h workers \<Rightarrow> bool" where
  "workers_ok H ok s \<longleftrightarrow>
     index_ok H ok (ws_rooms s) \<and>
     (\<forall>t. worker_ok H (ws_rooms s) (ws_phase s t)) \<and>
     (\<forall>a. in_table H (ws_rooms s) a \<longrightarrow> has_flag (rs_room (ws_rooms s) a) MUC_FLAG_DESTROYED \<longrightarrow>
        (\<exists>t. leaves a (ws_phase s t))) \<and>
     (\<forall>t u p q. t \<noteq> u \<longrightarrow> phase_packet (ws_phase s t) = Some p \<longrightarrow> phase_packet (ws_phase s u) = Some q \<longrightarrow>
        room_name p \<noteq> room_name q)"

text \<open>What a part of \<open>rooms_process\<close> does for the worker itself, for the others and for the rooms that are marked.\<close>

definition apart_from :: "phase \<Rightarrow> phase \<Rightarrow> bool" where
  "apart_from ph ph2 \<longleftrightarrow>
     (\<forall>p q. phase_packet ph = Some p \<longrightarrow> phase_packet ph2 = Some q \<longrightarrow> room_name p \<noteq> room_name q)"

definition keeps :: "'h uthash \<Rightarrow> ('h \<Rightarrow> bool) \<Rightarrow> 'h rooms \<Rightarrow> phase \<Rightarrow> 'h rooms \<Rightarrow> phase \<Rightarrow> bool" where
  "keeps H ok rs ph rs' ph' \<longleftrightarrow>
     index_ok H ok rs' \<and> worker_ok H rs' ph' \<and> (phase_packet ph' = phase_packet ph \<or> phase_packet ph' = None) \<and>
     (\<forall>ph2. worker_ok H rs ph2 \<longrightarrow> apart_from ph ph2 \<longrightarrow> worker_ok H rs' ph2) \<and>
     (\<forall>b. in_table H rs' b \<longrightarrow> has_flag (rs_room rs' b) MUC_FLAG_DESTROYED \<longrightarrow>
        leaves b ph' \<or> in_table H rs b \<and> has_flag (rs_room rs b) MUC_FLAG_DESTROYED \<and> \<not> leaves b ph)"

lemma index_okD:
  assumes "index_ok H ok rs"
  shows "ok (rs_head rs)" and "distinct (uh_items H (rs_head rs))"
    and "in_table H rs a \<Longrightarrow> uh_find H (rs_head rs) (buffer_bytes (room_node (rs_room rs a))) = Some a"
    and "in_table H rs a \<Longrightarrow> occupants_wf (rs_room rs a)"
    and "uh_find H (rs_head rs) k = Some a \<Longrightarrow> in_table H rs a \<and> buffer_bytes (room_node (rs_room rs a)) = k"
  using assms by (auto simp: index_ok_def in_table_def)

lemma same_room: "index_ok H ok rs \<Longrightarrow> in_table H rs a \<Longrightarrow> in_table H rs b \<Longrightarrow>
    buffer_bytes (room_node (rs_room rs a)) = buffer_bytes (room_node (rs_room rs b)) \<Longrightarrow> a = b"
  by (metis index_okD(3) option.inject)

text \<open>Another worker is in another room.\<close>

lemma other_room:
  assumes "worker_ok H rs ph" and "worker_ok H rs ph2" and "apart_from ph ph2" and "phase_room ph = Some a" and "phase_room ph2 = Some b"
  shows "a \<noteq> b"
proof -
  have "\<exists>p. phase_packet x = Some p" if "phase_room x = Some c" for x c using that by (cases x) simp_all
  then obtain p q where p: "phase_packet ph = Some p" and q: "phase_packet ph2 = Some q" using assms(4,5) by blast
  then have "buffer_bytes (room_node (rs_room rs a)) = room_name p" "buffer_bytes (room_node (rs_room rs b)) = room_name q"
    using assms(1,2,4,5) by (auto simp: worker_ok_def)
  then show ?thesis using assms(3) p q by (auto simp: apart_from_def)
qed

context uthash_laws
begin

lemma creating_keeps:
  assumes "index_ok H ok rs" and "worker_ok H rs (Creating p)" and "rooms_create_room H rs (jid_node (ip_proxy_to p)) = (rs', a)"
  shows "keeps H ok rs (Creating p) rs' (Inside p a)"
proof -
  note i = index_okD [OF assms(1)]
  let ?r = "room_init (jid_node (ip_proxy_to p))"
  have a: "a = malloc_addr (uh_items H (rs_head rs))" "rs' = rooms_add H rs a ?r"
    using assms(3) by (auto simp: rooms_create_room_def Let_def)
  then have fresh: "a \<notin> set (uh_items H (rs_head rs))" by simp
  have node: "buffer_bytes (room_node ?r) = room_name p"
    by (simp add: room_init_def buffer_ptr_cpy_def buffer_bytes_def room_name_def split: option.split)
  have new: "uh_find H (rs_head rs) (buffer_bytes (room_node ?r)) = None" using assms(2) by (simp add: worker_ok_def node)
  have "occupants ?r = []" by (simp add: room_init_def occupants_def)
  then have r: "occupants_wf ?r" "\<not> has_flag ?r MUC_FLAG_DESTROYED"
    by (simp_all add: occupants_wf_def linked_occupants) (simp add: room_init_def has_flag_def MUC_FLAGS_DEFAULT_def)
  note items = rooms_add_items [OF i(1) new fresh, folded a(2)]
  have f: "uh_find H (rs_head rs') k = (if k = room_name p then Some a else uh_find H (rs_head rs) k)" for k
    using i(1) new fresh by (simp add: a(2) rooms_add_def find_add node)
  have room: "rs_room rs' b = (if b = a then ?r else rs_room rs b)" for b by (simp add: a(2) rooms_add_def)
  have t: "in_table H rs' b \<longleftrightarrow> b = a \<or> in_table H rs b" and na: "\<not> in_table H rs a" for b
    using items(1) fresh by (auto simp: in_table_def)
  have other: "buffer_bytes (room_node (rs_room rs b)) \<noteq> room_name p" if "in_table H rs b" for b
    using i(3) [OF that] new node by auto
  have "index_ok H ok rs'"
    unfolding index_ok_def using items(1,2) i fresh r(1) other
    by (auto simp: f room node in_table_def split: if_splits)
  moreover have "worker_ok H rs' ph2" if "worker_ok H rs ph2" "apart_from (Creating p) ph2" for ph2
    using that na by (cases ph2) (auto simp: worker_ok_def f room t apart_from_def)
  moreover have "worker_ok H rs' (Inside p a)" using assms(2) by (simp add: worker_ok_def t room node)
  ultimately show ?thesis using r(2) by (auto simp: keeps_def t room)
qed

lemma inside_keeps:
  assumes "index_ok H ok rs" and "utlist_laws (pf_utlist P)" and "worker_ok H rs (Inside p a)"
    and "route_phase P acl now now' rs p a = Ret (rs', ph')"
  shows "keeps H ok rs (Inside p a) rs' ph'"
proof -
  note i = index_okD [OF assms(1)]
  have a: "in_table H rs a" "buffer_bytes (room_node (rs_room rs a)) = room_name p"
    "buffer_size (jid_resource (ip_proxy_to p)) \<le> MAX_JID_PART_SIZE" using assms(3) by (simp_all add: worker_ok_def)
  obtain c where c: "room_route P acl (rs_min_message_interval rs) now now' \<lparr>cx_room = rs_room rs a, cx_in = p, cx_out = []\<rparr> = Ret c"
    and rs': "rs' = rs\<lparr>rs_room := (rs_room rs)(a := cx_room c)\<rparr>" and ph': "ph' = Unlocking p a (cx_in c, cx_out c)"
    using assms(4) by (auto simp: route_phase_def)
  have wf: "occupants_wf (cx_room c)" by (rule room_route_wf [OF assms(2) _ _ c]) (use i(4) a in simp_all)
  have node: "room_node (cx_room c) = room_node (rs_room rs a)" using route_node [OF assms(2) _ c] i(4) a(1) by simp
  have "index_ok H ok rs'" using i wf node by (auto simp: rs' index_ok_def in_table_def)
  moreover have "worker_ok H rs' ph2" if "worker_ok H rs ph2" "apart_from (Inside p a) ph2" for ph2
    using that other_room [OF assms(3) that, of a] node by (cases ph2) (auto simp: worker_ok_def rs' in_table_def)
  moreover have "worker_ok H rs' ph'" using a node by (simp add: worker_ok_def rs' ph' in_table_def)
  ultimately show ?thesis by (auto simp: keeps_def rs' ph' in_table_def)
qed

lemma removing_keeps:
  assumes "index_ok H ok rs" and "worker_ok H rs (Removing p a r)"
  shows "keeps H ok rs (Removing p a r) (rooms_destroy_room H rs a) (Finished r)"
proof -
  note i = index_okD [OF assms(1)]
  let ?rs = "rooms_destroy_room H rs a"
  have a: "in_table H rs a" using assms(2) by (simp add: worker_ok_def)
  then have a': "a \<in> set (uh_items H (rs_head rs))" by (simp add: in_table_def)
  have items: "uh_items H (rs_head ?rs) = remove1 a (uh_items H (rs_head rs))"
    using items_del [OF i(1) a'] by (simp add: rooms_destroy_room_def)
  have f: "uh_find H (rs_head ?rs) k = (if uh_find H (rs_head rs) k = Some a then None else uh_find H (rs_head rs) k)" for k
    using find_del [OF i(1) a'] by (simp add: rooms_destroy_room_def)
  have room: "rs_room ?rs = rs_room rs" by (simp add: rooms_destroy_room_def)
  have t: "in_table H ?rs b \<longleftrightarrow> in_table H rs b \<and> b \<noteq> a" for b using i(2) by (auto simp: in_table_def items)
  have name: "uh_find H (rs_head rs) (buffer_bytes (room_node (rs_room rs b))) \<noteq> Some a" if "in_table H rs b" "b \<noteq> a" for b
    using i(3) [OF that(1)] that(2) by simp
  have "ok (rs_head ?rs)" using ok_del [OF i(1) a'] by (simp add: rooms_destroy_room_def)
  then have "index_ok H ok ?rs"
    unfolding index_ok_def using i items name by (auto simp: f room in_table_def)
  moreover have "worker_ok H ?rs ph2" if "worker_ok H rs ph2" "apart_from (Removing p a r) ph2" for ph2
    using that other_room [OF assms(2) that, of a] by (cases ph2) (auto simp: worker_ok_def f room t)
  ultimately show ?thesis by (auto simp: keeps_def t room worker_ok_def)
qed

lemma phase_keeps:
  assumes "index_ok H ok (tb_rooms tb)" and "utlist_laws (pf_utlist P)" and "worker_ok H (tb_rooms tb) ph"
    and "phase_step H P acl now now' tb ph = Ret (tb', ph')"
  shows "keeps H ok (tb_rooms tb) ph (tb_rooms tb') ph'"
proof -
  have same: "keeps H ok (tb_rooms tb) ph (tb_rooms tb) ph2"
    if "worker_ok H (tb_rooms tb) ph2" "phase_packet ph2 = phase_packet ph \<or> phase_packet ph2 = None"
      "\<And>b. has_flag (rs_room (tb_rooms tb) b) MUC_FLAG_DESTROYED \<Longrightarrow> leaves b ph \<Longrightarrow> leaves b ph2" for ph2
    using that assms(1) by (auto simp: keeps_def)
  have fin: "worker_ok H (tb_rooms tb) (Finished r)" for r by (simp add: worker_ok_def)
  show ?thesis
  proof (cases ph)
    case (Searching p)
    then have s: "search_phase H acl (tb_rooms tb) p = Ret ph'" "tb' = tb" using assms(4) by auto
    then consider a where "ph' = Inside p a" "uh_find H (rs_head (tb_rooms tb)) (room_name p) = Some a"
      | "ph' = Creating p" "uh_find H (rs_head (tb_rooms tb)) (room_name p) = None" | r where "ph' = Finished r"
      by (auto simp: search_phase_def split: option.splits if_splits)
    then show ?thesis
    proof cases
      case (1 a)
      then have "worker_ok H (tb_rooms tb) ph'" using assms(3) Searching index_okD(5) [OF assms(1)] by (simp add: worker_ok_def)
      then show ?thesis unfolding s(2) using 1 Searching by (intro same) auto
    next
      case 2
      then have "worker_ok H (tb_rooms tb) ph'" using assms(3) Searching by (simp add: worker_ok_def)
      then show ?thesis unfolding s(2) using 2 Searching by (intro same) auto
    next
      case 3
      then show ?thesis unfolding s(2) using fin Searching by (intro same) auto
    qed
  next
    case (Creating p)
    then show ?thesis using assms creating_keeps by (auto simp: create_phase_def split: prod.splits)
  next
    case (Inside p a)
    then show ?thesis using assms inside_keeps by (auto simp: with_room_of_def split: if_splits)
  next
    case (Unlocking p a r)
    then have "tb_rooms tb' = tb_rooms tb" "ph' = Checking p a r" using assms(4) by (auto simp: with_room_of_def unlock_room_def split: if_splits)
    moreover have "worker_ok H (tb_rooms tb) (Checking p a r)" using assms(3) Unlocking by (simp add: worker_ok_def)
    ultimately show ?thesis using same Unlocking by simp
  next
    case (Checking p a r)
    then have "tb' = tb" "ph' = (if has_flag (rs_room (tb_rooms tb) a) MUC_FLAG_DESTROYED then Removing p a r else Finished r)"
      using assms(4) by (auto simp: with_room_of_def split: if_splits)
    moreover have "worker_ok H (tb_rooms tb) (Removing p a r)" if "has_flag (rs_room (tb_rooms tb) a) MUC_FLAG_DESTROYED"
      using assms(3) Checking that by (simp add: worker_ok_def)
    ultimately show ?thesis using same Checking fin by auto
  next
    case (Removing p a r)
    then show ?thesis using assms removing_keeps [of "tb_rooms tb" p a r] by (auto simp: with_room_of_def split: if_splits)
  qed (use assms same in \<open>auto simp: keeps_def\<close>)
qed

end

context uthash_laws
begin

lemma worker_ok_start: "buffer_size (jid_resource (ip_proxy_to p)) \<le> MAX_JID_PART_SIZE \<Longrightarrow> worker_ok H rs (Searching p)"
  "worker_ok H rs Idle"
  by (simp_all add: worker_ok_def)

lemma work_ok:
  assumes "work True H P s s'" and "utlist_laws (pf_utlist P)" and "workers_ok H ok s"
  shows "workers_ok H ok s'"
  using assms(1)
proof cases
  case (take t p)
  then show ?thesis using assms(3) worker_ok_start(1) [of p "ws_rooms s"]
    by (auto simp: workers_ok_def) (metis leaves_simps(1) take(2))+
next
  case (phase acl now now' t tb ph)
  have k: "keeps H ok (ws_rooms s) (ws_phase s t) (tb_rooms tb) ph"
    using phase_keeps [OF _ assms(2) _ phase(2)] assms(3) by (simp add: workers_ok_def)
  have apart: "apart_from (ws_phase s t) (ws_phase s u)" if "u \<noteq> t" for u
    using assms(3) that unfolding workers_ok_def apart_from_def by metis
  have packets: "phase_packet (ws_phase s' u) = phase_packet (ws_phase s u) \<or> phase_packet (ws_phase s' u) = None" for u
    using k by (simp add: phase(1) keeps_def)
  have "worker_ok H (tb_rooms tb) (ws_phase s' u)" for u
    using k apart [of u] assms(3) by (auto simp: phase(1) keeps_def workers_ok_def)
  moreover have "\<exists>u. leaves a (ws_phase s' u)" if "in_table H (tb_rooms tb) a" "has_flag (rs_room (tb_rooms tb) a) MUC_FLAG_DESTROYED" for a
  proof (cases "leaves a ph")
    case False
    then have "in_table H (ws_rooms s) a" "has_flag (rs_room (ws_rooms s) a) MUC_FLAG_DESTROYED" "\<not> leaves a (ws_phase s t)"
      using k that by (auto simp: keeps_def)
    then obtain u where "leaves a (ws_phase s u)" using assms(3) unfolding workers_ok_def by blast
    moreover from this have "u \<noteq> t" using \<open>\<not> leaves a (ws_phase s t)\<close> by blast
    ultimately show ?thesis by (intro exI [of _ u]) (simp add: phase(1))
  qed (intro exI [of _ t], simp add: phase(1))
  moreover have "room_name p \<noteq> room_name q"
    if "u \<noteq> v" "phase_packet (ws_phase s' u) = Some p" "phase_packet (ws_phase s' v) = Some q" for u v p q
    using assms(3) that packets [of u] packets [of v] unfolding workers_ok_def by auto
  ultimately show ?thesis using k by (auto simp: workers_ok_def phase(1) keeps_def)
next
  case (give_back t r)
  then show ?thesis using assms(3) worker_ok_start(2) [of "ws_rooms s"]
    by (auto simp: workers_ok_def) (metis leaves_simps(5) give_back(2))+
qed

lemma workers_start_ok: "workers_ok H ok (workers_start (rooms_init H))"
  by (simp add: workers_ok_def workers_start_def table_of_def index_ok_def rooms_init_def ok_empty items_empty find_empty
      worker_ok_start in_table_def)

lemma work_reachable_ok:
  assumes "(work True H P)\<^sup>*\<^sup>* (workers_start (rooms_init H)) s" and "utlist_laws (pf_utlist P)"
  shows "workers_ok H ok s"
  using assms(1)
proof (induction rule: rtranclp_induct)
  case (step s s')
  then show ?case using work_ok [OF _ assms(2)] by blast
qed (rule workers_start_ok)

end

text \<open>
  Property C14: as long as no two workers have stanzas to the same room, the table stays consistent whatever
  the workers do at the same time: every room is found under its name, no two rooms have the same
  name, a worker is only in rooms that are in the table and have the name its stanza asks for, no two workers are in the
  same room, and a room that is marked destroyed is about to be removed by a worker.
\<close>

theorem workers_in_different_rooms:
  assumes "uthash_laws H ok" and "utlist_laws (pf_utlist P)"
    and "(work True H P)\<^sup>*\<^sup>* (workers_start (rooms_init H)) s"
  shows "(\<forall>a. in_table H (ws_rooms s) a \<longrightarrow>
       uh_find H (rs_head (ws_rooms s)) (buffer_bytes (room_node (rs_room (ws_rooms s) a))) = Some a \<and>
       occupants_wf (rs_room (ws_rooms s) a) \<and>
       (has_flag (rs_room (ws_rooms s) a) MUC_FLAG_DESTROYED \<longrightarrow> (\<exists>t. leaves a (ws_phase s t)))) \<and>
    distinct (map (\<lambda>r. buffer_bytes (room_node r)) (rooms_values H (ws_rooms s))) \<and>
    (\<forall>t p a. phase_packet (ws_phase s t) = Some p \<longrightarrow> phase_room (ws_phase s t) = Some a \<longrightarrow>
       in_table H (ws_rooms s) a \<and> buffer_bytes (room_node (rs_room (ws_rooms s) a)) = room_name p) \<and>
    (\<forall>t u a. phase_room (ws_phase s t) = Some a \<longrightarrow> phase_room (ws_phase s u) = Some a \<longrightarrow> t = u)"
proof -
  have ok: "workers_ok H ok s" using uthash_laws.work_reachable_ok [OF assms(1,3,2)] .
  then have i: "index_ok H ok (ws_rooms s)" by (simp add: workers_ok_def)
  note d = index_okD [OF i]
  have "inj_on (\<lambda>a. buffer_bytes (room_node (rs_room (ws_rooms s) a))) (set (uh_items H (rs_head (ws_rooms s))))"
    by (rule inj_onI) (metis same_room [OF i] in_table_def)
  then have "distinct (map (\<lambda>r. buffer_bytes (room_node r)) (rooms_values H (ws_rooms s)))"
    using d(2) by (simp add: rooms_values_def distinct_map comp_inj_on_iff o_def)
  moreover have "t = u" if "phase_room (ws_phase s t) = Some a" "phase_room (ws_phase s u) = Some a" for t u a
  proof (rule ccontr)
    assume "t \<noteq> u"
    then have "apart_from (ws_phase s t) (ws_phase s u)" using ok unfolding workers_ok_def apart_from_def by metis
    moreover have "worker_ok H (ws_rooms s) (ws_phase s t)" "worker_ok H (ws_rooms s) (ws_phase s u)" using ok by (simp_all add: workers_ok_def)
    ultimately show False using other_room that by blast
  qed
  moreover have "\<exists>t. leaves a (ws_phase s t)"
    if "in_table H (ws_rooms s) a" "has_flag (rs_room (ws_rooms s) a) MUC_FLAG_DESTROYED" for a
    using ok that by (simp add: workers_ok_def)
  moreover have "worker_ok H (ws_rooms s) (ws_phase s t)" for t using ok by (simp add: workers_ok_def)
  then have "in_table H (ws_rooms s) a \<and> buffer_bytes (room_node (rs_room (ws_rooms s) a)) = room_name p"
    if "phase_packet (ws_phase s t) = Some p" "phase_room (ws_phase s t) = Some a" for t p a
    using that by (simp add: worker_ok_def)
  ultimately show ?thesis using d(3,4) by (intro conjI allI impI) simp_all
qed

text \<open>A worker that goes on alone.\<close>

lemma work_phases:
  "run_phases H P acl now now' n (ws_table s) (ws_phase s t) = Ret (tb, ph) \<Longrightarrow>
    (work apart H P)\<^sup>*\<^sup>* s \<lparr>ws_table = tb, ws_phase = (ws_phase s)(t := ph)\<rparr>"
proof (induction n arbitrary: s)
  case 0
  then show ?case by (cases s) (auto simp: fun_upd_idem)
next
  case (Suc n)
  then obtain tb1 ph1 where step: "phase_step H P acl now now' (ws_table s) (ws_phase s t) = Ret (tb1, ph1)"
    and rest: "run_phases H P acl now now' n tb1 ph1 = Ret (tb, ph)" by auto
  let ?s1 = "\<lparr>ws_table = tb1, ws_phase = (ws_phase s)(t := ph1)\<rparr>"
  have "work apart H P s ?s1" by (rule work.phase [OF step])
  moreover have "(work apart H P)\<^sup>*\<^sup>* ?s1 \<lparr>ws_table = tb, ws_phase = (ws_phase ?s1)(t := ph)\<rparr>"
    using rest by (intro Suc.IH) simp
  ultimately show ?case unfolding workers.select_convs fun_upd_upd by (rule converse_rtranclp_into_rtranclp)
qed

lemma work_take:
  assumes "ws_phase s t = Idle" and "buffer_size (jid_resource (ip_proxy_to p)) \<le> MAX_JID_PART_SIZE"
    and "apart \<longrightarrow> (\<forall>u q. phase_packet (ws_phase s u) = Some q \<longrightarrow> room_name q \<noteq> room_name p)"
    and "run_phases H P acl now now' n (ws_table s) (Searching p) = Ret (tb, ph)"
  shows "(work apart H P)\<^sup>*\<^sup>* s \<lparr>ws_table = tb, ws_phase = (ws_phase s)(t := ph)\<rparr>"
proof -
  let ?s1 = "s\<lparr>ws_phase := (ws_phase s)(t := Searching p)\<rparr>"
  have "work apart H P s ?s1" using assms(1-3) by (rule work.take)
  moreover have "(work apart H P)\<^sup>*\<^sup>* ?s1 \<lparr>ws_table = tb, ws_phase = (ws_phase s)(t := ph)\<rparr>"
    using work_phases [of H P acl now now' n ?s1 t tb ph apart] assms(4) by simp
  ultimately show ?thesis by (rule converse_rtranclp_into_rtranclp)
qed

definition example_other :: packet where
  "example_other = (cx_in example_ctx0)\<lparr>ip_proxy_to := \<lparr>jid_node = Some ''milk'', jid_host = Some ''c'', jid_resource = Some ''Bob''\<rparr>\<rparr>"

lemma two_rooms_example:
  "case run_phases uthash_ref reference_platform acl_nobody 0 0 2 (table_of (rooms_init uthash_ref)) (Searching (cx_in example_ctx0)) of
     Ret (tb, ph) \<Rightarrow> phase_room ph = Some 1 \<and> phase_packet ph = Some (cx_in example_ctx0) \<and>
       (case run_phases uthash_ref reference_platform acl_nobody 0 0 2 tb (Searching example_other) of
          Ret (tb', ph') \<Rightarrow> phase_room ph' = Some 2 \<and> length (uh_items uthash_ref (rs_head (tb_rooms tb'))) = 2
        | Fault _ \<Rightarrow> False)
   | Fault _ \<Rightarrow> False"
  "room_name (cx_in example_ctx0) \<noteq> room_name example_other"
  "buffer_size (jid_resource (ip_proxy_to example_other)) \<le> 10"
  by code_simp+

theorem workers_in_different_rooms_witness:
  "\<exists>s. (work True uthash_ref reference_platform)\<^sup>*\<^sup>* (workers_start (rooms_init uthash_ref)) s \<and>
     phase_room (ws_phase s 0) = Some 1 \<and> phase_room (ws_phase s 1) = Some 2 \<and> in_table uthash_ref (ws_rooms s) 2 \<and>
     distinct (map (\<lambda>r. buffer_bytes (room_node r)) (rooms_values uthash_ref (ws_rooms s)))"
proof -
  let ?work = "work True uthash_ref reference_platform" and ?s0 = "workers_start (rooms_init uthash_ref)"
  obtain tb ph tb' ph' where
    r: "run_phases uthash_ref reference_platform acl_nobody 0 0 2 (table_of (rooms_init uthash_ref)) (Searching (cx_in example_ctx0)) = Ret (tb, ph)"
      "run_phases uthash_ref reference_platform acl_nobody 0 0 2 tb (Searching example_other) = Ret (tb', ph')"
    and ph: "phase_room ph = Some 1" "phase_packet ph = Some (cx_in example_ctx0)" "phase_room ph' = Some 2"
    using two_rooms_example(1) by (auto split: run.splits prod.splits)
  let ?s1 = "\<lparr>ws_table = tb, ws_phase = (ws_phase ?s0)(0 := ph)\<rparr>"
  let ?s2 = "\<lparr>ws_table = tb', ws_phase = (ws_phase ?s1)(1 := ph')\<rparr>"
  have "?work\<^sup>*\<^sup>* ?s0 ?s1"
    using r(1) example_ctx0_ok(3) by (intro work_take) (simp_all add: workers_start_def)
  moreover have "?work\<^sup>*\<^sup>* ?s1 ?s2"
    using r(2) two_rooms_example(2,3) ph(2) by (intro work_take) (auto simp: workers_start_def)
  ultimately have reach: "?work\<^sup>*\<^sup>* ?s0 ?s2" by (rule rtranclp_trans)
  note ok = workers_in_different_rooms [OF uthash_ref.uthash_laws_axioms platform_laws(1) reach]
  have "phase_packet ph' \<noteq> None" using ph(3) by (cases ph') simp_all
  then obtain q where "phase_packet (ws_phase ?s2 1) = Some q" "phase_room (ws_phase ?s2 1) = Some 2" using ph(3) by auto
  then have "in_table uthash_ref (ws_rooms ?s2) 2" using ok by blast
  moreover have "phase_room (ws_phase ?s2 0) = Some 1" "phase_room (ws_phase ?s2 1) = Some 2" using ph by simp_all
  ultimately show ?thesis using ok reach by blast
qed

subsection \<open>Workers in the same room\<close>



text \<open>
  Property C36: a worker that found a room goes on with it although another one removes it meanwhile:
  when the stanza of the other ends the room, the next access is one to freed memory.
\<close>

theorem freed_room_is_used:
  assumes "uthash_laws H ok" and "rooms_ok H ok rs" and "uh_find H (rs_head rs) (room_name p) = Some a"
    and "rooms_process H P acl now now' rs p = Ret (rs', p', out)" and "\<not> in_table H rs' a"
    and "room_name q = room_name p" and "t \<noteq> u"
    and "\<forall>x \<in> {p, q}. buffer_size (jid_resource (ip_proxy_to x)) \<le> MAX_JID_PART_SIZE"
  shows "\<exists>s. (work False H P)\<^sup>*\<^sup>* (workers_start rs) s \<and> ws_phase s u = Inside q a \<and>
    phase_step H P acl2 now2 now2' (ws_table s) (ws_phase s u) = Fault UseAfterFree"
proof -
  let ?work = "work False H P" and ?s0 = "workers_start rs"
  have a: "in_table H rs a" using rooms_okD(6) [OF assms(2,3)] by (simp add: in_table_def)
  have route: "rooms_route H P acl now now' rs a p = Ret (rs', p', out)"
    using assms(3,4) by (simp add: rooms_process_def room_name_def Let_def)
  have search: "run_phases H P acl now now' 1 (table_of rs) (Searching x) = Ret (table_of rs, Inside x a)"
    if "x \<in> {p, q}" for x
  proof -
    have "room_name x = room_name p" using that assms(6) by blast
    then show ?thesis using assms(3) by (simp add: table_of_def search_phase_def)
  qed
  define s1 where "s1 = \<lparr>ws_table = table_of rs, ws_phase = (ws_phase ?s0)(t := Inside p a)\<rparr>"
  define s2 where "s2 = \<lparr>ws_table = table_of rs, ws_phase = (ws_phase s1)(u := Inside q a)\<rparr>"
  define s3 where "s3 = \<lparr>ws_table = (unlock_room a (table_of rs))\<lparr>tb_rooms := rs'\<rparr>, ws_phase = (ws_phase s2)(t := Finished (p', out))\<rparr>"
  have "?work\<^sup>*\<^sup>* ?s0 s1"
    unfolding s1_def using assms(8) search [of p] by (intro work_take [of _ _ _ _ _ _ acl now now' 1]) (simp_all add: workers_start_def)
  moreover have "?work\<^sup>*\<^sup>* s1 s2"
    unfolding s2_def using assms(7,8) search [of q] by (intro work_take [of _ _ _ _ _ _ acl now now' 1]) (simp_all add: s1_def workers_start_def)
  moreover have "run_phases H P acl now now' 4 (ws_table s2) (ws_phase s2 t) = Ret (ws_table s3, Finished (p', out))"
    using uthash_laws.run_from_room [OF assms(1), of "table_of rs" a P acl now now' p rs' p' out] a route assms(7)
    by (simp add: s3_def s2_def s1_def table_of_def)
  then have "?work\<^sup>*\<^sup>* s2 s3"
    using work_phases [of H P acl now now' 4 s2 t] by (simp add: s3_def)
  ultimately have "?work\<^sup>*\<^sup>* ?s0 s3" by (meson rtranclp_trans)
  then show ?thesis
    using assms(5,7) by (intro exI [of _ s3]) (simp add: s3_def s2_def with_room_of_def)
qed

text \<open>Ann, alone in the room, leaves it, while another worker has the stanza with which Bob enters it.\<close>

definition example_leaving :: packet where
  "example_leaving = cx_in (routed example_room (lit ''<presence type=`unavailable` from=`ann@h/home` to=`tea@c/Ann`/>''))"

lemma leaving_example:
  "uh_find uthash_ref (rs_head example_rooms) (room_name example_leaving) = Some 1"
  "case rooms_process uthash_ref reference_platform acl_nobody 0 0 example_rooms example_leaving of
     Ret (rs', p', out) \<Rightarrow> \<not> in_table uthash_ref rs' 1 | Fault _ \<Rightarrow> False"
  "room_name (cx_in example_ctx0) = room_name example_leaving"
  "buffer_size (jid_resource (ip_proxy_to example_leaving)) \<le> 10"
  by code_simp+

theorem freed_room_is_used_witness:
  "\<exists>s. (work False uthash_ref reference_platform)\<^sup>*\<^sup>* (workers_start example_rooms) s \<and> ws_phase s 1 = Inside (cx_in example_ctx0) 1 \<and>
     phase_step uthash_ref reference_platform acl_nobody 0 0 (ws_table s) (ws_phase s 1) = Fault UseAfterFree"
proof -
  obtain rs' p' out where
    r: "rooms_process uthash_ref reference_platform acl_nobody 0 0 example_rooms example_leaving = Ret (rs', p', out)" "\<not> in_table uthash_ref rs' 1"
    using leaving_example(2) by (auto split: run.splits prod.splits)
  have sizes: "\<forall>x \<in> {example_leaving, cx_in example_ctx0}. buffer_size (jid_resource (ip_proxy_to x)) \<le> MAX_JID_PART_SIZE"
    using example_ctx0_ok(3) leaving_example(4) by auto
  show ?thesis
    by (rule freed_room_is_used [where t = 0, OF uthash_ref.uthash_laws_axioms example_rooms_ok leaving_example(1) r leaving_example(3) _ sizes]) simp
qed

end
