(* ===== verification/Worker.thy ===== *)
theory Worker
  imports Rooms Queue Xml_Correct
begin

text \<open>
  A worker (\<^verbatim>\<open>src/worker.c\<close>) and the component itself (\<^verbatim>\<open>src/component.c\<close>): the worker takes a
  block from the queue, parses the stanza in it, hands it to the component when it is addressed to
  the service and to the table of rooms when it is addressed to a room, and gives the block back.
\<close>

subsection \<open>Stanzas to the component\<close>

definition component_error_definitions :: "xmpp_error list" where
  "component_error_definitions =
     [xmpp_error ''501'' ''feature-not-implemented'' ''cancel'' ''This service does not provide the requested feature'']"

abbreviation ERROR_NOT_IMPLEMENTED :: nat where "ERROR_NOT_IMPLEMENTED \<equiv> 0"

text \<open>What a query asks for; the VCARD is asked for whatever the namespace is.\<close>

definition component_iq_type :: "bytes \<Rightarrow> bytes \<Rightarrow> int" where
  "component_iq_type node_name xmlns =
     (if node_name = ''query'' then
        (if xmlns = ''jabber:iq:version'' then BUILD_IQ_VERSION
         else if xmlns = ''jabber:iq:last'' then BUILD_IQ_LAST
         else if xmlns = ''http://jabber.org/protocol/stats'' then BUILD_IQ_STATS
         else if xmlns = ''http://jabber.org/protocol/disco#info'' then BUILD_IQ_DISCO_INFO
         else if xmlns = ''http://jabber.org/protocol/disco#items'' then BUILD_IQ_DISCO_ITEMS
         else BUILD_IQ_EMPTY)
      else if node_name = ''time'' \<and> xmlns = ''urn:xmpp:time'' then BUILD_IQ_TIME
      else if node_name = ''vCard'' then BUILD_IQ_VCARD
      else BUILD_IQ_EMPTY)"

text \<open>The loop over the children: it ends at the first one that has an \<open>xmlns\<close>.\<close>

definition component_query :: "bytes \<Rightarrow> sibling \<Rightarrow> int option \<Rightarrow> (int option \<times> bool) run" where
  "component_query m sib found =
     bind_run (xmlfsm_skipto_attr m (fst (sib_node sib)) ''xmlns'') (\<lambda>(xmlns, d).
       case xmlns of
         None \<Rightarrow> Ret (found, False)
       | Some v \<Rightarrow>
           bind_run (xmlfsm_skip_attrs m d) (\<lambda>_.
             Ret (Some (component_iq_type (slice_of m (sib_name sib)) (slice_of m v)), True)))"

definition component_reply :: "bytes option \<Rightarrow> int \<Rightarrow> builder_packet" where
  "component_reply header t =
     bp_zero\<lparr>bp_name := STANZA_IQ, bp_header := header, bp_iq_type := t,
             bp_type := (if t = BUILD_IQ_EMPTY then STANZA_ERROR else STANZA_IQ_RESULT),
             bp_sys_data := (if t = BUILD_IQ_EMPTY
                             then SysError (component_error_definitions ! ERROR_NOT_IMPLEMENTED) else SysNone)\<rparr>"

definition component_process :: "packet \<Rightarrow> (packet \<times> builder_packet list) run" where
  "component_process p =
     (if ip_name p \<noteq> STANZA_IQ then Ret (p, [])
      else
        bind_run (packet_cleanup p (PACKET_CLEANUP_TO OR PACKET_CLEANUP_SWITCH_FROM_TO)) (\<lambda>p.
          if ip_type p \<noteq> STANZA_IQ_GET then Ret (p, [])
          else
            bind_run (slice_loop (component_query (ip_mem p)) (ip_mem p) (ip_inner p) None) (\<lambda>found.
              case found of
                None \<Rightarrow> Ret (p, [])
              | Some t \<Rightarrow>
                  bind_run (load (ip_mem p) (ip_header p)) (\<lambda>header. Ret (p, [component_reply header t])))))"

subsection \<open>The worker\<close>

definition worker_route ::
  "'h uthash \<Rightarrow> platform \<Rightarrow> acl_config \<Rightarrow> int \<Rightarrow> int \<Rightarrow> 'h rooms \<Rightarrow> packet \<Rightarrow> 'h processed run" where
  "worker_route H P acl now now' rs p =
     (if jid_node (ip_proxy_to p) = None
      then bind_run (component_process p) (\<lambda>(p', out). Ret (rs, p', out))
      else rooms_process H P acl now now' rs p)"

text \<open>One block: what was written over its stanza stays in it.\<close>

definition worker_stanza ::
  "'h uthash \<Rightarrow> platform \<Rightarrow> acl_config \<Rightarrow> int \<Rightarrow> int \<Rightarrow> 'h rooms \<Rightarrow> stanza_entry \<Rightarrow>
   ('h rooms \<times> stanza_entry \<times> builder_packet list) run" where
  "worker_stanza H P acl now now' rs e =
     (case se_buffer e of
        None \<Rightarrow> Ret (rs, e, [])
      | Some m \<Rightarrow>
          if se_data_size e = 0 then Ret (rs, e, [])
          else
            bind_run (packet_parse m (0, nat (se_data_size e))) (\<lambda>(p, ok).
              if ok then
                bind_run (worker_route H P acl now now' rs p) (\<lambda>(rs', p', out).
                  Ret (rs', e\<lparr>se_buffer := Some (ip_mem p')\<rparr>, out))
              else Ret (rs, e, [])))"

text \<open>
  The packets a worker sends, printed into its buffer one after the other: the texts that are
  written into the ring buffer. A packet that does not fit is dropped.
\<close>

primrec worker_print :: "clock \<Rightarrow> bytes option \<Rightarrow> nat \<Rightarrow> builder_packet list \<Rightarrow> bytes list run" where
  "worker_print ck hostname allocated [] = Ret []"
| "worker_print ck hostname allocated (p # ps) =
     bind_run (builder_build ck (p\<lparr>bp_from_host := hostname\<rparr>) \<lparr>bb_data = [], bb_size = allocated\<rparr>) (\<lambda>(b, ok).
     bind_run (worker_print ck hostname allocated ps) (\<lambda>ts. Ret (if ok then bb_data b # ts else ts)))"

lemma worker_send_print:
  "worker_send ck hostname allocated rb p =
     bind_run (worker_print ck hostname allocated [p]) (\<lambda>ts.
       case ts of [] \<Rightarrow> Ret (rb, [], False) | t # _ \<Rightarrow> (case ringbuffer_write rb t of (rb', rest) \<Rightarrow> Ret (rb', rest, True)))"
  by (cases "builder_build ck (p\<lparr>bp_from_host := hostname\<rparr>) \<lparr>bb_data = [], bb_size = allocated\<rparr>")
    (auto simp: worker_send_def split: prod.splits)

record 'h server =
  sv_queue :: stanza_queue
  sv_rooms :: "'h rooms"

record worker_config =
  wc_hostname :: "bytes option"
  wc_builder_buffer_size :: nat

text \<open>
  One turn of the loop of \<open>worker_thread_entry\<close>: the server and the texts that are written. The
  worker waits when there is no data. (It sends while it routes; here the packets are printed
  when the stanza is routed, and the whole turn faults when one of them faults.)
\<close>

definition worker_turn ::
  "'h uthash \<Rightarrow> platform \<Rightarrow> acl_config \<Rightarrow> clock \<Rightarrow> int \<Rightarrow> int \<Rightarrow> worker_config \<Rightarrow> 'h server \<Rightarrow>
   ('h server \<times> bytes list) run" where
  "worker_turn H P acl ck now now' wc sv =
     (case queue_pop_data (sv_queue sv) of
        (q, None) \<Rightarrow> Ret (sv\<lparr>sv_queue := q\<rparr>, [])
      | (q, Some a) \<Rightarrow>
          bind_run (worker_stanza H P acl now now' (sv_rooms sv) (sq_entry q a)) (\<lambda>(rs', e, out).
          bind_run (worker_print ck (wc_hostname wc) (wc_builder_buffer_size wc) out) (\<lambda>ts.
            Ret (\<lparr>sv_queue = queue_push_free (q\<lparr>sq_entry := (sq_entry q)(a := e)\<rparr>) a, sv_rooms = rs'\<rparr>, ts))))"

subsection \<open>What is parsed\<close>

lemma attr_loop_invariant:
  "(\<And>n v s s' leave. body n v s = Ret (s', leave) \<Longrightarrow> Q s \<Longrightarrow> Q s') \<Longrightarrow>
   attr_loop body m d s = Ret (s', st, d') \<Longrightarrow> Q s \<Longrightarrow> Q s'"
proof (induction "length m - d" arbitrary: d s rule: less_induct)
  case less
  obtain st1 d1 where a: "xmlfsm_next_attr m d = Ret (st1, d1)"
    using less.prems(2) by (subst (asm) attr_loop.simps) auto
  show ?case
  proof (cases st1)
    case (XMLPARSE_SUCCESS n v)
    then obtain s1 leave where b: "body n v s = Ret (s1, leave)"
      and r: "(if leave then Ret (s1, st1, d1) else attr_loop body m d1 s1) = Ret (s', st, d')"
      using a less.prems(2) by (subst (asm) attr_loop.simps) auto
    have "Q s1" using less.prems(1) [OF b less.prems(3)] .
    moreover have "length m - d1 < length m - d" using next_attr_progress [of m d n v d1] a XMLPARSE_SUCCESS by (simp add: diff_less_mono2)
    ultimately show ?thesis using less.hyps [of d1 s1] less.prems(1) r by (auto split: if_splits)
  qed (use a less.prems in \<open>subst (asm) attr_loop.simps, simp\<close>)+
qed

text \<open>A stanza that is accepted has addresses whose parts are not too long.\<close>

definition addressed :: "packet \<times> bool \<Rightarrow> bool" where
  "addressed st \<longleftrightarrow> (snd st \<longrightarrow> buffer_size (jid_resource (ip_proxy_to (fst st))) \<le> MAX_JID_PART_SIZE)"

lemma set_type_keeps: "set_type v p = (p', good) \<Longrightarrow> ip_proxy_to p' = ip_proxy_to p"
  by (auto simp: set_type_def split: if_splits)

lemma packet_attr_addressed:
  assumes "packet_attr n v st = Ret (st', leave)" and "addressed st"
  shows "addressed st'"
proof -
  have j: "buffer_size (jid_resource j) \<le> MAX_JID_PART_SIZE" if "jid_struct s = (True, j)" for s j
    using jid_struct_wf [OF that] by (simp add: jid_wf_def)
  obtain p ok where st: "st = (p, ok)" by fastforce
  define p1 where "p1 = p\<lparr>ip_header := map_option (\<lambda>h. (fst h, snd v + 1)) (ip_header p)\<rparr>"
  have p1: "ip_proxy_to p1 = ip_proxy_to p" by (simp add: p1_def)
  obtain p2 good where t: "set_type (Some (slice_of (ip_mem p) v)) p1 = (p2, good)" by fastforce
  obtain g2 j2 where j2: "jid_struct (Some (slice_of (ip_mem p) v)) = (g2, j2)" by fastforce
  show ?thesis
    using assms set_type_keeps [OF t] p1 j [of "Some (slice_of (ip_mem p) v)" j2]
    by (auto simp: st packet_attr_def addressed_def Let_def t j2 p1_def [symmetric] simp del: One_nat_def split: if_splits)
qed

lemma slice_loop_invariant:
  assumes "\<And>sib s s' leave. body sib s = Ret (s', leave) \<Longrightarrow> Q s \<Longrightarrow> Q s'"
    and "slice_loop body m b s = Ret s'" and "Q s"
  shows "Q s'"
proof (cases b)
  case (Some x)
  obtain d e where "x = (d, e)" by fastforce
  then obtain left rest where l: "sibling_loop body m (d, e) s = Ret (s', left, rest)"
    using assms(2) Some by (auto simp: slice_loop_def)
  show ?thesis by (rule sibling_loop_invariant [where P = Q, OF _ l assms(3)]) (rule assms(1))
qed (use assms in \<open>simp add: slice_loop_def\<close>)

lemma presence_inner_addressed:
  assumes "parse_presence_inner p = Ret st" and "addressed (p, True)"
  shows "addressed st"
  apply (rule slice_loop_invariant [where Q = addressed, OF _ assms(1) [unfolded parse_presence_inner_def] assms(2)])
  subgoal for sib s
    by (cases "xmlfsm_skipto_attr (ip_mem (fst s)) (fst (sib_node sib)) ''xmlns''"; cases s)
      (auto simp: addressed_def Let_def split: if_split_asm option.split_asm)
  done

lemma packet_parse_addressed:
  assumes "packet_parse m b = Ret (p, True)"
  shows "buffer_size (jid_resource (ip_proxy_to p)) \<le> MAX_JID_PART_SIZE"
proof -
  obtain sname d where n: "xmlfsm_node_name m b = Ret (sname, d)"
    using assms by (auto simp: packet_parse_def)
  obtain code where c: "stanza_name_code (slice_of m sname) = Some code"
    using assms n by (cases "stanza_name_code (slice_of m sname)") (auto simp: packet_parse_def)
  obtain p1 ok st d' where l: "attr_loop packet_attr m d ((packet_zero m)\<lparr>ip_name := code, ip_header := Some (d, d)\<rparr>, True) =
      Ret ((p1, ok), st, d')"
    using assms n c by (auto simp: packet_parse_def Let_def)
  have ad: "addressed (p1, ok)"
    by (rule attr_loop_invariant [OF packet_attr_addressed l]) (simp_all add: addressed_def packet_zero_def jid_init_def)
  have "ok" using assms n c l by (cases ok) (auto simp: packet_parse_def Let_def)
  then obtain inner where "let p2 = p1\<lparr>ip_inner := inner\<rparr> in
        packet_routable p2 \<and> (if ip_name p2 = STANZA_PRESENCE then parse_presence_inner p2 = Ret (p, True) else p2 = p)"
    using assms n c l by (auto simp: packet_parse_def Let_def split: if_splits)
  then have "addressed (p, True)"
    using ad \<open>ok\<close> by (auto simp: Let_def addressed_def split: if_splits dest!: presence_inner_addressed)
  then show ?thesis by (simp add: addressed_def)
qed

subsection \<open>A turn of a worker\<close>

lemma chain_upd_buffer: "chain (h(a := (h a)\<lparr>se_buffer := b\<rparr>)) x xs = chain h x xs"
  by (induction xs arbitrary: x) auto

lemma queue_rep_buffer:
  "queue_rep q ds fs \<Longrightarrow> queue_rep (q\<lparr>sq_entry := (sq_entry q)(a := (sq_entry q a)\<lparr>se_buffer := b\<rparr>)\<rparr>) ds fs"
  by (simp add: queue_rep_def chain_upd_buffer)

lemma worker_stanza_entry:
  "worker_stanza H P acl now now' rs e = Ret (rs', e', out) \<Longrightarrow> e' = e\<lparr>se_buffer := se_buffer e'\<rparr>"
  by (auto simp: worker_stanza_def split: option.split_asm if_split_asm)

context uthash_laws
begin

lemma worker_stanza_ok:
  assumes ok: "rooms_ok H ok rs" and U: "utlist_laws (pf_utlist P)"
    and run: "worker_stanza H P acl now now' rs e = Ret (rs', e', out)"
  shows "rooms_ok H ok rs'"
proof -
  consider "rs' = rs" | m p b p' where "packet_parse m b = Ret (p, True)" "worker_route H P acl now now' rs p = Ret (rs', p', out)"
    using run by (fastforce simp: worker_stanza_def split: option.split_asm if_split_asm)
  then show ?thesis
  proof cases
    case 2
    then show ?thesis
      using ok rooms_process_ok [OF ok U packet_parse_addressed [OF 2(1)]]
      by (auto simp: worker_route_def split: if_split_asm)
  qed (use ok in simp)
qed

end

lemma worker_turn_keeps:
  assumes "uthash_laws H ok" and "utlist_laws (pf_utlist P)" and "rooms_ok H ok (sv_rooms sv)"
    and "queue_rep (sv_queue sv) ds fs"
    and "worker_turn H P acl ck now now' wc sv = Ret (sv', ts)"
  shows "rooms_ok H ok (sv_rooms sv') \<and>
    (case ds of
       [] \<Rightarrow> queue_rep (sv_queue sv') [] fs \<and> sv_rooms sv' = sv_rooms sv \<and> ts = []
     | d # ds' \<Rightarrow> queue_rep (sv_queue sv') ds' (d # fs) \<and>
         (\<forall>a. a \<noteq> d \<longrightarrow> se_buffer (sq_entry (sv_queue sv') a) = se_buffer (sq_entry (sv_queue sv) a) \<and>
            se_data_size (sq_entry (sv_queue sv') a) = se_data_size (sq_entry (sv_queue sv) a)))"
proof (cases ds)
  case Nil
  obtain q where "queue_pop_data (sv_queue sv) = (q, None)" "queue_rep q [] fs"
    using pop_data_none [of "sv_queue sv" fs] assms(4) Nil by blast
  then show ?thesis using assms(3,5) Nil by (auto simp: worker_turn_def)
next
  case (Cons d ds')
  obtain q where q: "queue_pop_data (sv_queue sv) = (q, Some d)" "queue_rep q ds' fs"
    using pop_data_some [of "sv_queue sv" d ds' fs] assms(4) Cons by blast
  then have entries: "sq_entry q = sq_entry (sv_queue sv)"
    by (auto simp: queue_pop_data_def Let_def split: if_split_asm)
  obtain rs' e out where w: "worker_stanza H P acl now now' (sv_rooms sv) (sq_entry q d) = Ret (rs', e, out)"
    and sv': "sv' = \<lparr>sv_queue = queue_push_free (q\<lparr>sq_entry := (sq_entry q)(d := e)\<rparr>) d, sv_rooms = rs'\<rparr>"
    using assms(5) q(1) by (auto simp: worker_turn_def)
  obtain b where e: "e = (sq_entry q d)\<lparr>se_buffer := b\<rparr>" using worker_stanza_entry [OF w] by blast
  have "d \<notin> set ds' \<union> set fs" "d \<noteq> 0" using assms(4) Cons by (auto simp: queue_rep_def)
  then have "queue_rep (sv_queue sv') ds' (d # fs)"
    unfolding sv' e by (simp add: push_free_rep queue_rep_buffer q(2))
  then show ?thesis
    using Cons uthash_laws.worker_stanza_ok [OF assms(1,3,2) w]
    by (auto simp: sv' queue_push_free_def set_next_def entries Let_def)
qed

text \<open>
  Property C19: a turn of a worker. With no stanza in the queue the worker waits and nothing changes. Otherwise
  it takes the stanza that came first, and if the turn does not fault its block is the first
  of the free blocks afterwards, no other block is lost or changed, and the table of rooms
  stays consistent, whatever the stanza says.
\<close>

theorem worker_turn_effect:
  assumes "uthash_laws H ok" and "utlist_laws (pf_utlist P)" and "rooms_ok H ok (sv_rooms sv)"
    and "queue_rep (sv_queue sv) ds fs"
    and "worker_turn H P acl ck now now' wc sv = Ret (sv', ts)"
  shows "rooms_ok H ok (sv_rooms sv') \<and>
    (case ds of
       [] \<Rightarrow> queue_rep (sv_queue sv') [] fs \<and> sv_rooms sv' = sv_rooms sv \<and> ts = []
     | d # ds' \<Rightarrow> queue_rep (sv_queue sv') ds' (d # fs) \<and>
         (\<forall>a. a \<noteq> d \<longrightarrow> se_buffer (sq_entry (sv_queue sv') a) = se_buffer (sq_entry (sv_queue sv) a) \<and>
            se_data_size (sq_entry (sv_queue sv') a) = se_data_size (sq_entry (sv_queue sv) a)))"
  using assms by (rule worker_turn_keeps)

subsection \<open>The component\<close>

fun xml_attrs :: "xml \<Rightarrow> xattr list" where
  "xml_attrs (Element n as sp cs) = as"
| "xml_attrs (EmptyElement n as sp) = as"
| "xml_attrs (Text t) = []"

definition xml_attr :: "bytes \<Rightarrow> xml \<Rightarrow> bytes option" where
  "xml_attr name x = map_option xa_value (find (\<lambda>a. xa_name a = name) (xml_attrs x))"

lemma print_xml_attrs:
  assumes "xml_ok x" and "\<not> is_text x"
  shows "\<exists>sp emp rest. print_xml x = CHR ''<'' # xml_name x @ (print_attrs (xml_attrs x) @ sp @ (if emp then ''/>'' else ''>'')) @ rest \<and>
    list_all whitespace sp \<and> list_all attr_ok (xml_attrs x)"
proof (cases x)
  case (Element n as sp cs)
  then show ?thesis
    using assms by (intro exI [of _ sp] exI [of _ False] exI [of _ "concat (map print_xml cs) @ close_tag n"]) (simp add: open_tag_def)
next
  case (EmptyElement n as sp)
  then show ?thesis
    using assms by (intro exI [of _ sp] exI [of _ True] exI [of _ "[]"]) (simp add: empty_tag_def)
qed (use assms in simp)

text \<open>The first child with a namespace.\<close>

fun component_request :: "child list \<Rightarrow> int option" where
  "component_request [] = None"
| "component_request (c # cs) =
     (case xml_attr ''xmlns'' (snd c) of
        None \<Rightarrow> component_request cs
      | Some ns \<Rightarrow> Some (component_iq_type (xml_name (snd c)) ns))"

lemma component_query_child:
  assumes c: "child_ok c" and at: "at m d (print_child c)"
  shows "component_query m (child_sibling d e c) s =
    Ret (case xml_attr ''xmlns'' (snd c) of
           None \<Rightarrow> (s, False)
         | Some ns \<Rightarrow> (Some (component_iq_type (xml_name (snd c)) ns), True))"
proof -
  let ?n = "d + length (fst c) + 1 + length (xml_name (snd c))"
  obtain sp emp rest where p: "print_xml (snd c) =
      CHR ''<'' # xml_name (snd c) @ (print_attrs (xml_attrs (snd c)) @ sp @ (if emp then ''/>'' else ''>'')) @ rest"
    and ok: "list_all whitespace sp" "list_all attr_ok (xml_attrs (snd c))"
    using print_xml_attrs [of "snd c"] c by (auto simp: child_ok_def)
  have "at m ?n (print_attrs (xml_attrs (snd c)) @ sp @ (if emp then ''/>'' else ''>''))"
    using at by (auto simp: print_child_def p add.assoc)
  from skipto_attr_tag [OF ok(2,1) this, of "''xmlns''"] obtain r d' where
    r: "xmlfsm_skipto_attr m ?n ''xmlns'' = Ret (r, d')" "map_option (slice_of m) r = xml_attr ''xmlns'' (snd c)"
      "r \<noteq> None \<longrightarrow> \<not> faults (xmlfsm_skip_attrs m d')"
    by (auto simp: xml_attr_def)
  have n: "fst (sib_node (child_sibling d e c)) = ?n" by (simp add: child_sibling_def Let_def)
  show ?thesis
    using r(1,3) child_sibling_name [OF c at] unfolding r(2) [symmetric]
    by (cases r; cases "xmlfsm_skip_attrs m d'") (auto simp: component_query_def n simp del: One_nat_def)
qed

lemma component_query_children:
  assumes "\<forall>c \<in> set cs. child_ok c" and "at m d (print_children cs)"
  shows "\<exists>left rest. loop_children (component_query m) d e cs t None = Ret (component_request cs, left, rest)"
  using assms
  by (induction cs arbitrary: d) (auto simp: component_query_child split: option.split)

text \<open>The contents of a query: children and text.\<close>

definition query_text :: "bytes \<Rightarrow> slice \<Rightarrow> child list \<Rightarrow> bool" where
  "query_text m b cs \<longleftrightarrow>
     (\<exists>t d. (\<forall>c \<in> set cs. child_ok c) \<and> text_ok t \<and> at m d (print_children cs @ t) \<and>
        b = Some (d, d + length (print_children cs @ t)))"

lemma component_query_text:
  assumes "query_text m b cs" and "slice_loop (component_query m) m b None = Ret found"
  shows "found = component_request cs"
proof -
  obtain t d where a: "\<forall>c \<in> set cs. child_ok c" "text_ok t" "at m d (print_children cs @ t)"
    and b: "b = Some (d, d + length (print_children cs @ t))"
    using assms(1) unfolding query_text_def by blast
  let ?e = "d + length (print_children cs @ t)"
  have "sibling_loop (component_query m) m (d, ?e) None = loop_children (component_query m) d ?e cs t None"
    using a by (intro sibling_loop_children [where tail = "[]"]) auto
  then show ?thesis
    using assms(2) b a component_query_children [OF a(1), of m d ?e t] by (auto simp: slice_loop_def)
qed

lemma component_outcome:
  assumes "component_process p = Ret (p', out)"
  shows "length out \<le> 1 \<and>
    (ip_name p \<noteq> STANZA_IQ \<or> ip_type p \<noteq> STANZA_IQ_GET \<longrightarrow> out = []) \<and>
    (\<forall>cs. ip_name p = STANZA_IQ \<and> ip_type p = STANZA_IQ_GET \<and> query_text (ip_mem p') (ip_inner p) cs \<longrightarrow>
       out = (case component_request cs of
                None \<Rightarrow> []
              | Some k \<Rightarrow> [component_reply (map_option (slice_of (ip_mem p')) (ip_header p)) k]))"
proof (cases "ip_name p = STANZA_IQ")
  case False
  then show ?thesis using assms by (simp add: component_process_def)
next
  case True
  then obtain p1 where p1: "packet_cleanup p (PACKET_CLEANUP_TO OR PACKET_CLEANUP_SWITCH_FROM_TO) = Ret p1"
    using assms by (auto simp: component_process_def)
  obtain mm where keep: "p1 = p\<lparr>ip_mem := mm\<rparr>" using cleanup_keeps [OF p1] by blast
  show ?thesis
  proof (cases "ip_type p = STANZA_IQ_GET")
    case False
    then show ?thesis using assms p1 keep True by (simp add: component_process_def)
  next
    case get: True
    obtain found where l: "slice_loop (component_query mm) mm (ip_inner p) None = Ret found"
      and out: "(case found of None \<Rightarrow> Ret (p1, [])
         | Some t \<Rightarrow> bind_run (load mm (ip_header p)) (\<lambda>header. Ret (p1, [component_reply header t]))) = Ret (p', out)"
      using assms p1 keep True get by (auto simp: component_process_def)
    have p': "p' = p1" and o: "out = (case found of None \<Rightarrow> []
        | Some k \<Rightarrow> [component_reply (map_option (slice_of mm) (ip_header p)) k])"
      using out by (auto simp: load_def split: option.splits if_split_asm)
    have mem: "ip_mem p' = mm" by (simp add: p' keep)
    show ?thesis
      unfolding mem o using component_query_text [OF _ l] True get by (auto split: option.split)
  qed
qed


definition example_clock :: clock where
  "example_clock = \<lparr>ck_start = 0, ck_ticks = 0, ck_zone = ''+0000''\<rparr>"

definition parsed :: "bytes \<Rightarrow> packet" where
  "parsed m = (case packet_parse m (0, length m) of Ret (p, _) \<Rightarrow> p | Fault _ \<Rightarrow> packet_zero m)"

definition example_version :: bytes where
  "example_version = lit ''<iq type=`get` from=`bob@h/w` to=`c`><x/><query xmlns=`jabber:iq:version`/></iq>''"

definition example_children :: "bytes \<Rightarrow> child list" where
  "example_children ns =
     [([], EmptyElement ''x'' [] []), ([], EmptyElement ''query'' [XAttr '' '' ''xmlns'' CHR 0x27 ns] [])]"

lemma example_children_ok: "CHR 0x27 \<notin> set ns \<Longrightarrow> \<forall>c \<in> set (example_children ns). child_ok c"
  by (simp add: example_children_def child_ok_def attr_ok_def name_ok_def text_ok_def name_char_def special_def whitespace_def)

lemma version_example:
  "ip_name (parsed example_version) = STANZA_IQ" "ip_type (parsed example_version) = STANZA_IQ_GET"
  "ip_inner (parsed example_version) = Some (37, 37 + length (print_children (example_children ''jabber:iq:version'') @ []))"
  "case component_process (parsed example_version) of
     Ret (p', out) \<Rightarrow> at (ip_mem p') 37 (print_children (example_children ''jabber:iq:version'') @ []) | Fault _ \<Rightarrow> False"
  by code_simp+


text \<open>
  A query for the statistics ends the process: the reply is sent without the statistics, and
  printing it follows a null pointer as soon as the buffer has room for the first line.
\<close>

theorem stats_query_ends_process:
  assumes "component_process p = Ret (p', out)" and "ip_name p = STANZA_IQ" and "ip_type p = STANZA_IQ_GET"
    and "query_text (ip_mem p') (ip_inner p) cs" and "component_request cs = Some BUILD_IQ_STATS"
    and "buffer_size (map_option (slice_of (ip_mem p')) (ip_header p)) + buffer_size hostname + 150 \<le> allocated"
  shows "worker_print ck hostname allocated out = Fault NullDereference"
proof -
  let ?h = "map_option (slice_of (ip_mem p')) (ip_header p)"
  have out: "out = [component_reply ?h BUILD_IQ_STATS]"
    using component_outcome [OF assms(1)] assms(2-5) by auto
  have fits: "length (bb_data b) + length t \<le> bb_size b \<Longrightarrow> buf_push t b = Ret (b\<lparr>bb_data := bb_data b @ t\<rparr>, True)" for b t
    by (simp add: buf_push_def)
  have len: "length (buffer_bytes x) = buffer_size x" for x :: "bytes option"
    by (simp add: buffer_bytes_def buffer_size_def split: option.split)
  have room: "buffer_size ?h + buffer_size hostname + 150 \<le> allocated" by (rule assms(6))
  show ?thesis
    unfolding out using room
    by (simp add: component_reply_def builder_build_def bp_zero_def push_and_def push_ifbpt_def push_if_def push_buf_def
      push_lit_def push_open_tag_def push_from_def fits len lit_def push_nothing_def push_stanza_type_def build_iq_part_def
      push_fault_def jid_init_def jid_empty_def Let_def)
qed

definition example_stats :: bytes where
  "example_stats = lit ''<iq type=`get` from=`bob@h/w` to=`c`><x/><query xmlns=`http://jabber.org/protocol/stats`/></iq>''"

lemma stats_example:
  "ip_name (parsed example_stats) = STANZA_IQ" "ip_type (parsed example_stats) = STANZA_IQ_GET"
  "ip_inner (parsed example_stats) = Some (37, 37 + length (print_children (example_children ''http://jabber.org/protocol/stats'') @ []))"
  "ip_header (parsed example_stats) = Some (3, 36)"
  "case component_process (parsed example_stats) of
     Ret (p', out) \<Rightarrow> at (ip_mem p') 37 (print_children (example_children ''http://jabber.org/protocol/stats'') @ []) | Fault _ \<Rightarrow> False"
  by code_simp+

theorem stats_query_ends_process_witness:
  "\<exists>p' out. component_process (parsed example_stats) = Ret (p', out) \<and>
     worker_print example_clock (Some ''c'') 1000 out = Fault NullDereference"
proof -
  let ?cs = "example_children ''http://jabber.org/protocol/stats''"
  obtain p' out where r: "component_process (parsed example_stats) = Ret (p', out)"
    and t: "at (ip_mem p') 37 (print_children ?cs @ [])"
    using stats_example(5) by (auto split: run.splits prod.splits)
  have q: "query_text (ip_mem p') (ip_inner (parsed example_stats)) ?cs"
    unfolding query_text_def stats_example(3) using t example_children_ok [of "''http://jabber.org/protocol/stats''"]
    by (intro exI [of _ "[]"] exI [of _ 37]) (simp add: text_ok_def)
  have "component_request ?cs = Some BUILD_IQ_STATS"
    by (simp add: example_children_def xml_attr_def component_iq_type_def)
  moreover have "buffer_size (map_option (slice_of (ip_mem p')) (ip_header (parsed example_stats))) \<le> 33"
    by (simp add: stats_example(4) buffer_size_def slice_of_def)
  ultimately have "worker_print example_clock (Some ''c'') 1000 out = Fault NullDereference"
    by (intro stats_query_ends_process [OF r stats_example(1,2) q]) (simp_all add: buffer_size_def [of "Some _"])
  with r show ?thesis by blast
qed

text \<open>A server whose queue has one stanza.\<close>

definition example_server :: "(bytes \<times> addr) list server" where
  "example_server =
     (let q = queue_init queue_zero 2;
          q1 = fst (queue_pop_free q);
          e = (sq_entry q1 2)\<lparr>se_buffer := Some example_presence, se_data_size := int (length example_presence)\<rparr>
      in \<lparr>sv_queue = queue_push_data (q1\<lparr>sq_entry := (sq_entry q1)(2 := e)\<rparr>) 2, sv_rooms = rooms_init uthash_ref\<rparr>)"

lemma server_example:
  "case worker_turn uthash_ref reference_platform acl_nobody example_clock 0 0 \<lparr>wc_hostname = Some ''c'', wc_builder_buffer_size = 1000\<rparr>
     example_server of Ret (sv', ts) \<Rightarrow> length ts = 1 \<and> uh_items uthash_ref (rs_head (sv_rooms sv')) = [1] | Fault _ \<Rightarrow> False"
  by code_simp

lemma server_example_rep: "queue_rep (sv_queue example_server) [2] [1]"
proof -
  have rep: "queue_rep (queue_init queue_zero 2) [] [2, 1]"
    using queue_init_rep [of queue_zero 2] by (simp add: eval_nat_numeral)
  then obtain q where q: "queue_pop_free (queue_init queue_zero 2) = (q, Some 2)" "queue_rep q [] [1]"
    using pop_free_some by blast
  show ?thesis
    using push_data_rep [of "q\<lparr>sq_entry := (sq_entry q)(2 := (sq_entry q 2)\<lparr>se_buffer := Some example_presence, se_data_size := int (length example_presence)\<rparr>)\<rparr>" "[]" "[1]" 2] q
    by (simp add: example_server_def Let_def queue_rep_def)
qed

theorem worker_turn_effect_witness:
  "\<exists>sv' t. worker_turn uthash_ref reference_platform acl_nobody example_clock 0 0 \<lparr>wc_hostname = Some ''c'', wc_builder_buffer_size = 1000\<rparr>
     example_server = Ret (sv', [t]) \<and> queue_rep (sv_queue sv') [] [2, 1] \<and> rooms_ok uthash_ref uthash_ref_ok (sv_rooms sv')"
proof -
  obtain sv' ts where r: "worker_turn uthash_ref reference_platform acl_nobody example_clock 0 0
      \<lparr>wc_hostname = Some ''c'', wc_builder_buffer_size = 1000\<rparr> example_server = Ret (sv', ts)" and "length ts = 1"
    using server_example by (auto split: run.splits prod.splits)
  then obtain t where t: "ts = [t]" by (auto simp: length_Suc_conv)
  have ok: "rooms_ok uthash_ref uthash_ref_ok (sv_rooms example_server)"
    using uthash_ref.rooms_init_ok by (simp add: example_server_def Let_def)
  show ?thesis
    using worker_turn_effect [OF uthash_ref.uthash_laws_axioms platform_laws(1) ok server_example_rep r] r t by auto
qed

end
