(* ===== verification/Reader.thy ===== *)
theory Reader
  imports Packet Queue Xml_Correct
begin

text \<open>
  The reader (\<^verbatim>\<open>xmcomp/src/reader.c\<close>): bytes from the network go into a ring, whole stanzas are
  cut out of it by the scanner, copied into free blocks of the queue and pushed to the workers.
  Pointers into the ring are offsets; \<open>malloc\<close> is a parameter \<open>A\<close> that gives the (undetermined)
  contents of a new block, or nothing when there is no memory.
\<close>

subsection \<open>The ring\<close>

record net_ring =
  nr_mem :: bytes          \<comment> \<open>\<open>network_buffer\<close>; its length is \<open>network_buffer_size\<close>\<close>
  nr_data :: nat           \<comment> \<open>\<open>network_data.data\<close>\<close>
  nr_end :: nat            \<comment> \<open>\<open>network_data.end\<close>\<close>

type_synonym allocator = "nat \<Rightarrow> bytes option"

definition allocates :: "allocator \<Rightarrow> bool" where
  "allocates A \<longleftrightarrow> (\<forall>n bs. A n = Some bs \<longrightarrow> length bs = n)"

text \<open>A negative size is a huge one: there is never memory for it.\<close>

definition malloc_block :: "allocator \<Rightarrow> int \<Rightarrow> bytes option" where
  "malloc_block A n = (if n < 0 then None else A (nat n))"

definition realloc_block :: "allocator \<Rightarrow> bytes \<Rightarrow> int \<Rightarrow> bytes option" where
  "realloc_block A old n = map_option (\<lambda>fresh. take (length fresh) old @ drop (length old) fresh) (malloc_block A n)"

definition ring_size :: "net_ring \<Rightarrow> int" where
  "ring_size r = int (length (nr_mem r))"

definition ring_data_size :: "net_ring \<Rightarrow> int" where
  "ring_data_size r =
     (let d = int (nr_data r); e = int (nr_end r) in if e > d then e - d else ring_size r - (e - d))"

definition realloc_ring_buffer :: "allocator \<Rightarrow> net_ring \<Rightarrow> int \<Rightarrow> net_ring \<times> int" where
  "realloc_ring_buffer A r wanted =
     (let d = nr_data r; e = nr_end r; m = nr_mem r;
          data_size = ring_data_size r;
          new_size = max wanted data_size
      in case malloc_block A new_size of
           None \<Rightarrow> (r, ring_size r)
         | Some fresh \<Rightarrow>
             let old = (if d = e then [] else if d > e then drop d m @ take e m else slice_of m (d, e)) in
             (\<lparr>nr_mem = old @ drop (length old) fresh, nr_data = 0, nr_end = nat data_size\<rparr>, new_size))"

text \<open>The block that is filled next: where it starts and how long it is.\<close>

definition get_continuous_block :: "net_ring \<Rightarrow> net_ring \<times> nat \<times> nat" where
  "get_continuous_block r =
     (let d = nr_data r; e = nr_end r; n = length (nr_mem r) in
      if e = d then (r\<lparr>nr_data := 0, nr_end := 0\<rparr>, 0, n)
      else if e = n then (r, 0, d)
      else if e > d then (r, e, n - e)
      else (r, e, d - e))"

text \<open>What \<open>net_recv\<close> stored is part of the data.\<close>

definition ring_received :: "net_ring \<Rightarrow> nat \<Rightarrow> bytes \<Rightarrow> net_ring run" where
  "ring_received r block bs =
     bind_run (mem_write block bs (nr_mem r)) (\<lambda>m. Ret (r\<lparr>nr_mem := m, nr_end := block + length bs\<rparr>))"

subsection \<open>One stanza\<close>

text \<open>The size of the stanza from \<open>start\<close> to the position of the scanner.\<close>

definition stanza_size :: "net_ring \<Rightarrow> nat \<Rightarrow> int" where
  "stanza_size r start =
     (let n = int (nr_data r) - int start in if n < 0 then ring_size r - n else n)"

text \<open>A block that is not of the wanted size is allocated, or allocated again.\<close>

definition stanza_block :: "allocator \<Rightarrow> int \<Rightarrow> stanza_entry \<Rightarrow> queue_stats \<Rightarrow> stanza_entry \<times> queue_stats" where
  "stanza_block A desired e stats =
     (if se_buffer_size e = desired then (e, stats)
      else
        let (block, stats') =
          (case se_buffer e of
             Some old \<Rightarrow>
               (realloc_block A old desired,
                if se_buffer_size e > desired then stats\<lparr>qs_realloc_enlarges := qs_realloc_enlarges stats + 1\<rparr>
                else stats\<lparr>qs_realloc_shortens := qs_realloc_shortens stats + 1\<rparr>)
           | None \<Rightarrow> (malloc_block A desired, stats\<lparr>qs_mallocs := qs_mallocs stats + 1\<rparr>))
        in (e\<lparr>se_buffer := block, se_buffer_size := (if block = None then 0 else desired)\<rparr>, stats'))"

definition stanza_copy :: "net_ring \<Rightarrow> nat \<Rightarrow> int \<Rightarrow> stanza_entry \<Rightarrow> stanza_entry run" where
  "stanza_copy r start n e =
     (if se_buffer_size e < n then Ret (e\<lparr>se_data_size := 0\<rparr>)
      else
        let text = (if nr_data r > start then slice_of (nr_mem r) (start, start + nat n)
                    else drop start (nr_mem r) @ take (nr_data r) (nr_mem r))
        in case se_buffer e of
             None \<Rightarrow> Fault NullDereference
           | Some b \<Rightarrow> bind_run (mem_write 0 text b) (\<lambda>b'. Ret (e\<lparr>se_buffer := Some b', se_data_size := n\<rparr>)))"

definition reader_store :: "allocator \<Rightarrow> net_ring \<Rightarrow> nat \<Rightarrow> addr \<Rightarrow> stanza_queue \<Rightarrow> stanza_queue run" where
  "reader_store A r start a q =
     (let n = stanza_size r start;
          fixed = sq_fixed_block_buffer_size q;
          desired = (if fixed = 0 then n else fixed);
          (e, stats) = stanza_block A desired (sq_entry q a) (sq_stats q)
      in bind_run (stanza_copy r start n e) (\<lambda>e'.
           Ret (queue_push_data (q\<lparr>sq_entry := (sq_entry q)(a := e'), sq_stats := stats\<rparr>) a)))"

record reader =
  rd_ring :: net_ring
  rd_queue :: stanza_queue

text \<open>
  The steps of \<open>reader_thread_entry\<close>. The inner loop: the next stanza, if one is complete and a
  block is free (\<open>queue_pop_free\<close> waits for one; the stanza is then scanned again, in a ring nobody else changes).
\<close>

definition reader_scan :: "net_ring \<Rightarrow> nat option run" where
  "reader_scan r = xmlfsm_skip_node (nr_mem r) (nr_data r, nr_end r) (Some (0, length (nr_mem r)))"

definition reader_stanza :: "allocator \<Rightarrow> reader \<Rightarrow> (reader \<times> bool) run" where
  "reader_stanza A st =
     bind_run (reader_scan (rd_ring st)) (\<lambda>found.
       case found of
         None \<Rightarrow> Ret (st, False)
       | Some d \<Rightarrow>
           (case queue_pop_free (rd_queue st) of
              (q, None) \<Rightarrow> Ret (st\<lparr>rd_queue := q\<rparr>, False)
            | (q, Some a) \<Rightarrow>
                let start = nr_data (rd_ring st); r = (rd_ring st)\<lparr>nr_data := d\<rparr> in
                bind_run (reader_store A r start a q) (\<lambda>q'. Ret (\<lparr>rd_ring = r, rd_queue = q'\<rparr>, True))))"

text \<open>The end of the outer loop: room is made, or bytes are received; \<open>None\<close> when the reader gives up.\<close>

definition reader_receive :: "bytes option \<Rightarrow> reader \<Rightarrow> reader option run" where
  "reader_receive received st =
     (case get_continuous_block (rd_ring st) of
        (r, block, n) \<Rightarrow>
          if n = 0 then
            (if sq_network_buffer_size (rd_queue st) < 2 ^ 20
             then Ret (Some \<lparr>rd_ring = r, rd_queue = (rd_queue st)\<lparr>sq_network_buffer_size := 2 ^ 20\<rparr>\<rparr>)
             else Ret None)
          else
            (case received of
               None \<Rightarrow> Ret None
             | Some bs \<Rightarrow>
                 bind_run (ring_received r block (take n bs)) (\<lambda>r'. Ret (Some (st\<lparr>rd_ring := r'\<rparr>)))))"

text \<open>Its beginning: the ring is allocated again when its size was changed.\<close>

definition reader_resize :: "allocator \<Rightarrow> reader \<Rightarrow> reader" where
  "reader_resize A st =
     (if sq_network_buffer_size (rd_queue st) \<noteq> ring_size (rd_ring st)
      then st\<lparr>rd_ring := fst (realloc_ring_buffer A (rd_ring st) (sq_network_buffer_size (rd_queue st)))\<rparr>
      else st)"

definition reader_init :: "allocator \<Rightarrow> stanza_queue \<Rightarrow> reader option" where
  "reader_init A q =
     map_option (\<lambda>m. \<lparr>rd_ring = \<lparr>nr_mem = m, nr_data = 0, nr_end = 0\<rparr>, rd_queue = q\<rparr>)
       (malloc_block A (sq_network_buffer_size q))"

subsection \<open>The scanner in the ring\<close>

text \<open>
  Positions that differ by a constant: what the scanner does depends on the bytes it reads and on
  whether a slash is right before the sign that ends a tag.
\<close>

definition shifted :: "nat \<Rightarrow> nat \<Rightarrow> nat \<Rightarrow> scan \<Rightarrow> scan \<Rightarrow> bool" where
  "shifted e d d' s s' \<longleftrightarrow>
     nesting_level s' = nesting_level s \<and> tag s' = tag s \<and> quote_char s' = quote_char s \<and>
     (case (tag_closing_pos s, tag_closing_pos s') of
        (None, None) \<Rightarrow> True
      | (Some p, Some p') \<Rightarrow> (p < d \<or> e \<le> p) \<and> p' < d' \<and> (p + 1 = d \<longleftrightarrow> p' + 1 = d')
      | _ \<Rightarrow> False)"

lemma shifted_char:
  assumes "shifted e d d' s s'" and "d < e"
  shows "(scan_char d c s = None \<longleftrightarrow> scan_char d' c s' = None) \<and>
    (\<forall>t t'. scan_char d c s = Some t \<longrightarrow> scan_char d' c s' = Some t' \<longrightarrow> shifted e (Suc d) (Suc d') t t')"
  by (cases "tag_closing_pos s"; cases "tag_closing_pos s'")
    (use assms in \<open>auto simp: shifted_def scan_char_def Let_def\<close>)

lemma shifted_skip:
  "shifted e d d' s s' \<Longrightarrow> d + j \<le> e \<Longrightarrow> shifted e (d + j) (d' + j) (s\<lparr>quote_char := q\<rparr>) (s'\<lparr>quote_char := q\<rparr>)"
  by (auto simp: shifted_def split: option.splits)

lemma memchr_shift:
  assumes "\<And>i. d \<le> i \<Longrightarrow> i < d + n \<Longrightarrow> i < length m \<and> i + N < length m' \<and> m' ! (i + N) = m ! i"
  shows "memchr m' (d + N) n c = bind_run (memchr m d n c) (\<lambda>found. Ret (map_option (\<lambda>p. p + N) found))"
  using assms
proof (induction n arbitrary: d)
  case (Suc n)
  have "memchr m' (Suc d + N) n c = bind_run (memchr m (Suc d) n c) (\<lambda>found. Ret (map_option (\<lambda>p. p + N) found))"
    using Suc.prems by (intro Suc.IH) auto
  then show ?case using Suc.prems [of d] by auto
qed simp

lemma memchr_within: "memchr m i n c = Ret (Some j) \<Longrightarrow> j < i + n"
  by (induction m i n c rule: memchr.induct) (auto split: if_splits)

lemma memchr_add:
  "memchr m i (a + b) c =
     bind_run (memchr m i a c) (\<lambda>found. case found of Some p \<Rightarrow> Ret (Some p) | None \<Rightarrow> memchr m (i + a) b c)"
  by (induction a arbitrary: i) auto

text \<open>A straight scan is the same wherever the text lies.\<close>

lemma skip_loop_shift:
  assumes "\<And>i. d \<le> i \<Longrightarrow> i < e \<Longrightarrow> i < length m \<and> i + N < length m' \<and> m' ! (i + N) = m ! i"
    and "shifted e d (d + N) s s'" and "d \<le> e"
  shows "skip_loop m' None (e + N) (e + N) (d + N) s' =
    bind_run (skip_loop m None e e d s) (\<lambda>found. Ret (map_option (\<lambda>p. p + N) found))"
  using assms
proof (induction "e - d" arbitrary: d s s' rule: less_induct)
  case less
  have q: "quote_char s' = quote_char s" using less.prems(2) by (simp add: shifted_def)
  show ?case
  proof (cases "d = e")
    case True
    then show ?thesis by (simp add: skip_loop_straight)
  next
    case False
    then have d: "d < e" using less.prems(3) by simp
    show ?thesis
    proof (cases "quote_char s")
      case None
      obtain c where c: "rd m d = Ret c" "rd m' (d + N) = Ret c"
        using less.prems(1) [of d] d by (simp add: rd_def)
      note sc = shifted_char [OF less.prems(2) d, of c]
      show ?thesis
      proof (cases "scan_char d c s")
        case None
        then show ?thesis using sc c q \<open>quote_char s = None\<close> d
          by (simp add: skip_loop_straight [of _ _ "d + N"] skip_loop_straight [of _ _ d])
      next
        case (Some t)
        then obtain t' where t': "scan_char (d + N) c s' = Some t'" using sc by (cases "scan_char (d + N) c s'") auto
        have "skip_loop m' None (e + N) (e + N) (Suc d + N) t' =
            bind_run (skip_loop m None e e (Suc d) t) (\<lambda>found. Ret (map_option (\<lambda>p. p + N) found))"
          using less.prems d sc Some t' by (intro less.hyps) auto
        then show ?thesis using c q \<open>quote_char s = None\<close> d Some t'
          by (simp add: skip_loop_straight [of _ _ "d + N"] skip_loop_straight [of _ _ d])
      qed
    next
      case (Some c)
      have sz: "size_t_diff m d e = e - d" "size_t_diff m' (d + N) (e + N) = e - d" using d by (simp_all add: size_t_diff_def)
      have mem: "memchr m' (d + N) (e - d) c = bind_run (memchr m d (e - d) c) (\<lambda>found. Ret (map_option (\<lambda>p. p + N) found))"
        using less.prems(1) by (intro memchr_shift) auto
      show ?thesis
      proof (cases "memchr m d (e - d) c")
        case (Fault f)
        then show ?thesis using mem sz q Some d
          by (simp add: skip_loop_straight [of _ _ "d + N"] skip_loop_straight [of _ _ d])
      next
        case (Ret found)
        show ?thesis
        proof (cases found)
          case None
          then show ?thesis using Ret mem sz q Some d
            by (simp add: skip_loop_straight [of _ _ "d + N"] skip_loop_straight [of _ _ d])
        next
          case (Some p)
          have p: "d \<le> p" "p < e" using memchr_Some [of m d "e - d" c p] memchr_within [of m d "e - d" c p] Ret Some d by auto
          have "shifted e (d + (Suc p - d)) (d + N + (Suc p - d)) (s\<lparr>quote_char := None\<rparr>) (s'\<lparr>quote_char := None\<rparr>)"
            using less.prems(2) p by (intro shifted_skip) auto
          moreover have "d + (Suc p - d) = Suc p" "d + N + (Suc p - d) = Suc p + N" using p by simp_all
          ultimately have "skip_loop m' None (e + N) (e + N) (Suc p + N) (s'\<lparr>quote_char := None\<rparr>) =
              bind_run (skip_loop m None e e (Suc p) (s\<lparr>quote_char := None\<rparr>)) (\<lambda>found. Ret (map_option (\<lambda>p. p + N) found))"
            using less.prems(1) p by (intro less.hyps) simp_all
          then show ?thesis using Ret Some mem sz q \<open>quote_char s = Some c\<close> d
            by (simp add: skip_loop_straight [of _ _ "d + N"] skip_loop_straight [of _ _ d])
        qed
      qed
    qed
  qed
qed

text \<open>Once the end of the data is in reach, the scanner does not look at the ring again.\<close>

lemma skip_loop_straight_real:
  "skip_loop m real e e d s =
     (if d = e then Ret None
      else case quote_char s of
             Some q \<Rightarrow>
               bind_run (memchr m d (size_t_diff m d e) q) (\<lambda>found.
                 case found of
                   Some p \<Rightarrow> skip_loop m real e e (Suc p) (s\<lparr>quote_char := None\<rparr>)
                 | None \<Rightarrow> Ret None)
           | None \<Rightarrow>
               bind_run (rd m d) (\<lambda>c.
                 case scan_char d c s of
                   None \<Rightarrow> Ret (Some (Suc d))
                 | Some s' \<Rightarrow> skip_loop m real e e (Suc d) s'))"
proof -
  have "skip_loop m real e e e s = Ret None" for s by (subst skip_loop.simps) simp
  then show ?thesis by (subst skip_loop.simps) (simp add: Let_def split: option.split)
qed

lemma skip_loop_real: "skip_loop m real e e d s = skip_loop m None e e d s"
proof (induction "length m - d" arbitrary: d s rule: less_induct)
  case less
  have f: "skip_loop m real e e (Suc p) t = skip_loop m None e e (Suc p) t" if "d \<le> p" "p < length m" for p t
    using that by (intro less) simp
  have "rd m d = Ret c \<Longrightarrow> d < length m" for c by (simp add: rd_def split: if_split_asm)
  then show ?case
    unfolding skip_loop_straight_real [of m real e d s] skip_loop_straight [of m e d s]
    using f memchr_Some [of m d]
    by (auto intro!: bind_run_cong split: option.split)
qed

text \<open>The scanner at the end of the ring goes on at its start.\<close>

lemma skip_loop_wrap:
  assumes "e \<noteq> 0" and "e \<noteq> n"
  shows "skip_loop m (Some (0, n)) e n n s = skip_loop m None e e 0 s"
proof -
  have l: "skip_loop m (Some (0, n)) e n n s = skip_loop m (Some (0, n)) e e 0 s"
    using assms by (simp only: skip_loop.simps [of m "Some (0, n)" e n n s] skip_loop.simps [of m "Some (0, n)" e e 0 s]
      Let_def option.sel fst_conv simp_thms if_True if_False if_cancel eq_commute [of 0 e] eq_commute [of n e])
  show ?thesis unfolding l by (rule skip_loop_real)
qed

lemma skip_loop_before:
  assumes "d \<noteq> n" and "e \<noteq> n"
  shows "skip_loop m real e n d s =
     (case quote_char s of
        Some q \<Rightarrow>
          bind_run (memchr m d (size_t_diff m d n) q) (\<lambda>found.
            case found of
              Some p \<Rightarrow> skip_loop m real e n (Suc p) (s\<lparr>quote_char := None\<rparr>)
            | None \<Rightarrow> skip_loop m real e n n s)
      | None \<Rightarrow>
          bind_run (rd m d) (\<lambda>c.
            case scan_char d c s of
              None \<Rightarrow> Ret (Some (Suc d))
            | Some s' \<Rightarrow> skip_loop m real e n (Suc d) s'))"
  using assms by (subst skip_loop.simps) (simp add: Let_def split: option.split)

text \<open>
  The data in order, where the data wraps: \<open>a\<close> is its start and \<open>e\<close> its end. Positions in
  it are mapped back into the ring.
\<close>

definition ring_text :: "net_ring \<Rightarrow> bytes" where
  "ring_text r =
     (if nr_data r > nr_end r then drop (nr_data r) (nr_mem r) @ take (nr_end r) (nr_mem r)
      else slice_of (nr_mem r) (nr_data r, nr_end r))"

definition ring_pos :: "net_ring \<Rightarrow> nat \<Rightarrow> nat" where
  "ring_pos r x =
     (if nr_data r + x \<le> length (nr_mem r) then nr_data r + x else nr_data r + x - length (nr_mem r))"

text \<open>Before the end of the ring: the slash that may close a tag is never the last byte of the ring.\<close>

definition before_wrap :: "nat \<Rightarrow> nat \<Rightarrow> nat \<Rightarrow> scan \<Rightarrow> scan \<Rightarrow> bool" where
  "before_wrap n a d s s' \<longleftrightarrow>
     shifted n d (d - a) s s' \<and> (\<forall>p. tag_closing_pos s = Some p \<longrightarrow> a \<le> p \<and> p + 1 < n)"

lemma before_wrap_char:
  assumes "before_wrap n a d s s'" and "a \<le> d" and "d < n" and "d + 1 = n \<Longrightarrow> c \<noteq> CHR ''/''"
    and "scan_char d c s = Some t"
  obtains t' where "scan_char (d - a) c s' = Some t'" "before_wrap n a (Suc d) t t'"
proof -
  have sh: "shifted n d (d - a) s s'" using assms(1) by (simp add: before_wrap_def)
  from shifted_char [OF sh assms(3), of c] assms(5) obtain t' where t': "scan_char (d - a) c s' = Some t'"
    "shifted n (Suc d) (Suc (d - a)) t t'" by (cases "scan_char (d - a) c s'") auto
  moreover have "a \<le> p \<and> p + 1 < n" if "tag_closing_pos t = Some p" for p
  proof (cases "c = CHR ''/'' \<and> p = d")
    case True
    then show ?thesis using assms(2-4) by (cases "Suc d = n") auto
  next
    case False
    then show ?thesis
      using that assms(1,5) by (auto simp: before_wrap_def scan_char_def Let_def split: if_splits option.splits)
  qed
  ultimately show ?thesis using that assms(2) by (auto simp: before_wrap_def Suc_diff_le)
qed

lemma before_wrap_quote:
  assumes "before_wrap n a d s s'" and "d \<le> p" and "p < n" and "a \<le> d"
  shows "before_wrap n a (Suc p) (s\<lparr>quote_char := None\<rparr>) (s'\<lparr>quote_char := None\<rparr>)"
proof -
  have "shifted n (d + (Suc p - d)) (d - a + (Suc p - d)) (s\<lparr>quote_char := None\<rparr>) (s'\<lparr>quote_char := None\<rparr>)"
    using assms by (intro shifted_skip) (auto simp: before_wrap_def)
  moreover have "d + (Suc p - d) = Suc p" "d - a + (Suc p - d) = Suc p - a" using assms by simp_all
  ultimately show ?thesis using assms(1) by (simp add: before_wrap_def)
qed

lemma before_wrap_end:
  assumes "before_wrap n a n s s'" and "e \<le> a"
  shows "shifted e 0 (0 + (n - a)) s s'"
  using assms by (auto simp: before_wrap_def shifted_def split: option.splits)

lemma scan_ring_phase:
  assumes r: "e \<noteq> 0" "e < a" "a \<le> d" "d \<le> length m" and last: "m ! (length m - 1) \<noteq> CHR ''/''"
    and rel: "before_wrap (length m) a d s s'" and l: "l = length m - a + e"
  shows "skip_loop m (Some (0, length m)) e (length m) d s =
    bind_run (skip_loop (drop a m @ take e m) None l l (d - a) s')
      (\<lambda>found. Ret (map_option (\<lambda>x. if a + x \<le> length m then a + x else a + x - length m) found))"
    (is "_ = bind_run _ (\<lambda>found. Ret (map_option ?pos found))")
  using r(3,4) rel
proof (induction "length m - d" arbitrary: d s s' rule: less_induct)
  case less
  let ?n = "length m" and ?L = "drop a m @ take e m"
  let ?scan = "\<lambda>d s. skip_loop ?L None l l d s"
  have q: "quote_char s' = quote_char s" using less.prems(3) by (simp add: before_wrap_def shifted_def)
  have en: "e \<noteq> ?n" "e < ?n" using r(2) less.prems(1,2) by simp_all
  have wrap: "skip_loop m (Some (0, ?n)) e ?n ?n t = bind_run (?scan (?n - a) t') (\<lambda>found. Ret (map_option ?pos found))"
    if "before_wrap ?n a ?n t t'" for t t'
  proof -
    have "skip_loop ?L None (e + (?n - a)) (e + (?n - a)) (0 + (?n - a)) t' =
        bind_run (skip_loop m None e e 0 t) (\<lambda>found. Ret (map_option (\<lambda>p. p + (?n - a)) found))"
      using en r(2) less.prems(1,2) before_wrap_end [OF that] by (intro skip_loop_shift) (auto simp: nth_append)
    moreover have "e + (?n - a) = l" by (simp add: l)
    moreover have "skip_loop m None e e 0 t = Ret (Some x) \<Longrightarrow> 0 < x" for x
      using skip_loop_progress [of m None e e 0 t x] by simp
    moreover have "?pos (x + (?n - a)) = x" if "0 < x" for x using that r(2) less.prems(1,2) by auto
    ultimately show ?thesis
      unfolding skip_loop_wrap [OF r(1) en(1)]
      by (cases "skip_loop m None e e 0 t") (auto simp: add.commute [of e] option.map_comp o_def intro: option.map_ident_strong [symmetric])
  qed
  show ?case
  proof (cases "d = ?n")
    case True
    then show ?thesis using wrap less.prems(3) by simp
  next
    case False
    then have d: "d < ?n" using less.prems(2) by simp
    have dl: "d - a \<noteq> l" using d less.prems(1) r(1) l by simp
    note ring = skip_loop_before [OF False en(1), of m "Some (0, ?n)" s]
    note line = skip_loop_straight [of ?L l "d - a" s', unfolded if_not_P [OF dl]]
    show ?thesis
    proof (cases "quote_char s")
      case None
      have c: "rd m d = Ret (m ! d)" "rd ?L (d - a) = Ret (m ! d)"
        using d less.prems(1) by (auto simp: rd_def nth_append)
      have lastc: "d + 1 = ?n \<Longrightarrow> m ! d \<noteq> CHR ''/''" using last by (metis add_diff_cancel_right')
      have sh: "shifted ?n d (d - a) s s'" using less.prems(3) by (simp add: before_wrap_def)
      show ?thesis
      proof (cases "scan_char d (m ! d) s")
        case None
        then show ?thesis
          using shifted_char [OF sh d, of "m ! d"] c q \<open>quote_char s = None\<close> d less.prems(1)
          by (simp add: ring line Suc_diff_le)
      next
        case (Some t)
        from before_wrap_char [OF less.prems(3,1) d lastc Some] obtain t' where
          t': "scan_char (d - a) (m ! d) s' = Some t'" "before_wrap ?n a (Suc d) t t'" by blast
        have "skip_loop m (Some (0, ?n)) e ?n (Suc d) t = bind_run (?scan (Suc d - a) t') (\<lambda>found. Ret (map_option ?pos found))"
          using less.prems(1) d t'(2) by (intro less.hyps) auto
        then show ?thesis
          using c q \<open>quote_char s = None\<close> Some t'(1) less.prems(1) by (simp add: ring line Suc_diff_le)
      qed
    next
      case (Some c)
      have sz: "size_t_diff m d ?n = ?n - d" "size_t_diff ?L (d - a) l = (?n - d) + e"
        using d less.prems(1) l by (simp_all add: size_t_diff_def)
      have "memchr m (d - a + a) (?n - d) c = bind_run (memchr ?L (d - a) (?n - d) c) (\<lambda>found. Ret (map_option (\<lambda>p. p + a) found))"
        using d less.prems(1) by (intro memchr_shift) (auto simp: nth_append less_diff_conv add.commute)
      then have mem: "memchr m d (?n - d) c = bind_run (memchr ?L (d - a) (?n - d) c) (\<lambda>found. Ret (map_option (\<lambda>p. p + a) found))"
        using less.prems(1) by simp
      have more: "memchr ?L (d - a) (?n - d + e) c = bind_run (memchr ?L (d - a) (?n - d) c) (\<lambda>found.
          case found of Some p \<Rightarrow> Ret (Some p) | None \<Rightarrow> memchr ?L (?n - a) e c)"
      proof -
        have "d - a + (?n - d) = ?n - a" using d less.prems(1) by simp
        then show ?thesis using memchr_add [of ?L "d - a" "?n - d" e c] by (simp only:)
      qed
      show ?thesis
      proof (cases "memchr ?L (d - a) (?n - d) c")
        case (Fault f)
        then show ?thesis using mem more sz q Some by (simp add: ring line)
      next
        case (Ret found)
        show ?thesis
        proof (cases found)
          case None
          have "shifted ?n (d + (?n - d)) (d - a + (?n - d)) (s\<lparr>quote_char := Some c\<rparr>) (s'\<lparr>quote_char := Some c\<rparr>)"
            using less.prems(3) d by (intro shifted_skip) (auto simp: before_wrap_def)
          moreover have "s\<lparr>quote_char := Some c\<rparr> = s" "s'\<lparr>quote_char := Some c\<rparr> = s'" using q Some by simp_all
          ultimately have "before_wrap ?n a ?n s s'" using less.prems(1,3) d by (simp add: before_wrap_def)
          note w = wrap [OF this]
          have nl: "?n - a \<noteq> l" "size_t_diff ?L (?n - a) l = e" using r(1) l by (simp_all add: size_t_diff_def)
          have "?scan (d - a) s' = ?scan (?n - a) s'"
            using None Ret more sz q Some nl by (simp add: line skip_loop_straight [of ?L l "?n - a" s'])
          then show ?thesis using w None Ret mem sz Some by (simp add: ring)
        next
          case (Some p)
          have p: "d \<le> p + a" "p + a < ?n"
            using memchr_Some [of ?L "d - a" "?n - d" c p] memchr_within [of ?L "d - a" "?n - d" c p] Ret Some d less.prems(1)
            by auto
          then have "skip_loop m (Some (0, ?n)) e ?n (Suc (p + a)) (s\<lparr>quote_char := None\<rparr>) =
              bind_run (?scan (Suc (p + a) - a) (s'\<lparr>quote_char := None\<rparr>)) (\<lambda>found. Ret (map_option ?pos found))"
            using less.prems(1) before_wrap_quote [OF less.prems(3) p less.prems(1)] by (intro less.hyps) auto
          then show ?thesis using Ret Some mem more sz q \<open>quote_char s = Some c\<close> by (simp add: ring line)
        qed
      qed
    qed
  qed
qed

lemma ring_scan_linear:
  assumes "nr_data r \<le> length (nr_mem r)" and "nr_end r \<le> length (nr_mem r)"
    and "nr_end r < nr_data r \<longrightarrow> nr_end r \<noteq> 0 \<and> nr_mem r ! (length (nr_mem r) - 1) \<noteq> CHR ''/''"
  shows "reader_scan r =
    bind_run (xmlfsm_skip_node (ring_text r) (0, length (ring_text r)) None) (\<lambda>found. Ret (map_option (ring_pos r) found))"
proof -
  let ?m = "nr_mem r" and ?d = "nr_data r" and ?e = "nr_end r"
  have init: "shifted k a b scan_init scan_init" for k a b by (simp add: shifted_def scan_init_def)
  show ?thesis
  proof (cases "?e < ?d")
    case True
    then have t: "ring_text r = drop ?d ?m @ take ?e ?m" "length (ring_text r) = length ?m - ?d + ?e"
      using assms(2) by (simp_all add: ring_text_def)
    have "skip_loop ?m (Some (0, length ?m)) ?e (length ?m) ?d scan_init =
        bind_run (skip_loop (ring_text r) None (length (ring_text r)) (length (ring_text r)) (?d - ?d) scan_init)
          (\<lambda>found. Ret (map_option (ring_pos r) found))"
      unfolding ring_pos_def t(1)
      by (rule scan_ring_phase) (use True assms init in \<open>auto simp: before_wrap_def scan_init_def\<close>)
    then show ?thesis using True by (simp add: reader_scan_def xmlfsm_skip_node_def)
  next
    case False
    then have t: "ring_text r = slice_of ?m (?d, ?e)" "length (ring_text r) = ?e - ?d" and e: "?e - ?d + ?d = ?e"
      using assms(2) by (simp_all add: ring_text_def slice_of_def)
    let ?scan = "skip_loop (ring_text r) None (?e - ?d) (?e - ?d) 0 scan_init"
    have "skip_loop ?m None (?e - ?d + ?d) (?e - ?d + ?d) (0 + ?d) scan_init =
        bind_run ?scan (\<lambda>found. Ret (map_option (\<lambda>p. p + ?d) found))"
      using False assms(2) init by (intro skip_loop_shift) (auto simp: t slice_of_def add.commute)
    then have l: "skip_loop ?m (Some (0, length ?m)) ?e ?e ?d scan_init = bind_run ?scan (\<lambda>found. Ret (map_option (\<lambda>p. p + ?d) found))"
      using skip_loop_real [of ?m "Some (0, length ?m)" ?e ?d scan_init] by (simp add: e)
    have "map_option (\<lambda>p. p + ?d) found = map_option (ring_pos r) found" if "?scan = Ret found" for found
    proof (cases found)
      case (Some x)
      then have "x \<le> ?e - ?d" using skip_loop_progress that t(2) by fastforce
      then show ?thesis using Some False assms(2) by (simp add: ring_pos_def add.commute)
    qed simp
    then have "skip_loop ?m (Some (0, length ?m)) ?e ?e ?d scan_init = bind_run ?scan (\<lambda>found. Ret (map_option (ring_pos r) found))"
      unfolding l by (intro bind_run_cong) auto
    then show ?thesis using False by (simp add: reader_scan_def xmlfsm_skip_node_def t(2))
  qed
qed

text \<open>
  Property C20: where the received bytes go around the end of the ring, the scanner finds the end of a stanza exactly where
  it finds it in the same bytes laid out in a row, unless the last byte of the ring is a slash;
  where they do not, the ring makes no difference.
\<close>

theorem ring_scan_is_linear:
  assumes "nr_data r \<le> length (nr_mem r)" and "nr_end r \<le> length (nr_mem r)"
    and "nr_end r < nr_data r \<longrightarrow> nr_end r \<noteq> 0 \<and> nr_mem r ! (length (nr_mem r) - 1) \<noteq> CHR ''/''"
  shows "reader_scan r =
    bind_run (xmlfsm_skip_node (ring_text r) (0, length (ring_text r)) None) (\<lambda>found. Ret (map_option (ring_pos r) found))"
  using assms by (rule ring_scan_linear)

subsection \<open>Receiving\<close>

definition ring_ok :: "net_ring \<Rightarrow> bool" where
  "ring_ok r \<longleftrightarrow> nr_data r \<le> length (nr_mem r) \<and> nr_end r \<le> length (nr_mem r)"

lemma mem_write_Ret:
  "a + length bs \<le> length m \<Longrightarrow> mem_write a bs m = Ret (take a m @ bs @ drop (a + length bs) m)"
  by (simp add: mem_write_def)

text \<open>
  The block that is filled from the network lies in the ring, outside the data that was not read yet, and what
  is received there becomes the end of the data; except when it fills the ring up to the start of
  the data, because then the ring is taken for an empty one, and everything in it is lost.
\<close>

theorem received_bytes_are_appended:
  assumes "ring_ok r" and "get_continuous_block r = (r1, block, n)" and "length bs \<le> n"
    and "ring_received r1 block bs = x"
  shows "\<exists>r'. x = Ret r' \<and> ring_ok r' \<and> length (nr_mem r') = length (nr_mem r) \<and> block + n \<le> length (nr_mem r) \<and>
    ring_text r' = (if nr_end r' = nr_data r' then [] else ring_text r @ bs)"
proof -
  obtain m d e where r: "r = \<lparr>nr_mem = m, nr_data = d, nr_end = e\<rparr>" by (cases r)
  have ok: "d \<le> length m" "e \<le> length m" using assms(1) by (simp_all add: ring_ok_def r)
  have g: "get_continuous_block r = (if e = d then (\<lparr>nr_mem = m, nr_data = 0, nr_end = 0\<rparr>, 0, length m)
      else if e = length m then (r, 0, d) else if e > d then (r, e, length m - e) else (r, e, d - e))"
    by (simp add: get_continuous_block_def r)
  consider (none) "e = d" "r1 = \<lparr>nr_mem = m, nr_data = 0, nr_end = 0\<rparr>" "block = 0" "n = length m"
    | (border) "e \<noteq> d" "e = length m" "r1 = r" "block = 0" "n = d"
    | (straight) "e \<noteq> length m" "d < e" "r1 = r" "block = e" "n = length m - e"
    | (wrapped) "e < d" "e \<noteq> length m" "r1 = r" "block = e" "n = d - e"
    using assms(2) unfolding g by (cases "e = d"; cases "e = length m"; cases "d < e") simp_all
  then show ?thesis
  proof cases
    case none
    then have "x = Ret \<lparr>nr_mem = bs @ drop (length bs) m, nr_data = 0, nr_end = length bs\<rparr>"
      using assms(3,4) by (simp add: ring_received_def mem_write_Ret)
    then show ?thesis using none assms(3) by (simp add: ring_ok_def ring_text_def slice_of_def r)
  next
    case border
    then have "x = Ret \<lparr>nr_mem = bs @ drop (length bs) m, nr_data = d, nr_end = length bs\<rparr>"
      using assms(3,4) ok by (simp add: ring_received_def mem_write_Ret r)
    then show ?thesis using border assms(3) ok by (simp add: ring_ok_def ring_text_def slice_of_def r)
  next
    case straight
    then have x: "x = Ret \<lparr>nr_mem = take e m @ bs @ drop (e + length bs) m, nr_data = d, nr_end = e + length bs\<rparr>"
      using assms(3,4) ok by (simp add: ring_received_def mem_write_Ret r)
    have "drop d (take e m @ bs @ drop (e + length bs) m) = drop d (take e m) @ bs @ drop (e + length bs) m"
      using straight(2) ok(2) by simp
    then have "slice_of (take e m @ bs @ drop (e + length bs) m) (d, e + length bs) = drop d (take e m) @ bs"
      using straight(2) ok(2) by (simp add: slice_of_def)
    then show ?thesis using straight assms(3) ok x
      by (simp add: ring_ok_def ring_text_def slice_of_def r drop_take)
  next
    case wrapped
    then have x: "x = Ret \<lparr>nr_mem = take e m @ bs @ drop (e + length bs) m, nr_data = d, nr_end = e + length bs\<rparr>"
      using assms(3,4) ok by (simp add: ring_received_def mem_write_Ret r)
    have "drop d (take e m @ bs @ drop (e + length bs) m) = drop d m"
      using wrapped(1,5) ok assms(3) by simp
    moreover have "e + length bs \<le> d" using wrapped(1,5) assms(3) by simp
    ultimately show ?thesis using wrapped(1,4,5) ok x
      by (cases "e + length bs = d") (simp_all add: ring_ok_def ring_text_def slice_of_def r, linarith+)
  qed
qed

theorem received_bytes_are_appended_witness:
  "\<exists>r' r''. ring_received \<lparr>nr_mem = ''b..a'', nr_data = 3, nr_end = 1\<rparr> 1 ''c'' = Ret r' \<and> ring_text r' = ''abc'' \<and>
     ring_received \<lparr>nr_mem = ''b..a'', nr_data = 3, nr_end = 1\<rparr> 1 ''cd'' = Ret r'' \<and> ring_text r'' = []"
proof -
  let ?r = "\<lparr>nr_mem = ''b..a'', nr_data = 3, nr_end = 1\<rparr>"
  have ok: "ring_ok ?r" by (simp add: ring_ok_def)
  have b: "get_continuous_block ?r = (?r, 1, 2)" by (simp add: get_continuous_block_def Let_def)
  have l: "length ''c'' \<le> 2" "length ''cd'' \<le> 2" by simp_all
  have t: "ring_text ?r = ''ab''" by (simp add: ring_text_def)
  obtain r' where r': "ring_received ?r 1 ''c'' = Ret r'" "ring_text r' = (if nr_end r' = nr_data r' then [] else ''abc'')"
    using received_bytes_are_appended [OF ok b l(1) refl] t by auto
  obtain r'' where r'': "ring_received ?r 1 ''cd'' = Ret r''" "ring_text r'' = (if nr_end r'' = nr_data r'' then [] else ''abcd'')"
    using received_bytes_are_appended [OF ok b l(2) refl] t by auto
  have "nr_end r' = 2 \<and> nr_data r' = 3" "nr_end r'' = 3 \<and> nr_data r'' = 3"
    using r'(1) r''(1) by (auto simp: ring_received_def)
  then show ?thesis using r' r'' by auto
qed

subsection \<open>Changing the size of the ring\<close>

text \<open>
  Allocating the ring again keeps the bytes that were received, in order, and never makes the ring too small for them;
  but only bytes that lie straight in the ring are counted properly: of an empty ring the whole new block, and of data that
  goes around the end twice the gap is taken for received bytes.
\<close>

theorem resize_counts_garbage:
  assumes "ring_ok r" and "allocates A" and "malloc_block A (max wanted (ring_data_size r)) = Some fresh"
    and "realloc_ring_buffer A r wanted = (r', n)"
  shows "ring_ok r' \<and> wanted \<le> n \<and> ring_size r' = n \<and>
    (\<exists>junk. ring_text r' = ring_text r @ junk \<and>
       int (length junk) =
         (if nr_data r < nr_end r then 0
          else if nr_data r = nr_end r then ring_size r else 2 * (int (nr_data r) - int (nr_end r))))"
proof -
  obtain m d e where r: "r = \<lparr>nr_mem = m, nr_data = d, nr_end = e\<rparr>" by (cases r)
  have ok: "d \<le> length m" "e \<le> length m" using assms(1) by (simp_all add: ring_ok_def r)
  define size where "size = ring_data_size r"
  define old where "old = ring_text r"
  have old: "old = (if d = e then [] else if d > e then drop d m @ take e m else slice_of m (d, e))"
    by (simp add: old_def ring_text_def r slice_of_def)
  have size: "0 \<le> size" "int (length old) \<le> size" "size = (if d < e then int e - int d else int (length m) + (int d - int e))"
    "int (length old) = (if d < e then int e - int d else if d = e then 0 else int (length m) - (int d - int e))"
    using ok by (auto simp: size_def old ring_data_size_def ring_size_def r slice_of_def Let_def)
  have fr: "malloc_block A (max wanted size) = Some fresh" using assms(3) by (simp add: size_def)
  have "realloc_ring_buffer A r wanted =
      (\<lparr>nr_mem = old @ drop (length old) fresh, nr_data = 0, nr_end = nat size\<rparr>, max wanted size)"
    unfolding realloc_ring_buffer_def Let_def size_def [symmetric] fr by (simp add: old r)
  then have f: "length fresh = nat (max wanted size)" "n = max wanted size"
    "r' = \<lparr>nr_mem = old @ drop (length old) fresh, nr_data = 0, nr_end = nat size\<rparr>"
    using assms(2,4) fr by (auto simp: allocates_def malloc_block_def split: if_split_asm)
  have len: "length old \<le> nat size" "nat size \<le> length fresh" using size(1,2) f(1) by simp_all
  have "ring_text r' = old @ take (nat size - length old) (drop (length old) fresh)"
    using len by (simp add: f(3) ring_text_def slice_of_def)
  moreover have "int (length (take (nat size - length old) (drop (length old) fresh))) = size - int (length old)"
  proof -
    have "nat size - length old \<le> length (drop (length old) fresh)" using len(2) by simp
    then have "length (take (nat size - length old) (drop (length old) fresh)) = nat size - length old"
      by (simp only: length_take min_absorb2)
    then show ?thesis using len(1) size(1) by (simp only: of_nat_diff int_nat_eq if_True)
  qed
  moreover have "ring_ok r'" "ring_size r' = n"
    using len f(1,2) max.coboundedI2 [OF size(1), of wanted] by (simp_all add: f(3) ring_ok_def ring_size_def)
  moreover have "size - int (length old) = (if nr_data r < nr_end r then 0
      else if nr_data r = nr_end r then ring_size r else 2 * (int (nr_data r) - int (nr_end r)))"
    using size(3,4) by (simp add: r ring_size_def)
  ultimately show ?thesis
    using f(2) unfolding old_def by (intro conjI exI [of _ "take (nat size - length (ring_text r)) (drop (length (ring_text r)) fresh)"]) simp_all
qed

definition example_malloc :: allocator where
  "example_malloc n = Some (replicate n (CHR ''?''))"

lemma example_malloc_ok: "allocates example_malloc"
  by (simp add: allocates_def example_malloc_def)

theorem resize_counts_garbage_witness:
  "\<exists>r' n. realloc_ring_buffer example_malloc \<lparr>nr_mem = ''bc.a'', nr_data = 3, nr_end = 2\<rparr> 8 = (r', n) \<and>
     (\<exists>junk. ring_text r' = ''abc'' @ junk \<and> length junk = 2)"
proof -
  let ?r = "\<lparr>nr_mem = ''bc.a'', nr_data = 3, nr_end = 2\<rparr>"
  have ok: "ring_ok ?r" by (simp add: ring_ok_def)
  have m: "malloc_block example_malloc (max 8 (ring_data_size ?r)) = Some (replicate 8 (CHR ''?''))"
    by (simp add: ring_data_size_def ring_size_def Let_def malloc_block_def example_malloc_def)
  obtain r' n where r': "realloc_ring_buffer example_malloc ?r 8 = (r', n)" by fastforce
  from resize_counts_garbage [OF ok example_malloc_ok m r'] show ?thesis
    using r' by (auto simp: ring_text_def)
qed

subsection \<open>Storing a stanza\<close>

definition entry_ok :: "stanza_entry \<Rightarrow> bool" where
  "entry_ok e \<longleftrightarrow> (case se_buffer e of None \<Rightarrow> se_buffer_size e = 0 | Some b \<Rightarrow> int (length b) = se_buffer_size e)"

lemma malloc_block_length:
  "allocates A \<Longrightarrow> malloc_block A n = Some b \<Longrightarrow> int (length b) = n"
  by (auto simp: allocates_def malloc_block_def split: if_split_asm)

lemma realloc_block_length:
  "allocates A \<Longrightarrow> realloc_block A old n = Some b \<Longrightarrow> int (length b) = n"
  using malloc_block_length by (fastforce simp: realloc_block_def)

lemma stanza_block_ok:
  assumes "allocates A" and "entry_ok e" and "stanza_block A desired e stats = (e', stats')"
  shows "entry_ok e' \<and> se_next e' = se_next e \<and> (0 \<le> desired \<and> (\<forall>n. A n \<noteq> None) \<longrightarrow> se_buffer_size e' = desired)"
  using assms malloc_block_length [OF assms(1), of desired] realloc_block_length [OF assms(1), of _ desired]
  by (auto simp: stanza_block_def entry_ok_def Let_def realloc_block_def malloc_block_def
    dest: spec [of _ "nat desired"] split: if_split_asm option.splits prod.splits)

text \<open>The text of the stanza between a start and the scanner's position.\<close>

definition cut_text :: "net_ring \<Rightarrow> nat \<Rightarrow> bytes" where
  "cut_text r start =
     (if nr_data r > start then slice_of (nr_mem r) (start, nr_data r)
      else drop start (nr_mem r) @ take (nr_data r) (nr_mem r))"

lemma stanza_copy_effect:
  assumes "ring_ok r" and "start \<le> length (nr_mem r)" and "start \<noteq> nr_data r" and "entry_ok e"
    and "stanza_copy r start (stanza_size r start) e = x"
  shows "\<exists>e'. x = Ret e' \<and> entry_ok e' \<and> se_next e' = se_next e \<and> se_buffer_size e' = se_buffer_size e \<and>
    (if se_buffer_size e < stanza_size r start then se_data_size e' = 0
     else se_data_size e' = stanza_size r start \<and>
       (\<exists>rest. se_buffer e' = Some (cut_text r start @ rest)))"
proof (cases "se_buffer_size e < stanza_size r start")
  case True
  then show ?thesis using assms(4,5) by (cases "se_buffer e") (auto simp: stanza_copy_def entry_ok_def)
next
  case False
  have ok: "nr_data r \<le> length (nr_mem r)" using assms(1) by (simp add: ring_ok_def)
  have n: "0 < stanza_size r start" "int (length (cut_text r start)) \<le> stanza_size r start"
    using assms(2,3) ok by (auto simp: stanza_size_def cut_text_def ring_size_def slice_of_def Let_def)
  have cut: "(if nr_data r > start then slice_of (nr_mem r) (start, start + nat (stanza_size r start))
      else drop start (nr_mem r) @ take (nr_data r) (nr_mem r)) = cut_text r start"
    by (auto simp: cut_text_def stanza_size_def nat_diff_distrib)
  obtain b where b: "se_buffer e = Some b" "int (length b) = se_buffer_size e"
    using False n(1) assms(4) by (auto simp: entry_ok_def split: option.splits)
  have "mem_write 0 (cut_text r start) b = Ret (cut_text r start @ drop (length (cut_text r start)) b)"
    using n(2) b False by (simp add: mem_write_Ret)
  then have "x = Ret (e\<lparr>se_buffer := Some (cut_text r start @ drop (length (cut_text r start)) b),
      se_data_size := stanza_size r start\<rparr>)"
    using assms(5) False b unfolding stanza_copy_def cut by simp
  then show ?thesis using False b n(2) by (auto simp: entry_ok_def)
qed

lemma push_data_keeps:
  "se_buffer (sq_entry (queue_push_data q a) b) = se_buffer (sq_entry q b)"
  "se_data_size (sq_entry (queue_push_data q a) b) = se_data_size (sq_entry q b)"
  "se_buffer_size (sq_entry (queue_push_data q a) b) = se_buffer_size (sq_entry q b)"
  by (auto simp: queue_push_data_def set_next_def Let_def)

lemma queue_rep_upd:
  "queue_rep q ds fs \<Longrightarrow> a \<notin> set ds \<union> set fs \<Longrightarrow> queue_rep (q\<lparr>sq_entry := (sq_entry q)(a := e), sq_stats := s\<rparr>) ds fs"
  by (simp add: queue_rep_def chain_upd)

lemma reader_stanza_effect:
  assumes A: "allocates A" "\<forall>n. A n \<noteq> None" and r: "ring_ok (rd_ring st)"
    and e: "\<And>a. entry_ok (sq_entry (rd_queue st) a)" and fixed: "sq_fixed_block_buffer_size (rd_queue st) = 0"
    and q: "queue_rep (rd_queue st) ds (f # fs)" and scan: "reader_scan (rd_ring st) = Ret (Some d)"
    and d: "d \<le> length (nr_mem (rd_ring st))" "d \<noteq> nr_data (rd_ring st)"
  shows "\<exists>st' rest. reader_stanza A st = Ret (st', True) \<and> rd_ring st' = (rd_ring st)\<lparr>nr_data := d\<rparr> \<and>
    queue_rep (rd_queue st') (ds @ [f]) fs \<and>
    se_data_size (sq_entry (rd_queue st') f) = stanza_size (rd_ring st') (nr_data (rd_ring st)) \<and>
    se_buffer (sq_entry (rd_queue st') f) = Some (cut_text (rd_ring st') (nr_data (rd_ring st)) @ rest) \<and>
    int (length (cut_text (rd_ring st') (nr_data (rd_ring st)) @ rest)) = stanza_size (rd_ring st') (nr_data (rd_ring st))"
proof -
  let ?start = "nr_data (rd_ring st)" and ?r = "(rd_ring st)\<lparr>nr_data := d\<rparr>"
  have ok: "ring_ok ?r" "?start \<le> length (nr_mem ?r)" "?start \<noteq> nr_data ?r" using r d by (simp_all add: ring_ok_def)
  have n: "0 \<le> stanza_size ?r ?start" using ok by (auto simp: stanza_size_def ring_size_def ring_ok_def Let_def)
  obtain q1 where q1: "queue_pop_free (rd_queue st) = (q1, Some f)" "queue_rep q1 ds fs" using pop_free_some [OF q] by blast
  have same: "sq_entry q1 = sq_entry (rd_queue st)" "sq_fixed_block_buffer_size q1 = 0"
    using q1(1) fixed by (auto simp: queue_pop_free_def Let_def split: if_split_asm)
  obtain e1 stats where e1: "stanza_block A (stanza_size ?r ?start) (sq_entry q1 f) (sq_stats q1) = (e1, stats)" by fastforce
  note b = stanza_block_ok [OF A(1) e [of f] e1 [unfolded same]]
  have size: "se_buffer_size e1 = stanza_size ?r ?start" using b n A(2) by simp
  obtain e2 rest where e2: "stanza_copy ?r ?start (stanza_size ?r ?start) e1 = Ret e2" "entry_ok e2" "se_next e2 = se_next e1"
    "se_data_size e2 = stanza_size ?r ?start" "se_buffer e2 = Some (cut_text ?r ?start @ rest)" "se_buffer_size e2 = stanza_size ?r ?start"
    using stanza_copy_effect [OF ok _ refl, of e1] b size by auto
  define q2 where "q2 = q1\<lparr>sq_entry := (sq_entry q1)(f := e2), sq_stats := stats\<rparr>"
  have f: "f \<notin> set ds \<union> set fs" "f \<noteq> 0" using q by (auto simp: queue_rep_def)
  have "reader_store A ?r ?start f q1 = Ret (queue_push_data q2 f)"
    using e1 e2(1) by (simp add: reader_store_def Let_def same(2) q2_def)
  then have run: "reader_stanza A st = Ret (\<lparr>rd_ring = ?r, rd_queue = queue_push_data q2 f\<rparr>, True)"
    using scan q1(1) by (simp add: reader_stanza_def)
  have "queue_rep (queue_push_data q2 f) (ds @ [f]) fs"
    using push_data_rep [OF _ f] queue_rep_upd [OF q1(2) f(1)] by (simp add: q2_def)
  moreover have "int (length (cut_text ?r ?start @ rest)) = stanza_size ?r ?start"
    using e2(2,5,6) by (simp add: entry_ok_def)
  ultimately show ?thesis
    using run e2(4,5) by (intro exI [of _ "\<lparr>rd_ring = ?r, rd_queue = queue_push_data q2 f\<rparr>"] exI [of _ rest])
      (simp add: push_data_keeps q2_def)
qed

text \<open>A complete stanza at the front of the data.\<close>

lemma reader_scan_stanza:
  assumes "ring_ok r" and "nr_end r < nr_data r \<longrightarrow> nr_end r \<noteq> 0 \<and> nr_mem r ! (length (nr_mem r) - 1) \<noteq> CHR ''/''"
    and "xml_ok x" and "\<not> is_text x" and "text_ok t" and "ring_text r = (t @ print_xml x) @ tail"
  shows "reader_scan r = Ret (Some (ring_pos r (length (t @ print_xml x))))"
proof -
  have "at (ring_text r) 0 (t @ print_xml x)" using at_middle [of "[]" "t @ print_xml x" tail] assms(6) by simp
  then have "xmlfsm_skip_node (ring_text r) (0, length (ring_text r)) None = Ret (Some (0 + length t + length (print_xml x)))"
    using assms(3-6) by (intro skip_node_xml) simp_all
  then show ?thesis using ring_scan_linear [of r] assms(1,2) by (simp add: ring_ok_def)
qed


definition example_ring :: net_ring where
  "example_ring = \<lparr>nr_mem = ''></b>..<b'', nr_data = 7, nr_end = 5\<rparr>"


theorem ring_scan_is_linear_witness:
  "ring_text example_ring = ''<b></b>'' \<and> reader_scan example_ring = Ret (Some 5)"
proof -
  have r: "nr_data example_ring \<le> length (nr_mem example_ring)" "nr_end example_ring \<le> length (nr_mem example_ring)"
    "nr_end example_ring < nr_data example_ring \<longrightarrow>
      nr_end example_ring \<noteq> 0 \<and> nr_mem example_ring ! (length (nr_mem example_ring) - 1) \<noteq> CHR ''/''"
    by (simp_all add: example_ring_def)
  have t: "ring_text example_ring = ''<b></b>''" by (simp add: ring_text_def example_ring_def)
  have "xmlfsm_skip_node ''<b></b>'' (0, length ''<b></b>'') None = Ret (Some 7)" by code_simp
  then show ?thesis using ring_scan_is_linear [OF r] t by (simp add: ring_pos_def example_ring_def)
qed

text \<open>
  An empty node whose slash is the last byte of the ring is never found: the scanner compares the
  positions of the slash and of the sign behind it, which are not neighbours there, and takes the node for an end tag.
  The same bytes in a row are a whole node.
\<close>

theorem slash_at_the_border:
  "ring_text \<lparr>nr_mem = ''>....<a/'', nr_data = 5, nr_end = 1\<rparr> = ''<a/>'' \<and>
   xmlfsm_skip_node ''<a/>'' (0, 4) None = Ret (Some 4) \<and>
   reader_scan \<lparr>nr_mem = ''>....<a/'', nr_data = 5, nr_end = 1\<rparr> = Ret None"
  by code_simp

end
