(* ===== verification/Server.thy ===== *)
theory Server
  imports Worker Reader
begin

text \<open>
  The service as a whole, between the socket and the outgoing ring: the reader thread and any number of
  workers around the stanza queue and the table of rooms. A step is a round of the reader's inner loop, the end of its outer
  loop, or a turn of a worker; the configuration and the ring of the reader may change in between. A turn is one step: what
  happens when turns overlap in the table of rooms is the subject of theory Concurrency.
\<close>

subsection \<open>Steps\<close>

text \<open>
  Besides the state, the record remembers the texts of the blocks that were filled, those of the blocks that workers
  have taken, and the texts they wrote.
\<close>

record 'h service =
  sr_reader :: reader
  sr_rooms :: "'h rooms"
  sr_filled :: "bytes list"
  sr_taken :: "bytes list"
  sr_written :: "bytes list"

abbreviation sr_queue :: "'h service \<Rightarrow> stanza_queue" where "sr_queue s \<equiv> rd_queue (sr_reader s)"

definition block_text :: "stanza_entry \<Rightarrow> bytes" where
  "block_text e = (case se_buffer e of None \<Rightarrow> [] | Some b \<Rightarrow> take (nat (se_data_size e)) b)"

definition serve_stanza :: "allocator \<Rightarrow> 'h service \<Rightarrow> 'h service run" where
  "serve_stanza A s =
     bind_run (reader_stanza A (sr_reader s)) (\<lambda>(st, stored).
       Ret (s\<lparr>sr_reader := st,
              sr_filled := (if stored then sr_filled s @ [block_text (sq_entry (rd_queue st) (sq_data_end (rd_queue st)))]
                            else sr_filled s)\<rparr>))"

definition serve_turn ::
  "'h uthash \<Rightarrow> platform \<Rightarrow> acl_config \<Rightarrow> clock \<Rightarrow> int \<Rightarrow> int \<Rightarrow> worker_config \<Rightarrow> 'h service \<Rightarrow> 'h service run" where
  "serve_turn H P acl ck now now' wc s =
     bind_run (worker_turn H P acl ck now now' wc \<lparr>sv_queue = sr_queue s, sv_rooms = sr_rooms s\<rparr>) (\<lambda>(sv, ts).
       Ret (s\<lparr>sr_reader := (sr_reader s)\<lparr>rd_queue := sv_queue sv\<rparr>, sr_rooms := sv_rooms sv,
              sr_taken := (if sq_data_start (sr_queue s) = 0 then sr_taken s
                           else sr_taken s @ [block_text (sq_entry (sr_queue s) (sq_data_start (sr_queue s)))]),
              sr_written := sr_written s @ ts\<rparr>))"

definition service_start :: "'h uthash \<Rightarrow> net_ring \<Rightarrow> stanza_queue \<Rightarrow> nat \<Rightarrow> 'h service" where
  "service_start H r q n =
     \<lparr>sr_reader = \<lparr>rd_ring = r, rd_queue = queue_init q n\<rparr>, sr_rooms = rooms_init H,
      sr_filled = [], sr_taken = [], sr_written = []\<rparr>"

inductive service_step :: "allocator \<Rightarrow> 'h uthash \<Rightarrow> platform \<Rightarrow> 'h service \<Rightarrow> 'h service \<Rightarrow> bool" for A H P where
  stanza: "serve_stanza A s = Ret s' \<Longrightarrow> service_step A H P s s'"
| receive: "reader_receive received (sr_reader s) = Ret (Some st) \<Longrightarrow> service_step A H P s (s\<lparr>sr_reader := st\<rparr>)"
| resize: "service_step A H P s (s\<lparr>sr_reader := reader_resize A (sr_reader s)\<rparr>)"
| configure: "service_step A H P s (s\<lparr>sr_reader := (sr_reader s)\<lparr>rd_queue :=
    (sr_queue s)\<lparr>sq_fixed_block_buffer_size := fixed, sq_network_buffer_size := network\<rparr>\<rparr>\<rparr>)"
| reconnect: "reader_init A (sr_queue s) = Some st \<Longrightarrow> service_step A H P s (s\<lparr>sr_reader := st\<rparr>)"
| turn: "serve_turn H P acl ck now now' wc s = Ret s' \<Longrightarrow> service_step A H P s s'"

subsection \<open>The invariant\<close>

definition service_ok :: "'h uthash \<Rightarrow> ('h \<Rightarrow> bool) \<Rightarrow> nat \<Rightarrow> 'h service \<Rightarrow> addr list \<Rightarrow> addr list \<Rightarrow> bool" where
  "service_ok H ok n s ds fs \<longleftrightarrow>
     queue_rep (sr_queue s) ds fs \<and> mset (ds @ fs) = mset (all_blocks n) \<and> rooms_ok H ok (sr_rooms s) \<and>
     sr_filled s = sr_taken s @ map (\<lambda>a. block_text (sq_entry (sr_queue s) a)) ds"

lemma block_text_cong: "se_buffer e = se_buffer e' \<Longrightarrow> se_data_size e = se_data_size e' \<Longrightarrow> block_text e = block_text e'"
  by (simp add: block_text_def split: option.splits)

lemma reader_stanza_cases:
  assumes "reader_stanza A st = Ret (st', stored)"
  shows "if stored
    then \<exists>d q a q'. queue_pop_free (rd_queue st) = (q, Some a) \<and>
      reader_store A ((rd_ring st)\<lparr>nr_data := d\<rparr>) (nr_data (rd_ring st)) a q = Ret q' \<and> rd_queue st' = q'
    else st' = st \<or> (\<exists>q. queue_pop_free (rd_queue st) = (q, None) \<and> st' = st\<lparr>rd_queue := q\<rparr>)"
proof -
  obtain found where found: "reader_scan (rd_ring st) = Ret found" using assms by (auto simp: reader_stanza_def)
  obtain q r where pop: "queue_pop_free (rd_queue st) = (q, r)" by fastforce
  show ?thesis
  proof (cases found)
    case None
    then show ?thesis using assms found by (simp add: reader_stanza_def)
  next
    case (Some d)
    show ?thesis
      using assms found pop Some by (cases r) (auto simp: reader_stanza_def Let_def)
  qed
qed

lemma reader_store_keeps:
  assumes "queue_rep q ds fs" and "a \<notin> set ds \<union> set fs" and "a \<noteq> 0" and "reader_store A r start a q = Ret q'"
  shows "queue_rep q' (ds @ [a]) fs"
    and "b \<noteq> a \<Longrightarrow> block_text (sq_entry q' b) = block_text (sq_entry q b)"
proof -
  obtain e' stats where q': "q' = queue_push_data (q\<lparr>sq_entry := (sq_entry q)(a := e'), sq_stats := stats\<rparr>) a"
    using assms(4) by (auto simp: reader_store_def Let_def split: prod.splits)
  show "queue_rep q' (ds @ [a]) fs"
    unfolding q' using assms(2,3) queue_rep_upd [OF assms(1,2)] by (rule push_data_rep [rotated])
  show "b \<noteq> a \<Longrightarrow> block_text (sq_entry q' b) = block_text (sq_entry q b)"
    by (rule block_text_cong) (simp_all add: q' push_data_keeps)
qed

lemma reader_stanza_keeps:
  assumes "queue_rep (rd_queue st) ds fs" and "reader_stanza A st = Ret (st', stored)"
  shows "if stored
    then \<exists>f fs'. fs = f # fs' \<and> queue_rep (rd_queue st') (ds @ [f]) fs' \<and> sq_data_end (rd_queue st') = f \<and>
      (\<forall>b. b \<noteq> f \<longrightarrow> block_text (sq_entry (rd_queue st') b) = block_text (sq_entry (rd_queue st) b))
    else queue_rep (rd_queue st') ds fs \<and> sq_entry (rd_queue st') = sq_entry (rd_queue st)"
proof (cases stored)
  case True
  then obtain d q a q' where pop: "queue_pop_free (rd_queue st) = (q, Some a)"
    and store: "reader_store A ((rd_ring st)\<lparr>nr_data := d\<rparr>) (nr_data (rd_ring st)) a q = Ret q'"
    and st': "rd_queue st' = q'"
    using reader_stanza_cases [OF assms(2)] by auto
  obtain fs' where fs: "fs = a # fs'" and rep: "queue_rep q ds fs'"
    using pop_free_some [of "rd_queue st" ds] pop_free_none [of "rd_queue st" ds] assms(1) pop by (cases fs) fastforce+
  have a: "a \<notin> set ds \<union> set fs'" "a \<noteq> 0" using assms(1) fs by (auto simp: queue_rep_def)
  note k = reader_store_keeps [OF rep a store]
  have "sq_entry q = sq_entry (rd_queue st)" using pop by (auto simp: queue_pop_free_def Let_def split: if_split_asm)
  moreover have "sq_data_end q' = a" using k(1) by (simp add: queue_rep_def)
  ultimately show ?thesis using True fs k st' by auto
next
  case False
  then have "st' = st \<or> (\<exists>q. queue_pop_free (rd_queue st) = (q, None) \<and> st' = st\<lparr>rd_queue := q\<rparr>)"
    using reader_stanza_cases [OF assms(2)] by auto
  moreover have "queue_rep q ds fs \<and> sq_entry q = sq_entry (rd_queue st)" if "queue_pop_free (rd_queue st) = (q, None)" for q
    using that assms(1) by (auto simp: queue_pop_free_def queue_rep_def Let_def split: if_split_asm)
  ultimately show ?thesis using False assms(1) by auto
qed

lemma serve_stanza_ok:
  assumes "service_ok H ok n s ds fs" and "serve_stanza A s = Ret s'"
  shows "\<exists>ds' fs'. service_ok H ok n s' ds' fs'"
proof -
  have rep: "queue_rep (sr_queue s) ds fs" using assms(1) by (simp add: service_ok_def)
  obtain st stored where st: "reader_stanza A (sr_reader s) = Ret (st, stored)"
    and s': "s' = s\<lparr>sr_reader := st, sr_filled := (if stored
        then sr_filled s @ [block_text (sq_entry (rd_queue st) (sq_data_end (rd_queue st)))] else sr_filled s)\<rparr>"
    using assms(2) by (auto simp: serve_stanza_def)
  note k = reader_stanza_keeps [OF rep st]
  show ?thesis
  proof (cases stored)
    case True
    then obtain f fs' where f: "fs = f # fs'" "queue_rep (rd_queue st) (ds @ [f]) fs'" "sq_data_end (rd_queue st) = f"
      "\<And>b. b \<noteq> f \<Longrightarrow> block_text (sq_entry (rd_queue st) b) = block_text (sq_entry (sr_queue s) b)"
      using k by auto
    have nf: "f \<notin> set ds" using f(2) by (auto simp: queue_rep_def)
    have "map (\<lambda>a. block_text (sq_entry (rd_queue st) a)) ds = map (\<lambda>a. block_text (sq_entry (sr_queue s) a)) ds"
      by (rule map_cong [OF refl], rule f(4)) (use nf in blast)
    then have "service_ok H ok n s' (ds @ [f]) fs'" using assms(1) True f by (simp add: service_ok_def s')
    then show ?thesis by blast
  next
    case False
    then have "service_ok H ok n s' ds fs" using assms(1) k by (simp add: service_ok_def s')
    then show ?thesis by blast
  qed
qed

lemma serve_turn_ok:
  assumes "uthash_laws H ok" and "utlist_laws (pf_utlist P)" and "service_ok H ok n s ds fs"
    and "serve_turn H P acl ck now now' wc s = Ret s'"
  shows "\<exists>ds' fs'. service_ok H ok n s' ds' fs'"
proof -
  let ?sv = "\<lparr>sv_queue = sr_queue s, sv_rooms = sr_rooms s\<rparr>"
  have rep: "queue_rep (sv_queue ?sv) ds fs" and rooms: "rooms_ok H ok (sv_rooms ?sv)" using assms(3) by (simp_all add: service_ok_def)
  obtain sv ts where w: "worker_turn H P acl ck now now' wc ?sv = Ret (sv, ts)"
    and s': "s' = s\<lparr>sr_reader := (sr_reader s)\<lparr>rd_queue := sv_queue sv\<rparr>, sr_rooms := sv_rooms sv,
      sr_taken := (if sq_data_start (sr_queue s) = 0 then sr_taken s
                   else sr_taken s @ [block_text (sq_entry (sr_queue s) (sq_data_start (sr_queue s)))]),
      sr_written := sr_written s @ ts\<rparr>"
    using assms(4) by (auto simp: serve_turn_def)
  note k = worker_turn_keeps [OF assms(1,2) rooms rep w]
  show ?thesis
  proof (cases ds)
    case Nil
    then have "sq_data_start (sr_queue s) = 0" using rep by (simp add: queue_rep_def)
    then have "service_ok H ok n s' [] fs" using assms(3) k Nil by (simp add: service_ok_def s')
    then show ?thesis by blast
  next
    case (Cons d ds')
    then have d: "sq_data_start (sr_queue s) = d" "d \<noteq> 0" "d \<notin> set ds'" using rep by (auto simp: queue_rep_def)
    have e: "block_text (sq_entry (sv_queue sv) a) = block_text (sq_entry (sr_queue s) a)" if "a \<noteq> d" for a
      using k Cons that by (intro block_text_cong) auto
    have "map (\<lambda>a. block_text (sq_entry (sv_queue sv) a)) ds' = map (\<lambda>a. block_text (sq_entry (sr_queue s) a)) ds'"
      by (rule map_cong [OF refl], rule e) (use d(3) in blast)
    then have "service_ok H ok n s' ds' (d # fs)" using assms(3) k Cons d by (simp add: service_ok_def s')
    then show ?thesis by blast
  qed
qed

lemma service_ok_reader:
  assumes "service_ok H ok n s ds fs" and "sq_entry (rd_queue st) = sq_entry (sr_queue s)"
    and "sq_data_start (rd_queue st) = sq_data_start (sr_queue s)" and "sq_data_end (rd_queue st) = sq_data_end (sr_queue s)"
    and "sq_free (rd_queue st) = sq_free (sr_queue s)"
  shows "service_ok H ok n (s\<lparr>sr_reader := st\<rparr>) ds fs"
  using assms by (simp add: service_ok_def queue_rep_def)

lemma resize_queue: "rd_queue (reader_resize A st) = rd_queue st"
  by (simp add: reader_resize_def)

lemma service_step_ok:
  assumes "uthash_laws H ok" and "utlist_laws (pf_utlist P)"
  shows "service_step A H P s s' \<Longrightarrow> \<exists>ds fs. service_ok H ok n s ds fs \<Longrightarrow> \<exists>ds fs. service_ok H ok n s' ds fs"
proof (induction rule: service_step.induct)
  case (stanza s s')
  then show ?case using serve_stanza_ok by blast
next
  case (receive received s st)
  then have "rd_queue st = sr_queue s \<or> rd_queue st = (sr_queue s)\<lparr>sq_network_buffer_size := 2 ^ 20\<rparr>"
    by (auto simp: reader_receive_def split: prod.splits option.splits if_splits)
  moreover obtain ds fs where "service_ok H ok n s ds fs" using receive.prems by blast
  ultimately have "service_ok H ok n (s\<lparr>sr_reader := st\<rparr>) ds fs" by (intro service_ok_reader) auto
  then show ?case by blast
next
  case (resize s)
  then obtain ds fs where "service_ok H ok n s ds fs" by blast
  then have "service_ok H ok n (s\<lparr>sr_reader := reader_resize A (sr_reader s)\<rparr>) ds fs"
    by (rule service_ok_reader) (simp_all add: resize_queue)
  then show ?case by blast
next
  case (configure s network fixed)
  then obtain ds fs where "service_ok H ok n s ds fs" by blast
  then have "service_ok H ok n (s\<lparr>sr_reader := (sr_reader s)\<lparr>rd_queue :=
      (sr_queue s)\<lparr>sq_fixed_block_buffer_size := fixed, sq_network_buffer_size := network\<rparr>\<rparr>\<rparr>) ds fs"
    by (rule service_ok_reader) simp_all
  then show ?case by blast
next
  case (reconnect s st)
  then have "rd_queue st = sr_queue s" by (auto simp: reader_init_def)
  moreover obtain ds fs where "service_ok H ok n s ds fs" using reconnect.prems by blast
  ultimately have "service_ok H ok n (s\<lparr>sr_reader := st\<rparr>) ds fs" by (intro service_ok_reader) simp_all
  then show ?case by blast
next
  case (turn acl ck now now' wc s s')
  then show ?case using serve_turn_ok [OF assms] by blast
qed

lemma service_run_ok:
  assumes "uthash_laws H ok" and "utlist_laws (pf_utlist P)" and "(service_step A H P)\<^sup>*\<^sup>* s s'" and "\<exists>ds fs. service_ok H ok n s ds fs"
  shows "\<exists>ds fs. service_ok H ok n s' ds fs"
  using assms(3)
proof (induction rule: rtranclp_induct)
  case (step s s')
  then show ?case using service_step_ok [OF assms(1,2)] by blast
qed (rule assms(4))

lemma service_reachable_ok:
  assumes "uthash_laws H ok" and "utlist_laws (pf_utlist P)" and "(service_step A H P)\<^sup>*\<^sup>* (service_start H r q n) s"
  shows "\<exists>ds fs. service_ok H ok n s ds fs"
proof (rule service_run_ok [OF assms])
  have "service_ok H ok n (service_start H r q n) [] (all_blocks n)"
    using queue_init_rep uthash_laws.rooms_init_ok [OF assms(1)] by (simp add: service_ok_def service_start_def)
  then show "\<exists>ds fs. service_ok H ok n (service_start H r q n) ds fs" by blast
qed

text \<open>
  From the start of the service, through any rounds of the reader, turns of workers, changes of the
  configuration and new connections, with any bytes from the server: the table of rooms is consistent, every block
  is in one of the two queues, and the texts the workers have taken are those the reader filled the
  blocks with, in the same order, without the ones that still wait.
\<close>

theorem service_is_consistent:
  assumes "uthash_laws H ok" and "utlist_laws (pf_utlist P)" and "(service_step A H P)\<^sup>*\<^sup>* (service_start H r q n) s"
  shows "rooms_ok H ok (sr_rooms s) \<and>
    (\<exists>ds fs. queue_rep (sr_queue s) ds fs \<and> mset (ds @ fs) = mset (all_blocks n) \<and>
       sr_filled s = sr_taken s @ map (\<lambda>a. block_text (sq_entry (sr_queue s) a)) ds)"
  using service_reachable_ok [OF assms] by (auto simp: service_ok_def)

text \<open>A presence that arrives in two parts, in a ring it goes around, is answered by the worker.\<close>

definition example_service :: "(bytes \<times> addr) list service" where
  "example_service = service_start uthash_ref \<lparr>nr_mem = replicate 200 (CHR ''?''), nr_data = 0, nr_end = 0\<rparr> queue_zero 2"

definition example_day :: "(bytes \<times> addr) list service run" where
  "example_day =
     bind_run (reader_receive (Some (take 10 example_presence)) (sr_reader example_service)) (\<lambda>r1.
       case r1 of None \<Rightarrow> Fault Unbounded
       | Some st1 \<Rightarrow>
           bind_run (serve_stanza example_malloc (example_service\<lparr>sr_reader := st1\<rparr>)) (\<lambda>s1.
           bind_run (reader_receive (Some (drop 10 example_presence)) (sr_reader s1)) (\<lambda>r2.
             case r2 of None \<Rightarrow> Fault Unbounded
             | Some st2 \<Rightarrow>
                 bind_run (serve_stanza example_malloc (s1\<lparr>sr_reader := st2\<rparr>)) (\<lambda>s2.
                   serve_turn uthash_ref reference_platform acl_nobody example_clock 0 0
                     \<lparr>wc_hostname = Some ''c'', wc_builder_buffer_size = 1000\<rparr> s2))))"

lemma example_day_result:
  "case example_day of
     Ret s \<Rightarrow> sr_filled s = [example_presence] \<and> sr_taken s = [example_presence] \<and> length (sr_written s) = 1 \<and>
       uh_items uthash_ref (rs_head (sr_rooms s)) = [1]
   | Fault _ \<Rightarrow> False"
  by code_simp

theorem service_is_consistent_witness:
  "\<exists>s. (service_step example_malloc uthash_ref reference_platform)\<^sup>*\<^sup>* example_service s \<and>
     sr_taken s = [example_presence] \<and> length (sr_written s) = 1 \<and> rooms_ok uthash_ref uthash_ref_ok (sr_rooms s) \<and>
     (\<exists>ds fs. queue_rep (sr_queue s) ds fs \<and> mset (ds @ fs) = {#1, 2#} \<and>
        map (\<lambda>a. block_text (sq_entry (sr_queue s) a)) ds = [])"
proof -
  obtain s where day: "example_day = Ret s"
    and s: "sr_filled s = [example_presence]" "sr_taken s = [example_presence]" "length (sr_written s) = 1"
    using example_day_result by (auto split: run.splits)
  obtain st1 s1 st2 s2 where steps:
    "reader_receive (Some (take 10 example_presence)) (sr_reader example_service) = Ret (Some st1)"
    "serve_stanza example_malloc (example_service\<lparr>sr_reader := st1\<rparr>) = Ret s1"
    "reader_receive (Some (drop 10 example_presence)) (sr_reader s1) = Ret (Some st2)"
    "serve_stanza example_malloc (s1\<lparr>sr_reader := st2\<rparr>) = Ret s2"
    "serve_turn uthash_ref reference_platform acl_nobody example_clock 0 0 \<lparr>wc_hostname = Some ''c'', wc_builder_buffer_size = 1000\<rparr> s2 = Ret s"
    using day by (auto simp: example_day_def split: option.splits)
  let ?step = "service_step example_malloc uthash_ref reference_platform"
  have "?step\<^sup>*\<^sup>* example_service (example_service\<lparr>sr_reader := st1\<rparr>)"
    by (rule r_into_rtranclp [of ?step], rule service_step.receive [OF steps(1)])
  then have "?step\<^sup>*\<^sup>* example_service s1" by (rule rtranclp.rtrancl_into_rtrancl) (rule service_step.stanza [OF steps(2)])
  then have "?step\<^sup>*\<^sup>* example_service (s1\<lparr>sr_reader := st2\<rparr>)"
    by (rule rtranclp.rtrancl_into_rtrancl) (rule service_step.receive [OF steps(3)])
  then have "?step\<^sup>*\<^sup>* example_service s2" by (rule rtranclp.rtrancl_into_rtrancl) (rule service_step.stanza [OF steps(4)])
  then have reach: "?step\<^sup>*\<^sup>* example_service s" by (rule rtranclp.rtrancl_into_rtrancl) (rule service_step.turn [OF steps(5)])
  have "mset (all_blocks 2) = {#1, 2#}" by (simp add: eval_nat_numeral)
  then show ?thesis
    using service_is_consistent [OF uthash_ref.uthash_laws_axioms platform_laws(1) reach [unfolded example_service_def]] reach s
    by (intro exI [of _ s]) auto
qed

end
