(* ===== verification/Config.thy ===== *)
theory Config
  imports Acl
begin

text \<open>
  \<^verbatim>\<open>src/config.c\<close> and \<^verbatim>\<open>src/config.h\<close>: the configuration file. The fields of a structure inside
  \<open>Config\<close> have its name in front of theirs. A character array is the string in it.
\<close>

subsection \<open>The record and its defaults\<close>

record config =
  filename :: bytes
  network_host :: bytes
  network_port :: int
  component_password :: bytes
  component_hostname :: bytes
  reader_block :: int
  reader_buffer :: int
  reader_queue :: int
  writer_buffer :: int
  worker_threads :: int
  worker_buffer :: int
  worker_deciseconds_limit :: int
  worker_data_file :: bytes
  acl_data_file :: bytes
  acl_role_by_default :: int     \<comment> \<open>\<open>acl.default_role\<close>\<close>
  logger_level :: int

abbreviation FILENAME_MAX :: nat where "FILENAME_MAX \<equiv> 4096"

definition config_init :: "bytes option \<Rightarrow> config" where
  "config_init name =
     \<lparr>filename = (case name of None \<Rightarrow> [] | Some f \<Rightarrow> take FILENAME_MAX f),
      network_host = [], network_port = 0, component_password = [], component_hostname = [],
      reader_block = 0, reader_buffer = 2 ^ 20, reader_queue = 1024, writer_buffer = 2 ^ 20,
      worker_threads = 3, worker_buffer = 2 ^ 20, worker_deciseconds_limit = 2, worker_data_file = [],
      acl_data_file = [], acl_role_by_default = 0, logger_level = 0\<rparr>"

subsection \<open>Reading\<close>

text \<open>The conversion \<open>%1023s\<close>: white space, then up to 1023 other characters; \<open>None\<close> at the end of the file.\<close>

definition scan_word :: "bytes get" where
  "scan_word f =
     (let s = dropWhile is_space f; w = take 1023 (takeWhile (\<lambda>c. \<not> is_space c) s) in
      if s = [] then None else Some (w, drop (length w) s))"

text \<open>
  The conversion \<open>%d\<close>, which leaves the variable alone when there is no number; white space and a sign
  are consumed all the same.
\<close>

definition scan_d :: "bytes \<Rightarrow> int option \<times> bytes" where
  "scan_d f =
     (case scan_int f of
        Some (v, rest) \<Rightarrow> (Some v, rest)
      | None \<Rightarrow> (None, (case dropWhile is_space f of [] \<Rightarrow> [] | c # cs \<Rightarrow> if c = CHR ''-'' \<or> c = CHR ''+'' then cs else c # cs)))"

text \<open>The rest of a comment, \<open>%*[^\n]\n\<close>: at least one character up to the end of the line, then white space.\<close>

definition skip_comment :: "bytes \<Rightarrow> bytes" where
  "skip_comment f =
     (if f = [] \<or> hd f = CHR 0x0A then f else dropWhile is_space (dropWhile (\<lambda>c. c \<noteq> CHR 0x0A) f))"

text \<open>The options, in the order of the comparisons.\<close>

datatype option_target = Text "bytes \<Rightarrow> config \<Rightarrow> config" | Number "int \<Rightarrow> config \<Rightarrow> config"

definition config_options :: "(bytes \<times> option_target) list" where
  "config_options =
     [(''network.host'', Text (\<lambda>v. network_host_update (\<lambda>_. v))),
      (''network.port'', Number (\<lambda>v. network_port_update (\<lambda>_. v))),
      (''component.password'', Text (\<lambda>v. component_password_update (\<lambda>_. v))),
      (''component.hostname'', Text (\<lambda>v. component_hostname_update (\<lambda>_. v))),
      (''reader.buffer'', Number (\<lambda>v. reader_buffer_update (\<lambda>_. v))),
      (''reader.block'', Number (\<lambda>v. reader_block_update (\<lambda>_. v))),
      (''reader.queue'', Number (\<lambda>v. reader_queue_update (\<lambda>_. v))),
      (''writer.buffer'', Number (\<lambda>v. writer_buffer_update (\<lambda>_. v))),
      (''worker.data_file'', Text (\<lambda>v. worker_data_file_update (\<lambda>_. v))),
      (''worker.threads'', Number (\<lambda>v. worker_threads_update (\<lambda>_. v))),
      (''worker.buffer'', Number (\<lambda>v. worker_buffer_update (\<lambda>_. v))),
      (''worker.deciseconds_limit'', Number (\<lambda>v. worker_deciseconds_limit_update (\<lambda>_. v))),
      (''acl.data_file'', Text (\<lambda>v. acl_data_file_update (\<lambda>_. v))),
      (''acl.default_role'', Number (\<lambda>v. acl_role_by_default_update (\<lambda>_. v))),
      (''logger.level'', Number (\<lambda>v. logger_level_update (\<lambda>_. v)))]"

text \<open>One round of the loop after the word \<open>name\<close>: an unknown option is skipped without its value.\<close>

definition config_option :: "bytes \<Rightarrow> bytes \<Rightarrow> config \<Rightarrow> config \<times> bytes" where
  "config_option name f c =
     (case map_of config_options (c_string name) of
        Some (Text store) \<Rightarrow> (case scan_word f of None \<Rightarrow> (c, []) | Some (w, rest) \<Rightarrow> (store (c_string w) c, rest))
      | Some (Number store) \<Rightarrow> (case scan_d f of (None, rest) \<Rightarrow> (c, rest) | (Some v, rest) \<Rightarrow> (store v c, rest))
      | None \<Rightarrow> (c, f))"

lemma scan_word_cases:
  "scan_word f = Some (w, rest) \<Longrightarrow>
   w \<noteq> [] \<and> length w \<le> 1023 \<and> (\<forall>c \<in> set w. \<not> is_space c) \<and> length rest < length f \<and> w @ rest = dropWhile is_space f"
proof -
  let ?s = "dropWhile is_space f"
  assume "scan_word f = Some (w, rest)"
  then have s: "?s \<noteq> []" and w: "w = take 1023 (takeWhile (\<lambda>c. \<not> is_space c) ?s)" and rest: "rest = drop (length w) ?s"
    by (auto simp: scan_word_def Let_def split: if_splits)
  have ne: "w \<noteq> []" using s hd_dropWhile [OF s] by (cases ?s) (auto simp: w)
  have pre: "w = take (length w) ?s"
  proof -
    have "takeWhile (\<lambda>c. \<not> is_space c) ?s = take (length (takeWhile (\<lambda>c. \<not> is_space c) ?s)) ?s"
      by (rule takeWhile_eq_take)
    then have "w = take (min 1023 (length (takeWhile (\<lambda>c. \<not> is_space c) ?s))) ?s" by (metis take_take w)
    moreover have "length w = min 1023 (length (takeWhile (\<lambda>c. \<not> is_space c) ?s))" by (simp add: w min.commute)
    ultimately show ?thesis by simp
  qed
  have all: "w @ rest = ?s" using pre append_take_drop_id [of "length w" ?s] by (simp add: rest)
  have "length (w @ rest) \<le> length f" unfolding all by (rule length_dropWhile_le)
  then have less: "length rest < length f" using ne by (cases w) simp_all
  have "length w \<le> 1023" by (simp add: w)
  moreover have "\<forall>c \<in> set w. \<not> is_space c" unfolding w using in_set_takeD set_takeWhileD by fast
  ultimately show ?thesis using ne all less by (intro conjI)
qed

lemma scan_int_shorter: "scan_int f = Some (v, rest) \<Longrightarrow> length rest \<le> length f"
proof -
  assume a: "scan_int f = Some (v, rest)"
  let ?s = "dropWhile is_space f"
  have le: "length ?s \<le> length f" by (rule length_dropWhile_le)
  show ?thesis
  proof (cases ?s)
    case Nil
    then show ?thesis using a unfolding scan_int_def Let_def Nil by simp
  next
    case (Cons c cs)
    then have "rest = dropWhile is_digit cs \<or> rest = dropWhile is_digit ?s"
      using a by (auto simp: scan_int_def Let_def split: if_splits)
    then show ?thesis
      using le Cons length_dropWhile_le [of is_digit cs] length_dropWhile_le [of is_digit ?s] by auto
  qed
qed

lemma scan_d_shorter: "length (snd (scan_d f)) \<le> length f"
  using scan_int_shorter [of f] length_dropWhile_le [of is_space f]
  by (auto simp: scan_d_def split: option.splits list.splits)

lemma config_option_shorter: "length (snd (config_option name f c)) \<le> length f"
  using scan_d_shorter [of f]
  by (auto simp: config_option_def dest!: scan_word_cases split: option.splits option_target.splits prod.splits)

lemma skip_comment_shorter: "length (skip_comment f) \<le> length f"
  using length_dropWhile_le [of is_space "dropWhile (\<lambda>c. c \<noteq> CHR 0x0A) f"]
    length_dropWhile_le [of "\<lambda>c. c \<noteq> CHR 0x0A" f] by (simp add: skip_comment_def)

text \<open>The loop: it ends since each word takes at least a character of the file.\<close>

function config_items :: "bytes \<Rightarrow> config \<Rightarrow> config" where
  "config_items f c =
     (case scan_word f of
        None \<Rightarrow> c
      | Some (name, rest) \<Rightarrow>
          if take 1 name = ''#'' then config_items (skip_comment rest) c
          else config_items (snd (config_option name rest c)) (fst (config_option name rest c)))"
  by pat_completeness auto
termination
proof (relation "measure (\<lambda>(f, c). length f)", simp)
  fix f :: bytes and c :: config and p name rest
  assume "scan_word f = Some p" "(name, rest) = p"
  then have less: "length rest < length f" using scan_word_cases by fastforce
  show "((skip_comment rest, c), f, c) \<in> measure (\<lambda>(f, c). length f)"
    using less skip_comment_shorter [of rest] by simp
  show "((snd (config_option name rest c), fst (config_option name rest c)), f, c) \<in> measure (\<lambda>(f, c). length f)"
    using less config_option_shorter [of name rest c] by simp
qed

declare config_items.simps [simp del]

text \<open>The file system is a parameter: the content of a file that can be opened.\<close>

definition config_read :: "(bytes \<Rightarrow> bytes option) \<Rightarrow> bytes \<Rightarrow> config \<Rightarrow> config \<times> bool" where
  "config_read files stdin c =
     (if filename c \<noteq> [] then
        (case files (filename c) of None \<Rightarrow> (c, False) | Some f \<Rightarrow> (config_items f c, True))
      else (config_items stdin c, True))"

subsection \<open>What is read fits\<close>

definition text_fits :: "bytes \<Rightarrow> bool" where
  "text_fits s \<longleftrightarrow> length s < 1024 \<and> nul_free s"

definition int_fits :: "int \<Rightarrow> bool" where
  "int_fits v \<longleftrightarrow> - (2 ^ 31) \<le> v \<and> v < 2 ^ 31"

definition config_fits :: "config \<Rightarrow> bool" where
  "config_fits c \<longleftrightarrow>
     (\<forall>s \<in> {network_host c, component_password c, component_hostname c, worker_data_file c, acl_data_file c}. text_fits s) \<and>
     (\<forall>v \<in> {network_port c, reader_block c, reader_buffer c, reader_queue c, writer_buffer c, worker_threads c, worker_buffer c,
        worker_deciseconds_limit c, acl_role_by_default c, logger_level c}. int_fits v)"

lemma scan_int_fits: "scan_int f = Some (v, rest) \<Longrightarrow> int_fits v"
  using to_int32_bounds by (auto simp: scan_int_def Let_def int_fits_def split: if_splits prod.splits)

lemma word_fits: "scan_word f = Some (w, rest) \<Longrightarrow> text_fits (c_string w)"
  using scan_word_cases [of f w rest] c_string_length [of w]
  by (auto simp: text_fits_def c_string_def nul_free_def dest: set_takeWhileD)

lemma option_fits:
  assumes "config_fits c" and "map_of config_options name = Some target"
  shows "case target of Text store \<Rightarrow> (\<forall>s. text_fits s \<longrightarrow> config_fits (store s c)) | Number store \<Rightarrow> (\<forall>v. int_fits v \<longrightarrow> config_fits (store v c))"
  using assms by (auto simp: config_options_def config_fits_def split: if_splits)

lemma config_option_fits: "config_fits c \<Longrightarrow> config_fits (fst (config_option name f c))"
  using option_fits [of c "c_string name"] word_fits [of f] scan_int_fits [of f]
  by (auto simp: config_option_def scan_d_def split: option.splits option_target.splits prod.splits)

lemma config_items_fit: "config_fits c \<Longrightarrow> config_fits (config_items f c)"
proof (induction f c rule: config_items.induct)
  case (1 f c)
  show ?case
    using 1 config_option_fits by (subst config_items.simps) (auto split: option.splits)
qed

text \<open>
  Property C28: whatever the configuration file holds, the strings that are read fit into their arrays of 1024
  characters with the terminating null character, and the numbers into \<open>int\<close>; so do the defaults.
\<close>

theorem config_values_fit:
  "config_fits (config_init name) \<and>
   (config_fits c \<longrightarrow> config_fits (fst (config_read files stdin c)))"
  using config_items_fit
  by (auto simp: config_read_def config_init_def config_fits_def text_fits_def int_fits_def nul_free_def split: option.splits)

theorem config_values_fit_witness:
  "config_fits (fst (config_read (\<lambda>_. None) (''network.port 99999999999'' @ [CHR 0x0A]) (config_init None)))"
  using config_values_fit [of None "config_init None" "\<lambda>_. None" "''network.port 99999999999'' @ [CHR 0x0A]"]
    config_values_fit [of None] by blast

subsection \<open>The meaning of a file\<close>

datatype config_line = Comment_Line bytes | Text_Line bytes bytes | Number_Line bytes int

fun print_line :: "config_line \<Rightarrow> bytes" where
  "print_line (Comment_Line t) = ''#'' @ t @ [CHR 0x0A]"
| "print_line (Text_Line name v) = name @ '' '' @ v @ [CHR 0x0A]"
| "print_line (Number_Line name v) = name @ '' '' @ show_int v @ [CHR 0x0A]"

fun line_ok :: "config_line \<Rightarrow> bool" where
  "line_ok (Comment_Line t) = (CHR 0x0A \<notin> set t)"
| "line_ok (Text_Line name v) =
     ((\<exists>store. map_of config_options name = Some (Text store)) \<and>
      v \<noteq> [] \<and> length v \<le> 1023 \<and> nul_free v \<and> (\<forall>c \<in> set v. \<not> is_space c))"
| "line_ok (Number_Line name v) = ((\<exists>store. map_of config_options name = Some (Number store)) \<and> int_fits v)"

fun line_effect :: "config_line \<Rightarrow> config \<Rightarrow> config" where
  "line_effect (Comment_Line t) c = c"
| "line_effect (Text_Line name v) c = (case map_of config_options name of Some (Text store) \<Rightarrow> store v c | _ \<Rightarrow> c)"
| "line_effect (Number_Line name v) c = (case map_of config_options name of Some (Number store) \<Rightarrow> store v c | _ \<Rightarrow> c)"

lemma config_items_space: "config_items (dropWhile is_space f) c = config_items f c"
  by (subst (1 2) config_items.simps) (simp add: scan_word_def dropWhile_idem)

lemma config_items_newline: "config_items (CHR 0x0A # f) c = config_items f c"
  using config_items_space [of "CHR 0x0A # f" c] config_items_space [of f c] by (simp add: is_space_def)

lemma scan_word_print:
  assumes "w \<noteq> []" and "length w \<le> 1023" and "\<forall>c \<in> set w. \<not> is_space c" and "is_space d"
  shows "scan_word (w @ d # rest) = Some (w, d # rest)"
proof -
  have "dropWhile is_space (w @ d # rest) = w @ d # rest" using assms(1,3) by (cases w) auto
  moreover have "takeWhile (\<lambda>c. \<not> is_space c) (w @ d # rest) = w" using assms(3,4) by (simp add: takeWhile_append2)
  ultimately show ?thesis using assms(1,2) by (simp add: scan_word_def Let_def)
qed

lemma scan_word_blank: "scan_word (CHR '' '' # f) = scan_word f"
  by (simp add: scan_word_def is_space_def)

lemma scan_d_print:
  assumes "int_fits v"
  shows "scan_d (CHR '' '' # show_int v @ CHR 0x0A # rest) = (Some v, CHR 0x0A # rest)"
proof -
  have "scan_int (CHR '' '' # f) = scan_int f" for f by (simp add: scan_int_def is_space_def)
  moreover have "scan_int (show_int v @ CHR 0x0A # rest) = Some (v, CHR 0x0A # rest)"
    using assms by (intro scan_int_show) (auto simp: int_fits_def is_digit_def)
  ultimately show ?thesis by (simp add: scan_d_def)
qed

text \<open>The names of the options are words, and no comments.\<close>

lemma option_names:
  assumes "map_of config_options name = Some target"
  shows "name \<noteq> []" "length name \<le> 1023" "\<forall>c \<in> set name. \<not> is_space c" "nul_free name" "take 1 name \<noteq> ''#''"
proof -
  have "name \<in> fst ` set config_options" using map_of_SomeD [OF assms] by force
  then have "name \<noteq> [] \<and> length name \<le> 1023 \<and> (\<forall>c \<in> set name. \<not> is_space c) \<and> nul_free name \<and> take 1 name \<noteq> ''#''"
    by (auto simp: config_options_def is_space_def nul_free_def)
  then show "name \<noteq> []" "length name \<le> 1023" "\<forall>c \<in> set name. \<not> is_space c" "nul_free name" "take 1 name \<noteq> ''#''"
    by simp_all
qed

lemma items_of_comment:
  assumes "CHR 0x0A \<notin> set t"
  shows "config_items (''#'' @ t @ CHR 0x0A # rest) c = config_items rest c"
proof -
  let ?f = "''#'' @ t @ CHR 0x0A # rest"
  have f: "dropWhile is_space ?f = ?f" by (simp add: is_space_def)
  then obtain w r where sw: "scan_word ?f = Some (w, r)" by (simp add: scan_word_def Let_def)
  note w = scan_word_cases [OF sw]
  have ne: "w \<noteq> []" and word: "\<forall>c \<in> set w. \<not> is_space c" and "w @ r = dropWhile is_space ?f"
    using w by blast+
  then have wr: "w @ r = CHR ''#'' # t @ CHR 0x0A # rest" unfolding f by simp
  obtain x v where xv: "w = x # v" using ne by (cases w) simp_all
  then have v: "w = CHR ''#'' # v" "v @ r = t @ CHR 0x0A # rest" using wr by simp_all
  have "is_space (CHR 0x0A)" by (simp add: is_space_def)
  then have "CHR 0x0A \<notin> set v" using word v(1) by (metis list.set_intros(2))
  then obtain u where t: "t = v @ u" and r: "r = u @ CHR 0x0A # rest"
    using v(2) by (auto simp: append_eq_append_conv2 append_eq_Cons_conv Cons_eq_append_conv)
  have "config_items ?f c = config_items (skip_comment r) c" unfolding config_items.simps [of ?f c] sw by (simp add: v(1))
  also have "\<dots> = config_items rest c"
  proof (cases u)
    case Nil
    then show ?thesis by (simp add: r skip_comment_def config_items_newline)
  next
    case (Cons d ds)
    then have "\<forall>c \<in> set u. c \<noteq> CHR 0x0A" using assms t by auto
    then have d: "dropWhile (\<lambda>c. c \<noteq> CHR 0x0A) r = CHR 0x0A # rest" by (simp add: r dropWhile_append2)
    have "r \<noteq> []" "hd r \<noteq> CHR 0x0A" using Cons assms t r by auto
    then have "skip_comment r = dropWhile is_space (CHR 0x0A # rest)" unfolding skip_comment_def d by simp
    then show ?thesis by (simp only: config_items_space config_items_newline)
  qed
  finally show ?thesis .
qed

lemma items_of_line:
  assumes "line_ok l"
  shows "config_items (print_line l @ rest) c = config_items rest (line_effect l c)"
proof (cases l)
  case (Comment_Line t)
  then show ?thesis using items_of_comment assms by simp
next
  case (Text_Line name v)
  then obtain store where s: "map_of config_options name = Some (Text store)" and v: "v \<noteq> []" "length v \<le> 1023" "nul_free v"
    "\<forall>c \<in> set v. \<not> is_space c" using assms by auto
  note n = option_names [OF s]
  have "scan_word (name @ CHR '' '' # v @ CHR 0x0A # rest) = Some (name, CHR '' '' # v @ CHR 0x0A # rest)"
    using n by (intro scan_word_print) (simp_all add: is_space_def)
  moreover have "scan_word (v @ CHR 0x0A # rest) = Some (v, CHR 0x0A # rest)"
    using v by (intro scan_word_print) (simp_all add: is_space_def)
  ultimately show ?thesis
    using n(4,5) v(3) s by (subst config_items.simps)
      (simp add: Text_Line config_option_def c_string_id scan_word_blank config_items_newline)
next
  case (Number_Line name v)
  then obtain store where s: "map_of config_options name = Some (Number store)" and v: "int_fits v" using assms by auto
  note n = option_names [OF s]
  have "scan_word (name @ CHR '' '' # show_int v @ CHR 0x0A # rest) = Some (name, CHR '' '' # show_int v @ CHR 0x0A # rest)"
    using n by (intro scan_word_print) (simp_all add: is_space_def)
  then show ?thesis
    using n(4,5) s by (subst config_items.simps)
      (simp add: Number_Line config_option_def c_string_id scan_d_print [OF v] config_items_newline)
qed

lemma items_of_lines:
  "\<forall>l \<in> set ls. line_ok l \<Longrightarrow> config_items (concat (map print_line ls)) c = fold line_effect ls c"
proof (induction ls arbitrary: c)
  case Nil
  show ?case by (subst config_items.simps) (simp add: scan_word_def)
qed (simp add: items_of_line)

text \<open>
  Property C27: a file of lines, each of them a comment or the name of an option and a value of its type, sets exactly
  these options, in order, and leaves the others as they were.
\<close>

theorem config_file_is_read:
  assumes "\<forall>l \<in> set ls. line_ok l" and "files name = Some (concat (map print_line ls))" and "filename c = name" and "name \<noteq> []"
  shows "config_read files stdin c = (fold line_effect ls c, True)"
  using items_of_lines [OF assms(1)] assms(2-4) by (simp add: config_read_def)

definition example_lines :: "config_line list" where
  "example_lines = [Comment_Line ''# Network settings.'', Text_Line ''network.host'' ''localhost'', Comment_Line [],
     Number_Line ''network.port'' 8888, Number_Line ''acl.default_role'' (-1)]"

theorem config_file_is_read_witness:
  "config_read [''m.conf'' \<mapsto> concat (map print_line example_lines)] [] (config_init (Some ''m.conf'')) =
    ((config_init (Some ''m.conf''))\<lparr>network_host := ''localhost'', network_port := 8888, acl_role_by_default := -1\<rparr>, True)"
proof -
  have opts: "map_of config_options ''network.host'' = Some (Text (\<lambda>v. network_host_update (\<lambda>_. v)))"
    "map_of config_options ''network.port'' = Some (Number (\<lambda>v. network_port_update (\<lambda>_. v)))"
    "map_of config_options ''acl.default_role'' = Some (Number (\<lambda>v. acl_role_by_default_update (\<lambda>_. v)))"
    by (simp_all add: config_options_def)
  have ok: "\<forall>l \<in> set example_lines. line_ok l"
    by (simp add: example_lines_def opts nul_free_def is_space_def int_fits_def)
  have name: "filename (config_init (Some ''m.conf'')) = ''m.conf''" by (simp add: config_init_def)
  have "fold line_effect example_lines c = c\<lparr>network_host := ''localhost'', network_port := 8888, acl_role_by_default := -1\<rparr>" for c
    by (simp add: example_lines_def opts)
  then show ?thesis
    unfolding config_file_is_read [OF ok fun_upd_same name list.distinct(2)] by (simp only:)
qed

end
