(* ===== verification/Sha1.thy ===== *)
theory Sha1
  imports Prelude
begin

unbundle bit_operations_syntax

text \<open>
  The SHA-1 of the repository (\<^verbatim>\<open>xmcomp/sha1/sha1.c\<close>), which the handshake with the server
  uses, and the standard it implements (FIPS 180-1). An \<open>unsigned\<close> is a 32-bit word, an
  \<open>unsigned char\<close> an 8-bit word.
\<close>

subsection \<open>The code\<close>

record sha1_context =
  Message_Digest :: "32 word list"
  Length_Low :: "32 word"
  Length_High :: "32 word"
  Message_Block :: "8 word list"
  Message_Block_Index :: nat
  Computed :: bool
  Corrupted :: bool

definition SHA1CircularShift :: "nat \<Rightarrow> 32 word \<Rightarrow> 32 word" where
  "SHA1CircularShift bits w = push_bit bits w OR drop_bit (32 - bits) w"

text \<open>The block and the digest are arrays: what was in them before is an argument.\<close>

definition SHA1Reset :: "sha1_context \<Rightarrow> sha1_context" where
  "SHA1Reset c =
     c\<lparr>Length_Low := 0, Length_High := 0, Message_Block_Index := 0,
       Message_Digest := [0x67452301, 0xEFCDAB89, 0x98BADCFE, 0x10325476, 0xC3D2E1F0],
       Computed := False, Corrupted := False\<rparr>"

text \<open>The word sequence: sixteen words of the block, and sixty-four more.\<close>

definition sha1_word :: "8 word list \<Rightarrow> nat \<Rightarrow> 32 word" where
  "sha1_word block t =
     push_bit 24 (ucast (block ! (t * 4))) OR push_bit 16 (ucast (block ! (t * 4 + 1))) OR
     push_bit 8 (ucast (block ! (t * 4 + 2))) OR ucast (block ! (t * 4 + 3))"

definition sha1_extend :: "nat \<Rightarrow> 32 word list \<Rightarrow> 32 word list" where
  "sha1_extend t W = W @ [SHA1CircularShift 1 (W ! (t - 3) XOR W ! (t - 8) XOR W ! (t - 14) XOR W ! (t - 16))]"

definition sha1_words :: "8 word list \<Rightarrow> 32 word list" where
  "sha1_words block = fold sha1_extend [16..<80] (map (sha1_word block) [0..<16])"

type_synonym sha1_vars = "32 word \<times> 32 word \<times> 32 word \<times> 32 word \<times> 32 word"

definition sha1_rounds ::
  "(32 word \<Rightarrow> 32 word \<Rightarrow> 32 word \<Rightarrow> 32 word) \<Rightarrow> 32 word \<Rightarrow> 32 word list \<Rightarrow> sha1_vars \<Rightarrow> sha1_vars" where
  "sha1_rounds f k =
     fold (\<lambda>w (A, B, C, D, E). (SHA1CircularShift 5 A + f B C D + E + w + k, A, SHA1CircularShift 30 B, C, D))"

definition SHA1ProcessMessageBlock :: "sha1_context \<Rightarrow> sha1_context" where
  "SHA1ProcessMessageBlock c =
     (let W = sha1_words (Message_Block c);
          H = Message_Digest c;
          v0 = (H ! 0, H ! 1, H ! 2, H ! 3, H ! 4);
          v1 = sha1_rounds (\<lambda>B C D. (B AND C) OR (NOT B AND D)) 0x5A827999 (take 20 W) v0;
          v2 = sha1_rounds (\<lambda>B C D. B XOR C XOR D) 0x6ED9EBA1 (take 20 (drop 20 W)) v1;
          v3 = sha1_rounds (\<lambda>B C D. (B AND C) OR (B AND D) OR (C AND D)) 0x8F1BBCDC (take 20 (drop 40 W)) v2;
          (A, B, C, D, E) = sha1_rounds (\<lambda>B C D. B XOR C XOR D) 0xCA62C1D6 (drop 60 W) v3
      in c\<lparr>Message_Digest := [H ! 0 + A, H ! 1 + B, H ! 2 + C, H ! 3 + D, H ! 4 + E], Message_Block_Index := 0\<rparr>)"

definition store_byte :: "8 word \<Rightarrow> sha1_context \<Rightarrow> sha1_context" where
  "store_byte b c =
     c\<lparr>Message_Block := (Message_Block c)[Message_Block_Index c := b],
       Message_Block_Index := Message_Block_Index c + 1\<rparr>"

text \<open>The body of the loop of \<open>SHA1Input\<close>: the 64-bit count of bits is kept in two words.\<close>

definition sha1_count :: "sha1_context \<Rightarrow> sha1_context" where
  "sha1_count c =
     (let low = Length_Low c + 8; c1 = c\<lparr>Length_Low := low\<rparr> in
      if low = 0 then
        let high = Length_High c + 1 in
        c1\<lparr>Length_High := high, Corrupted := (if high = 0 then True else Corrupted c)\<rparr>
      else c1)"

definition sha1_byte :: "8 word \<Rightarrow> sha1_context \<Rightarrow> sha1_context" where
  "sha1_byte b c =
     (let c1 = sha1_count (store_byte b c) in
      if Message_Block_Index c1 = 64 then SHA1ProcessMessageBlock c1 else c1)"

fun sha1_bytes :: "8 word list \<Rightarrow> sha1_context \<Rightarrow> sha1_context" where
  "sha1_bytes [] c = c"
| "sha1_bytes (b # bs) c = (if Corrupted c then c else sha1_bytes bs (sha1_byte b c))"

definition SHA1Input :: "8 word list \<Rightarrow> sha1_context \<Rightarrow> sha1_context" where
  "SHA1Input message c =
     (if message = [] then c
      else if Computed c \<or> Corrupted c then c\<lparr>Corrupted := True\<rparr>
      else sha1_bytes message c)"

text \<open>\<open>while (Message_Block_Index < n) Message_Block[Message_Block_Index++] = 0\<close>\<close>

function zero_until :: "nat \<Rightarrow> sha1_context \<Rightarrow> sha1_context" where
  "zero_until n c = (if Message_Block_Index c < n then zero_until n (store_byte 0 c) else c)"
  by pat_completeness auto
termination by (relation "measure (\<lambda>(n, c). n - Message_Block_Index c)") (auto simp: store_byte_def)

declare zero_until.simps [simp del]

definition word_octets :: "32 word \<Rightarrow> 8 word list" where
  "word_octets w = [ucast (drop_bit 24 w), ucast (drop_bit 16 w), ucast (drop_bit 8 w), ucast w]"

definition SHA1PadMessage :: "sha1_context \<Rightarrow> sha1_context" where
  "SHA1PadMessage c =
     (let c1 =
        (if Message_Block_Index c > 55
         then zero_until 56 (SHA1ProcessMessageBlock (zero_until 64 (store_byte 0x80 c)))
         else zero_until 56 (store_byte 0x80 c));
        c2 = c1\<lparr>Message_Block := take 56 (Message_Block c1) @ word_octets (Length_High c1) @ word_octets (Length_Low c1) @
                  drop 64 (Message_Block c1)\<rparr>
      in SHA1ProcessMessageBlock c2)"

definition SHA1Result :: "sha1_context \<Rightarrow> sha1_context \<times> bool" where
  "SHA1Result c =
     (if Corrupted c then (c, False)
      else if Computed c then (c, True)
      else ((SHA1PadMessage c)\<lparr>Computed := True\<rparr>, True))"

subsection \<open>The standard\<close>

definition fips_word :: "8 word \<Rightarrow> 8 word \<Rightarrow> 8 word \<Rightarrow> 8 word \<Rightarrow> 32 word" where
  "fips_word a b c d = word_cat (word_cat a b :: 16 word) (word_cat c d :: 16 word)"

text \<open>The word sequence of a block, by recursion.\<close>

fun fips_W :: "8 word list \<Rightarrow> nat \<Rightarrow> 32 word" where
  "fips_W M t =
     (if t < 16 then fips_word (M ! (4 * t)) (M ! (4 * t + 1)) (M ! (4 * t + 2)) (M ! (4 * t + 3))
      else word_rotl 1 (fips_W M (t - 3) XOR fips_W M (t - 8) XOR fips_W M (t - 14) XOR fips_W M (t - 16)))"

declare fips_W.simps [simp del]

definition fips_f :: "nat \<Rightarrow> 32 word \<Rightarrow> 32 word \<Rightarrow> 32 word \<Rightarrow> 32 word" where
  "fips_f t B C D =
     (if t < 20 then (B AND C) OR (NOT B AND D)
      else if t < 40 then B XOR C XOR D
      else if t < 60 then (B AND C) OR (B AND D) OR (C AND D)
      else B XOR C XOR D)"

definition fips_K :: "nat \<Rightarrow> 32 word" where
  "fips_K t = (if t < 20 then 0x5A827999 else if t < 40 then 0x6ED9EBA1 else if t < 60 then 0x8F1BBCDC else 0xCA62C1D6)"

fun fips_step :: "8 word list \<Rightarrow> nat \<Rightarrow> sha1_vars \<Rightarrow> sha1_vars" where
  "fips_step M t (A, B, C, D, E) =
     (word_rotl 5 A + fips_f t B C D + E + fips_W M t + fips_K t, A, word_rotl 30 B, C, D)"

fun fips_add :: "sha1_vars \<Rightarrow> sha1_vars \<Rightarrow> sha1_vars" where
  "fips_add (a, b, c, d, e) (A, B, C, D, E) = (a + A, b + B, c + C, d + D, e + E)"

definition fips_block :: "sha1_vars \<Rightarrow> 8 word list \<Rightarrow> sha1_vars" where
  "fips_block H M = fips_add H (fold (fips_step M) [0..<80] H)"

text \<open>The blocks of 64 octets, one after the other.\<close>

function fips_hash :: "sha1_vars \<Rightarrow> 8 word list \<Rightarrow> sha1_vars" where
  "fips_hash H bs = (if length bs < 64 then H else fips_hash (fips_block H (take 64 bs)) (drop 64 bs))"
  by pat_completeness auto
termination by (relation "measure (\<lambda>(H, bs). length bs)") auto

declare fips_hash.simps [simp del]

text \<open>A one, zeros up to eight octets before the end of a block, and the number of bits.\<close>

definition fips_pad :: "8 word list \<Rightarrow> 8 word list" where
  "fips_pad m =
     m @ [0x80] @ replicate ((119 - length m mod 64) mod 64) 0 @
     word_octets (word_of_nat (8 * length m div 2 ^ 32)) @ word_octets (word_of_nat (8 * length m))"

definition fips_sha1 :: "8 word list \<Rightarrow> sha1_vars" where
  "fips_sha1 m = fips_hash (0x67452301, 0xEFCDAB89, 0x98BADCFE, 0x10325476, 0xC3D2E1F0) (fips_pad m)"

subsection \<open>A block\<close>

lemma shift_is_rotation: "n < 32 \<Longrightarrow> SHA1CircularShift n w = word_rotl n w"
proof (rule bit_word_eqI)
  fix k
  assume n: "n < 32" and "k < LENGTH(32)"
  then have k: "k < 32" by simp
  have high: "\<not> bit w j" if "32 \<le> j" for j using bit_imp_le_length [of w j] that by auto
  have rot: "bit (word_rotl n w) k \<longleftrightarrow> bit w ((k + (32 - n)) mod 32)" using n k by (simp add: bit_word_rotl_iff)
  have shift: "bit (SHA1CircularShift n w) k \<longleftrightarrow> n \<le> k \<and> bit w (k - n) \<or> bit w (k + (32 - n))"
    using k by (simp add: SHA1CircularShift_def bit_or_iff bit_push_bit_iff bit_drop_bit_eq add.commute)
  show "bit (SHA1CircularShift n w) k \<longleftrightarrow> bit (word_rotl n w) k"
  proof (cases "n \<le> k")
    case True
    then have "(k + (32 - n)) mod 32 = k - n" using n k by (simp add: mod_if)
    then show ?thesis using rot shift high [of "k + (32 - n)"] True n by simp
  next
    case False
    then have "k + (32 - n) < 32" using n by linarith
    then have "(k + (32 - n)) mod 32 = k + (32 - n)" by (rule mod_less)
    then show ?thesis using rot shift False by (simp only: simp_thms)
  qed
qed

lemma sha1_word_fips: "sha1_word M t = fips_word (M ! (4 * t)) (M ! (4 * t + 1)) (M ! (4 * t + 2)) (M ! (4 * t + 3))"
proof (rule bit_word_eqI)
  fix k
  assume "k < LENGTH(32)"
  then have k: "k < 32" by simp
  have h: "\<not> bit (w :: 8 word) j" if "8 \<le> j" for w j using bit_imp_le_length [of w j] that by auto
  show "bit (sha1_word M t) k \<longleftrightarrow> bit (fips_word (M ! (4 * t)) (M ! (4 * t + 1)) (M ! (4 * t + 2)) (M ! (4 * t + 3))) k"
    using k h
    by (auto simp: sha1_word_def fips_word_def bit_or_iff bit_push_bit_iff bit_ucast_iff bit_word_cat_iff mult.commute)
qed

lemma sha1_words_fips: "sha1_words M = map (fips_W M) [0..<80]"
proof -
  have "fold sha1_extend [16..<16 + n] (map (sha1_word M) [0..<16]) = map (fips_W M) [0..<16 + n]" for n
  proof (induction n)
    case 0
    show ?case by (simp add: sha1_word_fips fips_W.simps)
  next
    case (Suc n)
    have "sha1_extend (16 + n) (map (fips_W M) [0..<16 + n]) = map (fips_W M) [0..<16 + n] @ [fips_W M (16 + n)]"
      by (subst fips_W.simps [of M "16 + n"]) (simp add: sha1_extend_def shift_is_rotation)
    then show ?case
      using Suc by (simp only: add_Suc_right upt_Suc_append [OF le_add1] upt_Suc_append [OF le0] fold_append o_apply
        map_append list.map fold_simps id_apply)
  qed
  from this [of 64] show ?thesis by (simp add: sha1_words_def)
qed

lemma sha1_rounds_fips:
  assumes "\<And>t B C D. a \<le> t \<Longrightarrow> t < b \<Longrightarrow> f B C D = fips_f t B C D" and "\<And>t. a \<le> t \<Longrightarrow> t < b \<Longrightarrow> k = fips_K t"
  shows "sha1_rounds f k (map (fips_W M) [a..<b]) v = fold (fips_step M) [a..<b] v"
  unfolding sha1_rounds_def fold_map
  by (rule fold_cong) (use assms in \<open>auto simp: fun_eq_iff shift_is_rotation\<close>)

fun digest_list :: "sha1_vars \<Rightarrow> 32 word list" where
  "digest_list (a, b, c, d, e) = [a, b, c, d, e]"

lemma process_block:
  assumes "Message_Digest c = digest_list H"
  shows "SHA1ProcessMessageBlock c =
    c\<lparr>Message_Digest := digest_list (fips_block H (Message_Block c)), Message_Block_Index := 0\<rparr>"
proof -
  let ?M = "Message_Block c" and ?W = "sha1_words (Message_Block c)"
  obtain a b c' d e where H: "H = (a, b, c', d, e)" by (cases H)
  have cut: "take 20 ?W = map (fips_W ?M) [0..<20]" "take 20 (drop 20 ?W) = map (fips_W ?M) [20..<40]"
    "take 20 (drop 40 ?W) = map (fips_W ?M) [40..<60]" "drop 60 ?W = map (fips_W ?M) [60..<80]"
    by (simp_all add: sha1_words_fips take_map drop_map take_upt drop_upt del: upt_rec_numeral)
  have r: "sha1_rounds (\<lambda>B C D. (B AND C) OR (NOT B AND D)) 0x5A827999 (map (fips_W ?M) [0..<20]) v = fold (fips_step ?M) [0..<20] v"
    "sha1_rounds (\<lambda>B C D. B XOR C XOR D) 0x6ED9EBA1 (map (fips_W ?M) [20..<40]) v = fold (fips_step ?M) [20..<40] v"
    "sha1_rounds (\<lambda>B C D. (B AND C) OR (B AND D) OR (C AND D)) 0x8F1BBCDC (map (fips_W ?M) [40..<60]) v = fold (fips_step ?M) [40..<60] v"
    "sha1_rounds (\<lambda>B C D. B XOR C XOR D) 0xCA62C1D6 (map (fips_W ?M) [60..<80]) v = fold (fips_step ?M) [60..<80] v" for v
    by (rule sha1_rounds_fips; simp add: fips_f_def fips_K_def)+
  have all: "fold (fips_step ?M) [60..<80] (fold (fips_step ?M) [40..<60] (fold (fips_step ?M) [20..<40] (fold (fips_step ?M) [0..<20] H))) =
      fold (fips_step ?M) [0..<80] H"
  proof -
    have "[0..<80] = [0..<20] @ [20..<40] @ [40..<60] @ [60..<80]"
      using upt_add_eq_append [of 0 20 60] upt_add_eq_append [of 20 40 40] upt_add_eq_append [of 40 60 20]
      by (simp del: upt_rec_numeral)
    then show ?thesis by (simp only: fold_append o_apply)
  qed
  show ?thesis
    unfolding SHA1ProcessMessageBlock_def Let_def cut r
    by (simp add: assms H all [unfolded H] fips_block_def del: upt_rec_numeral split: prod.split)
qed

subsection \<open>A message in pieces\<close>

definition sha1_start :: sha1_vars where
  "sha1_start = (0x67452301, 0xEFCDAB89, 0x98BADCFE, 0x10325476, 0xC3D2E1F0)"

lemma fips_hash_append:
  "64 dvd length xs \<Longrightarrow> fips_hash H (xs @ ys) = fips_hash (fips_hash H xs) ys"
proof (induction H xs rule: fips_hash.induct)
  case (1 H xs)
  show ?case
  proof (cases "length xs < 64")
    case True
    then have "xs = []" using 1(2) by (auto elim!: dvdE)
    then show ?thesis by (simp add: fips_hash.simps [of H "[]"])
  next
    case False
    then have "64 dvd length (drop 64 xs)" using 1(2) by (simp add: dvd_diff_nat)
    then show ?thesis
      using 1(1) [OF False] False by (simp add: fips_hash.simps [of H "xs @ ys"] fips_hash.simps [of H xs])
  qed
qed

lemma fips_hash_block: "length b = 64 \<Longrightarrow> fips_hash H b = fips_block H b"
  by (subst fips_hash.simps) (simp add: fips_hash.simps [of _ "[]"])

text \<open>What the context holds when the octets \<open>m\<close> were fed to it.\<close>

definition sha1_holds :: "sha1_context \<Rightarrow> 8 word list \<Rightarrow> bool" where
  "sha1_holds c m \<longleftrightarrow>
     length (Message_Block c) = 64 \<and> Message_Block_Index c < 64 \<and> \<not> Computed c \<and> \<not> Corrupted c \<and>
     (\<exists>xs. m = xs @ take (Message_Block_Index c) (Message_Block c) \<and> 64 dvd length xs \<and>
        Message_Digest c = digest_list (fips_hash sha1_start xs)) \<and>
     unat (Length_High c) * 2 ^ 32 + unat (Length_Low c) = 8 * length m"

lemma reset_holds: "length (Message_Block c) = 64 \<Longrightarrow> sha1_holds (SHA1Reset c) []"
  by (simp add: sha1_holds_def SHA1Reset_def sha1_start_def fips_hash.simps [of _ "[]"])

lemma count_carries:
  fixes low high :: "32 word"
  assumes "unat high * 2 ^ 32 + unat low = 8 * n" and "8 * Suc n < 2 ^ 64"
  shows "unat (if low + 8 = 0 then high + 1 else high) * 2 ^ 32 + unat (low + 8) = 8 * Suc n"
    and "low + 8 = 0 \<Longrightarrow> high + 1 \<noteq> 0"
proof -
  let ?l = "unat low" and ?h = "unat high"
  have l: "?l < 2 ^ 32" using unsigned_less [of low] by simp
  have "8 dvd ?h * 2 ^ 32 + ?l" using assms(1) by simp
  then have "8 dvd ?l" by (simp add: dvd_add_right_iff)
  then obtain j where j: "?l = 8 * j" by (auto elim: dvdE)
  then have l8: "?l + 8 \<le> 2 ^ 32" using l by simp
  have sum: "unat (low + 8) = (?l + 8) mod 2 ^ 32" by (simp add: unat_word_ariths)
  have zero: "low + 8 = 0 \<longleftrightarrow> ?l + 8 = 2 ^ 32"
  proof -
    have "low + 8 = 0 \<longleftrightarrow> unat (low + 8) = 0" by (simp add: unat_eq_0)
    also have "\<dots> \<longleftrightarrow> ?l + 8 = 2 ^ 32" unfolding sum using l8 by (cases "?l + 8 = 2 ^ 32") simp_all
    finally show ?thesis .
  qed
  have high: "unat (high + 1) = ?h + 1 \<and> ?h + 1 < 2 ^ 32" if "low + 8 = 0"
  proof -
    have "(?h + 1) * 2 ^ 32 < 2 ^ 32 * 2 ^ 32" using assms zero that by simp
    then have "?h + 1 < 2 ^ 32" by (simp only: mult_less_cancel2)
    then show ?thesis by (simp add: unat_word_ariths)
  qed
  show "unat (if low + 8 = 0 then high + 1 else high) * 2 ^ 32 + unat (low + 8) = 8 * Suc n"
  proof (cases "low + 8 = 0")
    case True
    then show ?thesis using high zero assms(1) by simp
  next
    case False
    then have "?l + 8 < 2 ^ 32" using zero l8 by simp
    then show ?thesis using False assms(1) sum by simp
  qed
  show "low + 8 = 0 \<Longrightarrow> high + 1 \<noteq> 0" using high by auto
qed

lemma take_store:
  "i < length xs \<Longrightarrow> take (Suc i) (xs[i := b]) = take i xs @ [b]"
  by (simp add: take_Suc_conv_app_nth)

lemma byte_holds:
  assumes "sha1_holds c m" and "8 * Suc (length m) < 2 ^ 64"
  shows "sha1_holds (sha1_byte b c) (m @ [b])"
proof -
  obtain xs where c: "length (Message_Block c) = 64" "Message_Block_Index c < 64" "\<not> Computed c" "\<not> Corrupted c"
    "m = xs @ take (Message_Block_Index c) (Message_Block c)" "64 dvd length xs"
    "Message_Digest c = digest_list (fips_hash sha1_start xs)"
    "unat (Length_High c) * 2 ^ 32 + unat (Length_Low c) = 8 * length m"
    using assms(1) by (auto simp: sha1_holds_def)
  let ?i = "Message_Block_Index c" and ?block = "(Message_Block c)[Message_Block_Index c := b]"
  let ?low = "Length_Low c + 8" and ?high = "if Length_Low c + 8 = 0 then Length_High c + 1 else Length_High c"
  let ?c1 = "c\<lparr>Message_Block := ?block, Message_Block_Index := ?i + 1, Length_Low := ?low, Length_High := ?high\<rparr>"
  note n = count_carries [OF c(8) assms(2)]
  have c1: "sha1_count (store_byte b c) = ?c1"
    using n(2) c(4) by (auto simp: sha1_count_def store_byte_def Let_def)
  have tk: "take (Suc ?i) ?block = take ?i (Message_Block c) @ [b]" using c(1,2) by (intro take_store) simp
  show ?thesis
  proof (cases "?i + 1 = 64")
    case False
    then have "sha1_byte b c = ?c1" by (simp add: sha1_byte_def c1)
    then show ?thesis
      unfolding sha1_holds_def using c tk n(1) False by (intro conjI exI [of _ xs]) auto
  next
    case True
    have "Message_Digest ?c1 = digest_list (fips_hash sha1_start xs)" by (simp add: c(7))
    from process_block [OF this] have s: "sha1_byte b c =
        ?c1\<lparr>Message_Digest := digest_list (fips_block (fips_hash sha1_start xs) ?block), Message_Block_Index := 0\<rparr>"
      using True by (simp add: sha1_byte_def c1)
    have block: "m @ [b] = xs @ ?block" using tk True c(1,5) by simp
    have "fips_hash sha1_start (xs @ ?block) = fips_block (fips_hash sha1_start xs) ?block"
      using fips_hash_append [OF c(6)] fips_hash_block [of ?block] c(1) by simp
    then have "Message_Digest (sha1_byte b c) = digest_list (fips_hash sha1_start (m @ [b]))" by (simp add: s block)
    moreover have "64 dvd length (m @ [b])" unfolding block length_append length_list_update c(1) using c(6) by simp
    moreover have "m @ [b] = (m @ [b]) @ take (Message_Block_Index (sha1_byte b c)) (Message_Block (sha1_byte b c))" by (simp add: s)
    ultimately have "\<exists>ys. m @ [b] = ys @ take (Message_Block_Index (sha1_byte b c)) (Message_Block (sha1_byte b c)) \<and>
        64 dvd length ys \<and> Message_Digest (sha1_byte b c) = digest_list (fips_hash sha1_start ys)" by blast
    moreover have "unat (Length_High (sha1_byte b c)) * 2 ^ 32 + unat (Length_Low (sha1_byte b c)) = 8 * length (m @ [b])"
      using n(1) by (simp add: s)
    ultimately show ?thesis
      unfolding sha1_holds_def using c(1,3,4) by (simp add: s)
  qed
qed

lemma bytes_hold:
  "sha1_holds c m \<Longrightarrow> 8 * (length m + length bs) < 2 ^ 64 \<Longrightarrow> sha1_holds (sha1_bytes bs c) (m @ bs)"
proof (induction bs arbitrary: c m)
  case (Cons b bs)
  have "\<not> Corrupted c" using Cons.prems(1) by (simp add: sha1_holds_def)
  moreover have "sha1_holds (sha1_bytes bs (sha1_byte b c)) ((m @ [b]) @ bs)"
    using Cons.prems byte_holds [OF Cons.prems(1)] by (intro Cons.IH) simp_all
  ultimately show ?case by simp
qed simp

lemma input_holds:
  "sha1_holds c m \<Longrightarrow> 8 * (length m + length bs) < 2 ^ 64 \<Longrightarrow> sha1_holds (SHA1Input bs c) (m @ bs)"
  using bytes_hold by (auto simp: SHA1Input_def sha1_holds_def)

subsection \<open>The end of the message\<close>

lemma zero_until_effect:
  "Message_Block_Index c \<le> n \<Longrightarrow> n \<le> length (Message_Block c) \<Longrightarrow>
   zero_until n c = c\<lparr>Message_Block := take (Message_Block_Index c) (Message_Block c) @
       replicate (n - Message_Block_Index c) 0 @ drop n (Message_Block c), Message_Block_Index := n\<rparr>"
proof (induction n c rule: zero_until.induct)
  case (1 n c)
  let ?i = "Message_Block_Index c" and ?b = "Message_Block c"
  show ?case
  proof (cases "?i < n")
    case True
    have "zero_until n (store_byte 0 c) = c\<lparr>Message_Block := take (Suc ?i) (?b[?i := 0]) @ replicate (n - Suc ?i) 0 @ drop n ?b,
        Message_Block_Index := n\<rparr>"
      using 1(1) [OF True] 1(3) True by (simp add: store_byte_def)
    moreover have "take (Suc ?i) (?b[?i := 0]) = take ?i ?b @ [0]" using True 1(3) by (intro take_store) simp
    moreover have "replicate (n - ?i) (0 :: 8 word) = 0 # replicate (n - Suc ?i) 0"
      using True by (metis Suc_diff_Suc replicate_Suc)
    ultimately show ?thesis using True by (subst zero_until.simps) simp
  next
    case False
    then show ?thesis using 1(2) by (subst zero_until.simps) simp
  qed
qed

lemma length_octets:
  assumes "unat (high :: 32 word) * 2 ^ 32 + unat (low :: 32 word) = n"
  shows "word_of_nat (n div 2 ^ 32) = high" and "word_of_nat n = low"
proof -
  have "unat low < 2 ^ 32" using unsigned_less [of low] by simp
  then have "n div 2 ^ 32 = unat high" using assms by auto
  then show "word_of_nat (n div 2 ^ 32) = high" by simp
  have "(word_of_nat n :: 32 word) = word_of_nat (unat high) * word_of_nat (2 ^ 32) + word_of_nat (unat low)"
    unfolding assms [symmetric] by (simp only: of_nat_add of_nat_mult)
  moreover have "(word_of_nat (2 ^ 32) :: 32 word) = 0" by (simp only: word_of_nat_eq_0_iff) simp
  ultimately show "word_of_nat n = low" by (simp only: mult_zero_right add_0_left of_nat_unat ucast_id)
qed

lemma pad_holds:
  assumes "sha1_holds c m"
  shows "Message_Digest (SHA1PadMessage c) = digest_list (fips_sha1 m)"
proof -
  define i where "i = Message_Block_Index c"
  define b where "b = Message_Block c"
  define L where "L = word_octets (Length_High c) @ word_octets (Length_Low c)"
  obtain xs where c: "length b = 64" "i < 64" "m = xs @ take i b" "64 dvd length xs"
    "Message_Digest c = digest_list (fips_hash sha1_start xs)"
    "unat (Length_High c) * 2 ^ 32 + unat (Length_Low c) = 8 * length m"
    using assms by (auto simp: sha1_holds_def i_def b_def)
  have mod: "length m mod 64 = i" using c(1-4) by (auto simp: min_def elim!: dvdE)
  have L: "length L = 8" by (simp add: L_def word_octets_def)
  have pad: "fips_pad m = m @ [0x80] @ replicate ((119 - i) mod 64) 0 @ L"
    using length_octets [OF c(6)] by (simp add: fips_pad_def mod L_def)
  let ?c0 = "store_byte 0x80 c"
  have tk: "take (Suc i) (b[i := 0x80]) = take i b @ [0x80]" using c(1,2) by (intro take_store) simp
  have c0: "Message_Block_Index ?c0 = Suc i" "Message_Block ?c0 = b[i := 0x80]" "Message_Digest ?c0 = Message_Digest c"
    "Length_High ?c0 = Length_High c" "Length_Low ?c0 = Length_Low c"
    by (simp_all add: store_byte_def i_def b_def)
  have final: "Message_Digest (SHA1ProcessMessageBlock d) = digest_list (fips_hash sha1_start (ys @ B))"
    if "Message_Digest d = digest_list (fips_hash sha1_start ys)" "64 dvd length ys" "Message_Block d = B" "length B = 64" for d ys B
    using that by (simp add: process_block [OF that(1)] fips_hash_append fips_hash_block)
  show ?thesis
  proof (cases "i > 55")
    case False
    let ?B = "take i b @ [0x80] @ replicate (55 - i) 0 @ L"
    have z: "zero_until 56 ?c0 = ?c0\<lparr>Message_Block := (take i b @ [0x80]) @ replicate (55 - i) 0 @ drop 56 (b[i := 0x80]),
        Message_Block_Index := 56\<rparr>"
      using zero_until_effect [of ?c0 56] False c(1) tk by (simp add: c0)
    have "56 - i = Suc (55 - i)" using False by simp
    then have cut: "take (56 - i) (0x80 # replicate (55 - i) (0 :: 8 word) @ zs) = 0x80 # replicate (55 - i) 0" for zs by simp
    have "119 - i = (55 - i) + 64" using False by simp
    then have "(119 - i) mod 64 = 55 - i" by (simp only: mod_add_self2) simp
    then have "fips_pad m = xs @ ?B" using pad c(3) by simp
    moreover have "Message_Digest (SHA1PadMessage c) = digest_list (fips_hash sha1_start (xs @ ?B))"
      unfolding SHA1PadMessage_def Let_def
      by (rule final [OF _ c(4)]) (use False c(1,2,5) L cut in \<open>simp_all add: z c0 i_def [symmetric] L_def\<close>)
    ultimately show ?thesis by (simp add: fips_sha1_def sha1_start_def)
  next
    case True
    define B1 where "B1 = take i b @ [0x80] @ replicate (63 - i) 0"
    let ?B2 = "replicate 56 0 @ L"
    have len: "length B1 = 64" "64 dvd length (xs @ B1)" using c(1,2,4) True by (simp_all add: B1_def)
    have z: "zero_until 64 ?c0 = ?c0\<lparr>Message_Block := B1, Message_Block_Index := 64\<rparr>"
      using zero_until_effect [of ?c0 64] c(1,2) tk by (simp add: c0 B1_def)
    define c1 where "c1 = SHA1ProcessMessageBlock (?c0\<lparr>Message_Block := B1, Message_Block_Index := 64\<rparr>)"
    have d1: "Message_Digest c1 = digest_list (fips_hash sha1_start (xs @ B1))"
      unfolding c1_def by (rule final [OF _ c(4)]) (use c(5) len in \<open>simp_all add: c0\<close>)
    have c1: "Message_Block c1 = B1" "Message_Block_Index c1 = 0" "Length_High c1 = Length_High c" "Length_Low c1 = Length_Low c"
      using process_block [of "?c0\<lparr>Message_Block := B1, Message_Block_Index := 64\<rparr>" "fips_hash sha1_start xs"] c(5)
      by (simp_all add: c0 c1_def)
    have z2: "zero_until 56 c1 = c1\<lparr>Message_Block := replicate 56 0 @ drop 56 B1, Message_Block_Index := 56\<rparr>"
      using zero_until_effect [of c1 56] len(1) by (simp add: c1)
    have "(119 - i) mod 64 = (63 - i) + 56" using True c(2) by simp
    then have "fips_pad m = (xs @ B1) @ ?B2" using pad by (simp only: B1_def c(3) replicate_add append_assoc append_Cons append_Nil)
    moreover have "Message_Digest (SHA1PadMessage c) = digest_list (fips_hash sha1_start ((xs @ B1) @ ?B2))"
      unfolding SHA1PadMessage_def Let_def
      by (rule final [OF _ len(2)]) (use True len(1) L d1 in \<open>simp_all add: z c1_def [symmetric] z2 i_def [symmetric] L_def c1\<close>)
    ultimately show ?thesis by (simp add: fips_sha1_def sha1_start_def)
  qed
qed

lemma pieces_hold:
  "sha1_holds c m \<Longrightarrow> 8 * length (m @ concat pieces) < 2 ^ 64 \<Longrightarrow> sha1_holds (fold SHA1Input pieces c) (m @ concat pieces)"
proof (induction pieces arbitrary: c m)
  case (Cons p ps)
  have "sha1_holds (fold SHA1Input ps (SHA1Input p c)) ((m @ p) @ concat ps)"
    using Cons.prems input_holds [OF Cons.prems(1), of p] by (intro Cons.IH) simp_all
  then show ?case by simp
qed simp

text \<open>
  Property C16: the hash of a message that is fed in pieces of any sizes is the one of the standard for the whole message,
  when the message has less than \<open>2 ^ 64\<close> bits; and the code reports success.
\<close>

theorem sha1_is_fips:
  assumes "length (Message_Block c0) = 64" and "8 * length (concat pieces) < 2 ^ 64"
    and "SHA1Result (fold SHA1Input pieces (SHA1Reset c0)) = (c, ok)"
  shows "ok \<and> Message_Digest c = digest_list (fips_sha1 (concat pieces))"
proof -
  have "sha1_holds (fold SHA1Input pieces (SHA1Reset c0)) (concat pieces)"
    using pieces_hold [OF reset_holds [OF assms(1)], of pieces] assms(2) by simp
  then show ?thesis
    using pad_holds assms(3) by (auto simp: SHA1Result_def sha1_holds_def)
qed


subsection \<open>A known answer\<close>

text \<open>The first example of the standard: the message \<open>abc\<close>, one block.\<close>

definition sha1_zero :: sha1_context where
  "sha1_zero = \<lparr>Message_Digest = replicate 5 0, Length_Low = 0, Length_High = 0, Message_Block = replicate 64 0,
     Message_Block_Index = 0, Computed = False, Corrupted = False\<rparr>"

definition abc_block :: "8 word list" where
  "abc_block = [97, 98, 99, 0x80] @ replicate 59 0 @ [24]"

definition abc_words :: "32 word list" where
  "abc_words =
     [0x61626380, 0, 0, 0, 0, 0, 0, 0, 0, 0, 0, 0, 0, 0, 0, 0x18, 0xc2c4c700, 0, 0x30, 0x85898e01, 0, 0x60, 0xb131c03, 0x30,
      0x85898ec1, 0x16263806, 0, 0x180, 0x2c4c700c, 0xf0, 0x93afb507, 0x5898e048, 0x8e9a9202, 0x600, 0xb131c0f0,
      0x16263bc6, 0x4ebed41e, 0x626380a1, 0x16263806, 0x18c0, 0xd2e138c4, 0xf00, 0x3afb5079, 0x898e04e5, 0xe2ba3c2b,
      0x60c0, 0x53a37cd, 0x74458547, 0xda9415ed, 0x26380a16, 0x626383a1, 0x4ebf54de, 0x3835b44b, 0xf600, 0x1e84c7a3,
      0x98e04d98, 0x651d16a0, 0x62658ca1, 0x458544d6, 0x44584cb7, 0x7ba06619, 0x6380aea2, 0xae55269, 0x627b49a1,
      0x7cd45c9d, 0xf0000, 0xfb50753a, 0xec6765e8, 0xba3c2be2, 0x60c000, 0x3a37cd05, 0x458546f4, 0xb8599dd6, 0x380a1a26,
      0x1e02203, 0xe7cc3456, 0xe6e60b69, 0xf60a00, 0x5795ef4f, 0x822e0879]"

lemmas sha1_compute = sha1_extend_def SHA1CircularShift_def sha1_rounds_def sha1_word_def upt_rec_numeral

lemma abc_words_24: "fold sha1_extend [16..<24] (take 16 abc_words) = take 24 abc_words"
  by (simp add: abc_words_def sha1_compute)

lemma abc_words_32: "fold sha1_extend [24..<32] (take 24 abc_words) = take 32 abc_words"
  by (simp add: abc_words_def sha1_compute)

lemma abc_words_40: "fold sha1_extend [32..<40] (take 32 abc_words) = take 40 abc_words"
  by (simp add: abc_words_def sha1_compute)

lemma abc_words_48: "fold sha1_extend [40..<48] (take 40 abc_words) = take 48 abc_words"
  by (simp add: abc_words_def sha1_compute)

lemma abc_words_56: "fold sha1_extend [48..<56] (take 48 abc_words) = take 56 abc_words"
  by (simp add: abc_words_def sha1_compute)

lemma abc_words_64: "fold sha1_extend [56..<64] (take 56 abc_words) = take 64 abc_words"
  by (simp add: abc_words_def sha1_compute)

lemma abc_words_72: "fold sha1_extend [64..<72] (take 64 abc_words) = take 72 abc_words"
  by (simp add: abc_words_def sha1_compute)

lemma abc_words_80: "fold sha1_extend [72..<80] (take 72 abc_words) = take 80 abc_words"
  by (simp add: abc_words_def sha1_compute)

lemma abc_rounds_0: "sha1_rounds (\<lambda>B C D. (B AND C) OR (NOT B AND D)) 0x5A827999 (take 20 (drop 0 abc_words))
    (0x67452301, 0xefcdab89, 0x98badcfe, 0x10325476, 0xc3d2e1f0) =
    (0xfd9e1d7d, 0xdc64901d, 0x20aa99ca, 0xd3a49608, 0xc82f758b)"
  by (simp add: abc_words_def sha1_compute)

lemma abc_rounds_1: "sha1_rounds (\<lambda>B C D. B XOR C XOR D) 0x6ED9EBA1 (take 20 (drop 20 abc_words))
    (0xfd9e1d7d, 0xdc64901d, 0x20aa99ca, 0xd3a49608, 0xc82f758b) =
    (0x32de1cba, 0x4c986405, 0xf718e5cf, 0x3d447f6, 0xf72eec32)"
  by (simp add: abc_words_def sha1_compute)

lemma abc_rounds_2: "sha1_rounds (\<lambda>B C D. (B AND C) OR (B AND D) OR (C AND D)) 0x8F1BBCDC (take 20 (drop 40 abc_words))
    (0x32de1cba, 0x4c986405, 0xf718e5cf, 0x3d447f6, 0xf72eec32) =
    (0x3f52de5a, 0x9d785fd, 0x3498bfd4, 0xf211824f, 0xd79915ab)"
  by (simp add: abc_words_def sha1_compute)

lemma abc_rounds_3: "sha1_rounds (\<lambda>B C D. B XOR C XOR D) 0xCA62C1D6 (take 20 (drop 60 abc_words))
    (0x3f52de5a, 0x9d785fd, 0x3498bfd4, 0xf211824f, 0xd79915ab) =
    (0x42541b35, 0x5738d5e1, 0x21834873, 0x681e6df6, 0xd8fdf6ad)"
  by (simp add: abc_words_def sha1_compute)

lemma abc_words: "sha1_words abc_block = abc_words"
proof -
  have idx: "[0..<16] = [0, 1, 2, 3, 4, 5, 6, 7, 8, 9, 10, 11, 12, 13, 14, 15 :: nat]" by (simp add: numeral_eq_Suc)
  have "map (sha1_word abc_block) [0..<16] = take 16 abc_words"
    by (simp add: abc_words_def abc_block_def sha1_word_def nth_append idx)
  moreover have "[16..<80] = [16..<24] @ [24..<32] @ [32..<40] @ [40..<48] @ [48..<56] @ [56..<64] @ [64..<72] @ [72..<80]"
    by (simp add: upt_rec_numeral)
  ultimately show ?thesis
    by (simp only: sha1_words_def fold_append o_apply abc_words_24 abc_words_32 abc_words_40 abc_words_48 abc_words_56
      abc_words_64 abc_words_72 abc_words_80) (simp add: abc_words_def)
qed

lemma sha1_abc:
  "Message_Digest (fst (SHA1Result (SHA1Input [97, 98, 99] (SHA1Reset sha1_zero)))) =
    [0xa9993e36, 0x4706816a, 0xba3e2571, 0x7850c26c, 0x9cd0d89d]"
proof -
  let ?c = "SHA1Input [97, 98, 99] (SHA1Reset sha1_zero)"
  let ?d = "(SHA1Reset sha1_zero)\<lparr>Message_Block := abc_block\<rparr>"
  have c: "sha1_holds ?c [97, 98, 99]"
    using input_holds [OF reset_holds [of sha1_zero], of "[97, 98, 99]"] by (simp add: sha1_zero_def)
  have "replicate 52 (0 :: 8 word) @ [0, 0, 0, 0, 0, 0, 0] = replicate 59 0"
  proof -
    have "[0, 0, 0, 0, 0, 0, 0] = replicate 7 (0 :: 8 word)" by (simp add: numeral_eq_Suc)
    then show ?thesis using replicate_add [of 52 7 "0 :: 8 word"] by simp
  qed
  then have "fips_pad [97, 98, 99] = abc_block" by (simp add: fips_pad_def word_octets_def abc_block_def)
  then have "fips_sha1 [97, 98, 99] = fips_block sha1_start abc_block"
    using fips_hash_block [of abc_block] by (simp add: fips_sha1_def sha1_start_def abc_block_def)
  moreover have "Message_Digest (SHA1ProcessMessageBlock ?d) = digest_list (fips_block sha1_start abc_block)"
    using process_block [of ?d sha1_start] by (simp add: SHA1Reset_def sha1_start_def)
  moreover have "Message_Digest (SHA1ProcessMessageBlock ?d) = [0xa9993e36, 0x4706816a, 0xba3e2571, 0x7850c26c, 0x9cd0d89d]"
  proof -
    have "take 20 (drop 60 abc_words) = drop 60 abc_words" by (simp add: abc_words_def)
    then show ?thesis
      using abc_rounds_0 abc_rounds_3 by (simp add: SHA1ProcessMessageBlock_def abc_words abc_rounds_1 abc_rounds_2 SHA1Reset_def Let_def)
  qed
  ultimately show ?thesis using c pad_holds [OF c] by (simp add: SHA1Result_def sha1_holds_def)
qed

theorem sha1_is_fips_witness:
  "snd (SHA1Result (fold SHA1Input [[97], [98, 99]] (SHA1Reset sha1_zero))) \<and>
   Message_Digest (fst (SHA1Result (fold SHA1Input [[97], [98, 99]] (SHA1Reset sha1_zero)))) = digest_list (fips_sha1 [97, 98, 99])"
  using sha1_is_fips [of sha1_zero "[[97], [98, 99]]" "fst (SHA1Result (fold SHA1Input [[97], [98, 99]] (SHA1Reset sha1_zero)))"
    "snd (SHA1Result (fold SHA1Input [[97], [98, 99]] (SHA1Reset sha1_zero)))"]
  by (simp add: sha1_zero_def)

end
