(* ===== verification/Network.thy ===== *)
theory Network
  imports Sha1
begin

text \<open>
  \<^verbatim>\<open>xmcomp/src/network.c\<close>: the socket, the opening of the stream and the handshake of an external
  component (XEP-0114). The kernel and the server are the record \<open>os\<close>: the answers that the next
  calls of \<open>send\<close> and \<open>recv\<close> get, in order, and the bytes that went out. A call that has no answer
  yet does not return, which is the result \<open>None\<close>.
\<close>

subsection \<open>The kernel\<close>

datatype recv_answer =
    Segment bytes      \<comment> \<open>bytes that have arrived; none at the end of the stream\<close>
  | Interrupted        \<comment> \<open>\<open>EINTR\<close>\<close>
  | Recv_Failed

record os =
  os_sends :: "int list"              \<comment> \<open>how many bytes \<open>send\<close> is ready to take; negative for an error\<close>
  os_recvs :: "recv_answer list"
  os_sent :: bytes

definition sys_send :: "bytes \<Rightarrow> os \<Rightarrow> (int \<times> os) option" where
  "sys_send data s =
     (case os_sends s of
        [] \<Rightarrow> None
      | a # as \<Rightarrow>
          (let n = min a (int (length data)) in
           Some (n, s\<lparr>os_sends := as, os_sent := os_sent s @ take (nat n) data\<rparr>)))"

text \<open>\<open>recv\<close> hands over at most \<open>cap\<close> bytes; the others are kept for the next call.\<close>

definition sys_recv :: "nat \<Rightarrow> os \<Rightarrow> (recv_answer \<times> os) option" where
  "sys_recv cap s =
     (case os_recvs s of
        [] \<Rightarrow> None
      | Segment bs # as \<Rightarrow>
          Some (Segment (take cap bs),
            s\<lparr>os_recvs := (if length bs \<le> cap then as else Segment (drop cap bs) # as)\<rparr>)
      | a # as \<Rightarrow> Some (a, s\<lparr>os_recvs := as\<rparr>))"

subsection \<open>The socket\<close>

record socket =
  sk_socket :: int
  sk_connected :: bool

text \<open>
  What the C library and the kernel answer when a connection is opened: the address of a host in
  numbers (\<open>None\<close> for \<open>INADDR_NONE\<close>), the address of a name, a new socket, and the success of \<open>connect\<close>.
\<close>

record resolver =
  rs_inet_addr :: "bytes \<Rightarrow> nat option"
  rs_gethostbyname :: "bytes \<Rightarrow> nat option"
  rs_new_socket :: int
  rs_connects :: "nat \<Rightarrow> int \<Rightarrow> bool"

definition net_connect :: "resolver \<Rightarrow> bytes \<Rightarrow> int \<Rightarrow> socket \<times> bool" where
  "net_connect rs host port =
     (case (case rs_inet_addr rs host of Some a \<Rightarrow> Some a | None \<Rightarrow> rs_gethostbyname rs host) of
        None \<Rightarrow> (\<lparr>sk_socket = 0, sk_connected = False\<rparr>, False)
      | Some a \<Rightarrow>
          if rs_new_socket rs = -1 then (\<lparr>sk_socket = -1, sk_connected = False\<rparr>, False)
          else if \<not> rs_connects rs a port then (\<lparr>sk_socket = rs_new_socket rs, sk_connected = False\<rparr>, False)
          else (\<lparr>sk_socket = rs_new_socket rs, sk_connected = True\<rparr>, True))"

definition net_disconnect :: "socket \<Rightarrow> socket" where
  "net_disconnect sock = sock\<lparr>sk_connected := False\<rparr>"

definition net_send :: "socket \<Rightarrow> bytes \<Rightarrow> os \<Rightarrow> (int \<times> os) option" where
  "net_send sock data s =
     (if \<not> sk_connected sock then Some (0, s)
      else map_option (\<lambda>(n, s'). (if n < 0 then -1 else n, s')) (sys_send data s))"

text \<open>The loop of \<open>net_send_all\<close>, which goes on until everything is taken.\<close>

function send_loop :: "bytes \<Rightarrow> os \<Rightarrow> (bool \<times> os) option" where
  "send_loop data s =
     (if data = [] then Some (True, s)
      else
        (case sys_send data s of
           None \<Rightarrow> None
         | Some (n, s') \<Rightarrow> if n < 0 then Some (False, s') else send_loop (drop (nat n) data) s'))"
  by pat_completeness auto
termination
  by (relation "measure (\<lambda>(data, s). length (os_sends s))")
    (auto simp: sys_send_def Let_def split: list.splits)

declare send_loop.simps [simp del]

definition net_send_all :: "socket \<Rightarrow> bytes \<Rightarrow> os \<Rightarrow> (bool \<times> os) option" where
  "net_send_all sock data s = (if \<not> sk_connected sock then Some (False, s) else send_loop data s)"

definition net_recv :: "socket \<Rightarrow> nat \<Rightarrow> os \<Rightarrow> (int \<times> bytes \<times> socket \<times> os) option" where
  "net_recv sock cap s =
     (if \<not> sk_connected sock then Some (0, [], sock, s)
      else
        (case sys_recv cap s of
           None \<Rightarrow> None
         | Some (Interrupted, s') \<Rightarrow> Some (0, [], sock, s')
         | Some (Recv_Failed, s') \<Rightarrow> Some (-1, [], sock, s')
         | Some (Segment bs, s') \<Rightarrow>
             Some (int (length bs), bs, (if bs = [] then sock\<lparr>sk_connected := False\<rparr> else sock), s')))"

subsection \<open>The handshake\<close>

abbreviation STANDARD_BUFFER_SIZE :: nat where "STANDARD_BUFFER_SIZE \<equiv> 1024"

text \<open>\<open>strstr\<close>: the text from the first occurrence on.\<close>

fun strstr :: "bytes \<Rightarrow> bytes \<Rightarrow> bytes option" where
  "strstr [] pat = (if pat = [] then Some [] else None)"
| "strstr (c # cs) pat = (if take (length pat) (c # cs) = pat then Some (c # cs) else strstr cs pat)"

definition hex_digit :: "nat \<Rightarrow> char" where
  "hex_digit n = char_of (if n < 10 then 48 + n else 87 + n)"

definition print_08x :: "32 word \<Rightarrow> bytes" where
  "print_08x w = map (\<lambda>i. hex_digit (unat w div 16 ^ i mod 16)) [7, 6, 5, 4, 3, 2, 1, 0]"

definition HANDSHAKE_SUCCESS :: bytes where "HANDSHAKE_SUCCESS = ''<handshake/>''"

text \<open>
  What is hashed: \<open>strncpy\<close> leaves a string of the full size without its end, so that
  \<open>strlen\<close> would run beyond the array; \<open>strncat\<close> cuts the password where the array is full.
\<close>

definition handshake_text :: "bytes \<Rightarrow> bytes \<Rightarrow> bytes run" where
  "handshake_text sid pass =
     (if STANDARD_BUFFER_SIZE \<le> length sid then Fault OutOfBounds
      else Ret (sid @ take (STANDARD_BUFFER_SIZE - length sid - 1) pass))"

text \<open>\<open>sha\<close> is the local variable of that name before the call: the memory of the stack.\<close>

definition authorize :: "sha1_context \<Rightarrow> socket \<Rightarrow> bytes \<Rightarrow> bytes \<Rightarrow> os \<Rightarrow> (bool \<times> socket \<times> os) option run" where
  "authorize sha sock sid pass s =
     (if \<not> sk_connected sock then Ret (Some (False, sock, s))
      else
        bind_run (handshake_text sid pass) (\<lambda>text. Ret
          (case SHA1Result (SHA1Input (map of_char text) (SHA1Reset sha)) of
             (c, ok) \<Rightarrow>
               if \<not> ok then Some (False, sock, s)
               else
                 (case net_send_all sock
                     (''<handshake>'' @ concat (map print_08x (Message_Digest c)) @ ''</handshake>'') s of
                    None \<Rightarrow> None
                  | Some (False, s1) \<Rightarrow> Some (False, sock, s1)
                  | Some (True, s1) \<Rightarrow>
                      (case net_recv sock (STANDARD_BUFFER_SIZE - 1) s1 of
                         None \<Rightarrow> None
                       | Some (n, answer, sock2, s2) \<Rightarrow>
                           if n \<le> 0 then Some (False, sock2, s2)
                           else Some (c_string answer = HANDSHAKE_SUCCESS, sock2, s2))))))"

subsection \<open>The stream\<close>

definition stream_header :: "bytes \<Rightarrow> bytes \<Rightarrow> bytes" where
  "stream_header from to =
     lit ''<?xml version=`1.0`?> <stream:stream xmlns:stream=`http://etherx.jabber.org/streams` xmlns=`jabber:component:accept` to=`'' @
     to @ lit ''` from=`'' @ from @ lit ''`>''"

text \<open>The value of the attribute \<open>id\<close> in the answer: from the quote after \<open>id=\<close> to the next such quote.\<close>

definition stream_id :: "bytes \<Rightarrow> bytes option" where
  "stream_id answer =
     (case strstr (c_string answer) ''id='' of
        None \<Rightarrow> None
      | Some rest \<Rightarrow>
          (case drop 3 rest of
             [] \<Rightarrow> None
           | quote # value \<Rightarrow>
               (case strstr value [quote] of
                  None \<Rightarrow> None
                | Some stop \<Rightarrow> Some (take (length value - length stop) value))))"

definition net_stream ::
  "sha1_context \<Rightarrow> socket \<Rightarrow> bytes \<Rightarrow> bytes \<Rightarrow> bytes \<Rightarrow> os \<Rightarrow> (bool \<times> socket \<times> os) option run" where
  "net_stream sha sock from to pass s =
     (if \<not> sk_connected sock then Ret (Some (False, sock, s))
      else if STANDARD_BUFFER_SIZE \<le> length (stream_header from to) then Fault OutOfBounds
      else
        (case net_send_all sock (stream_header from to) s of
           None \<Rightarrow> Ret None
         | Some (False, s1) \<Rightarrow> Ret (Some (False, sock, s1))
         | Some (True, s1) \<Rightarrow>
             (case net_recv sock (STANDARD_BUFFER_SIZE - 1) s1 of
                None \<Rightarrow> Ret None
              | Some (n, answer, sock2, s2) \<Rightarrow>
                  if n < 0 then Ret (Some (False, sock2, s2))
                  else
                    (case stream_id answer of
                       None \<Rightarrow> Ret (Some (False, sock2, s2))
                     | Some sid \<Rightarrow> authorize sha sock2 sid pass s2))))"

definition net_unstream :: "socket \<Rightarrow> os \<Rightarrow> (bool \<times> os) option" where
  "net_unstream sock s =
     (if \<not> sk_connected sock then Some (False, s) else net_send_all sock ''</stream:stream>'' s)"

subsection \<open>Sending\<close>

lemma sys_send_effect:
  "sys_send data s = Some (n, s') \<Longrightarrow>
   n \<le> int (length data) \<and> os_sent s' = os_sent s @ take (nat n) data \<and> os_recvs s' = os_recvs s \<and>
   (\<exists>a. os_sends s = a # os_sends s' \<and> n = min a (int (length data)))"
  by (auto simp: sys_send_def Let_def split: list.splits)

text \<open>
  What went out is a beginning of the data, and all of it exactly when the loop succeeds.
\<close>

lemma send_loop_prefix:
  "send_loop data s = Some (ok, s') \<Longrightarrow>
   \<exists>k \<le> length data. os_sent s' = os_sent s @ take k data \<and> (ok \<longleftrightarrow> k = length data) \<and> os_recvs s' = os_recvs s"
proof (induction data s arbitrary: ok s' rule: send_loop.induct)
  case (1 data s)
  show ?case
  proof (cases "data = []")
    case True
    then show ?thesis using 1(2) by (subst (asm) send_loop.simps) simp
  next
    case False
    then obtain n s1 where send: "sys_send data s = Some (n, s1)"
      using 1(2) by (subst (asm) send_loop.simps) (auto split: option.splits)
    note e = sys_send_effect [OF send]
    show ?thesis
    proof (cases "n < 0")
      case True
      then have "ok = False" "s' = s1" using 1(2) send False by (subst (asm) send_loop.simps; simp)+
      then show ?thesis using e True False by (intro exI [of _ 0]) simp
    next
      case neg: False
      then have "send_loop (drop (nat n) data) s1 = Some (ok, s')"
        using 1(2) send False by (subst (asm) send_loop.simps) simp
      from 1(1) [OF False send refl neg this] obtain k where k: "k \<le> length (drop (nat n) data)"
        "os_sent s' = os_sent s1 @ take k (drop (nat n) data)" "ok \<longleftrightarrow> k = length (drop (nat n) data)"
        "os_recvs s' = os_recvs s1" by blast
      then show ?thesis
        using e neg by (intro exI [of _ "nat n + k"]) (auto simp: take_add)
    qed
  qed
qed

lemma send_loop_completes:
  assumes "\<forall>a \<in> set (os_sends s). 0 < a" and "length data \<le> length (os_sends s)"
  shows "\<exists>s' k. send_loop data s = Some (True, s') \<and> os_sent s' = os_sent s @ data \<and> os_recvs s' = os_recvs s \<and>
    k \<le> length data \<and> os_sends s' = drop k (os_sends s)"
  using assms
proof (induction data s rule: send_loop.induct)
  case (1 data s)
  show ?case
  proof (cases "data = []")
    case True
    then show ?thesis by (subst send_loop.simps) simp
  next
    case False
    then obtain a as where a: "os_sends s = a # as" using 1(3) by (cases "os_sends s") auto
    define n where "n = min a (int (length data))"
    define s1 where "s1 = s\<lparr>os_sends := as, os_sent := os_sent s @ take (nat n) data\<rparr>"
    have send: "sys_send data s = Some (n, s1)" by (simp add: sys_send_def a n_def s1_def Let_def)
    have n: "0 < n" "n \<le> int (length data)" using 1(2) a False by (simp_all add: n_def)
    have "\<exists>s' k. send_loop (drop (nat n) data) s1 = Some (True, s') \<and> os_sent s' = os_sent s1 @ drop (nat n) data \<and>
        os_recvs s' = os_recvs s1 \<and> k \<le> length (drop (nat n) data) \<and> os_sends s' = drop k (os_sends s1)"
      using 1(2,3) a n by (intro 1(1) [OF False send refl]) (auto simp: s1_def)
    then obtain s' k where s': "send_loop (drop (nat n) data) s1 = Some (True, s')"
      "os_sent s' = os_sent s1 @ drop (nat n) data" "os_recvs s' = os_recvs s1"
      "k \<le> length (drop (nat n) data)" "os_sends s' = drop k (os_sends s1)" by blast
    have "send_loop data s = Some (True, s')" using False send n s'(1) by (subst send_loop.simps) simp
    moreover have "Suc k \<le> length data" using s'(4) n by auto
    ultimately show ?thesis using s' a by (intro exI [of _ s'] exI [of _ "Suc k"]) (simp add: s1_def)
  qed
qed

subsection \<open>The attribute\<close>

lemma strstr_char: "q \<notin> set v \<Longrightarrow> strstr (v @ q # rest) [q] = Some (q # rest)"
  by (induction v) auto

lemma strstr_absent_head: "strstr (c # cs) pat = None \<Longrightarrow> take (length pat) (c # cs) \<noteq> pat \<and> strstr cs pat = None"
  by (auto split: if_splits)

lemma strstr_first:
  "strstr before ''id='' = None \<Longrightarrow> strstr (before @ ''id='' @ rest) ''id='' = Some (''id='' @ rest)"
proof (induction before)
  case (Cons c cs)
  note h = strstr_absent_head [OF Cons.prems]
  have "take 3 (c # cs @ ''id='' @ rest) \<noteq> ''id=''"
  proof (cases "length cs < 2")
    case True
    then have "cs = [] \<or> (\<exists>d. cs = [d])" by (cases cs; cases "tl cs") auto
    then show ?thesis by auto
  next
    case False
    then show ?thesis using h by (auto simp: numeral_2_eq_2)
  qed
  then show ?case using Cons.IH h by (simp add: numeral_2_eq_2)
qed simp

lemma strstr_suffix: "strstr xs pat = Some ys \<Longrightarrow> length ys \<le> length xs"
proof (induction xs)
  case (Cons c cs)
  then show ?case by (cases "take (length pat) (c # cs) = pat") auto
qed (auto split: if_splits)

lemma stream_id_found:
  assumes "nul_free (before @ ''id='' @ q # sid @ q # rest)" and "strstr before ''id='' = None" and "q \<notin> set sid"
  shows "stream_id (before @ ''id='' @ q # sid @ q # rest) = Some sid"
  using assms strstr_first [of before "q # sid @ q # rest"]
  by (simp add: stream_id_def c_string_id strstr_char)

lemma stream_id_short: "stream_id answer = Some sid \<Longrightarrow> length sid < length answer"
proof -
  assume "stream_id answer = Some sid"
  then obtain rest q v where r: "strstr (c_string answer) ''id='' = Some rest" "drop 3 rest = q # v" "length sid \<le> length v"
    by (auto simp: stream_id_def split: option.splits list.splits)
  have "length (drop 3 rest) = Suc (length v)" using r(2) by simp
  then show ?thesis using strstr_suffix [OF r(1)] c_string_length [of answer] r(3) by simp
qed

subsection \<open>The handshake is the one of the protocol\<close>

definition handshake_request :: "bytes \<Rightarrow> bytes \<Rightarrow> bytes" where
  \<comment> \<open>XEP-0114: the hash of the identifier of the stream and the secret, in lower-case hexadecimal digits\<close>
  "handshake_request sid pass =
     ''<handshake>'' @ concat (map print_08x (digest_list (fips_sha1 (map of_char (sid @ pass))))) @ ''</handshake>''"

lemma length_print_08x [simp]: "length (print_08x w) = 8"
  by (simp add: print_08x_def)

lemma length_handshake_request: "length (handshake_request sid pass) = 63"
  by (cases "fips_sha1 (map of_char (sid @ pass))") (simp add: handshake_request_def)

lemma hash_of_text:
  assumes "length (Message_Block sha) = 64" and "length text < 1024"
    and "SHA1Result (SHA1Input (map of_char text) (SHA1Reset sha)) = (c, ok)"
  shows "ok \<and> Message_Digest c = digest_list (fips_sha1 (map of_char text))"
proof -
  have h: "sha1_holds (SHA1Input (map of_char text) (SHA1Reset sha)) (map of_char text)"
    using input_holds [OF reset_holds [OF assms(1)], of "map of_char text"] assms(2) by simp
  then show ?thesis
    using pad_holds [OF h] assms(3) by (auto simp: SHA1Result_def sha1_holds_def)
qed

lemma authorize_effect:
  assumes "sk_connected sock" and "length (Message_Block sha) = 64" and "length sid + length pass < 1024"
    and "\<forall>a \<in> set (os_sends s). 0 < a" and "63 \<le> length (os_sends s)"
    and "os_recvs s = [Segment reply]" and "reply \<noteq> []" and "length reply < 1024"
  shows "\<exists>s'. authorize sha sock sid pass s = Ret (Some (c_string reply = HANDSHAKE_SUCCESS, sock, s')) \<and>
    os_sent s' = os_sent s @ handshake_request sid pass \<and> os_recvs s' = []"
proof -
  obtain c ok where c: "SHA1Result (SHA1Input (map of_char (sid @ pass)) (SHA1Reset sha)) = (c, ok)"
    by (cases "SHA1Result (SHA1Input (map of_char (sid @ pass)) (SHA1Reset sha))")
  have h: "ok" "''<handshake>'' @ concat (map print_08x (Message_Digest c)) @ ''</handshake>'' = handshake_request sid pass"
    using hash_of_text [OF assms(2) _ c] assms(3) by (simp_all add: handshake_request_def)
  have ht: "handshake_text sid pass = Ret (sid @ pass)" using assms(3) by (simp add: handshake_text_def)
  obtain s1 where s1: "send_loop (handshake_request sid pass) s = Some (True, s1)"
    "os_sent s1 = os_sent s @ handshake_request sid pass" "os_recvs s1 = os_recvs s"
    using send_loop_completes [OF assms(4), of "handshake_request sid pass"] assms(5) by (auto simp: length_handshake_request)
  have r: "net_recv sock 1023 s1 = Some (int (length reply), reply, sock, s1\<lparr>os_recvs := []\<rparr>)"
    using s1(3) assms(1,6,7,8) by (simp add: net_recv_def sys_recv_def)
  show ?thesis
    unfolding authorize_def ht bind_run.simps c prod.case h(2)
    using assms(1,7) h(1) s1 r by (simp add: net_send_all_def)
qed

lemma stream_authorizes:
  assumes "sk_connected sock" and "length (Message_Block sha) = 64"
    and "length (stream_header from to) < 1024" and "length sid + length pass < 1024"
    and "\<forall>a \<in> set (os_sends s). 0 < a" and "length (stream_header from to) + 63 \<le> length (os_sends s)"
    and "os_recvs s = [Segment answer, Segment reply]" and "stream_id answer = Some sid"
    and "length answer < 1024" and "reply \<noteq> []" and "length reply < 1024"
  shows "\<exists>s'. net_stream sha sock from to pass s = Ret (Some (c_string reply = HANDSHAKE_SUCCESS, sock, s')) \<and>
    os_sent s' = os_sent s @ stream_header from to @ handshake_request sid pass \<and> os_recvs s' = []"
proof -
  obtain s1 k where s1: "send_loop (stream_header from to) s = Some (True, s1)"
    "os_sent s1 = os_sent s @ stream_header from to" "os_recvs s1 = os_recvs s"
    "k \<le> length (stream_header from to)" "os_sends s1 = drop k (os_sends s)"
    using send_loop_completes [OF assms(5), of "stream_header from to"] assms(6) by auto
  define s2 where "s2 = s1\<lparr>os_recvs := [Segment reply]\<rparr>"
  have "answer \<noteq> []" using stream_id_short [OF assms(8)] by auto
  then have r: "net_recv sock 1023 s1 = Some (int (length answer), answer, sock, s2)"
    using s1(3) assms(1,7,9) by (simp add: net_recv_def sys_recv_def s2_def)
  have "\<forall>a \<in> set (os_sends s2). 0 < a" using assms(5) s1(5) by (auto simp: s2_def dest: in_set_dropD)
  moreover have "63 \<le> length (os_sends s2)" using assms(6) s1(4,5) by (simp add: s2_def)
  ultimately obtain s' where
    "authorize sha sock sid pass s2 = Ret (Some (c_string reply = HANDSHAKE_SUCCESS, sock, s'))"
    "os_sent s' = os_sent s2 @ handshake_request sid pass" "os_recvs s' = []"
    using authorize_effect [OF assms(1,2,4), of s2 reply] assms(10,11) by (auto simp: s2_def)
  then show ?thesis
    using assms(1,3,8) s1(1,2) r by (simp add: net_stream_def net_send_all_def s2_def)
qed

text \<open>
  Property C17: a connected socket whose \<open>send\<close> takes at least a byte at a time, and a server that answers
  the header of the stream with a text in which the first \<open>id=\<close> is the attribute \<open>id\<close>, and then something
  else: what goes out is the header and the handshake of XEP-0114 (the SHA-1 of the identifier and the
  secret), and the call succeeds exactly when the server's second answer is \<open><handshake/>\<close>.
\<close>

theorem handshake_is_xep0114:
  assumes "sk_connected sock" and "length (Message_Block sha) = 64"
    and "length (stream_header from to) < 1024" and "length sid + length pass < 1024"
    and "\<forall>a \<in> set (os_sends s). 0 < a" and "length (stream_header from to) + 63 \<le> length (os_sends s)"
    and "os_recvs s = [Segment (before @ ''id='' @ q # sid @ q # rest), Segment reply]"
    and "nul_free (before @ ''id='' @ q # sid @ q # rest)" and "strstr before ''id='' = None" and "q \<notin> set sid"
    and "length (before @ ''id='' @ q # sid @ q # rest) < 1024" and "reply \<noteq> []" and "length reply < 1024"
  shows "\<exists>s'. net_stream sha sock from to pass s = Ret (Some (c_string reply = ''<handshake/>'', sock, s')) \<and>
    os_sent s' = os_sent s @ stream_header from to @ handshake_request sid pass"
  using stream_authorizes [OF assms(1-7) stream_id_found [OF assms(8-10)] assms(11-13)]
  by (auto simp: HANDSHAKE_SUCCESS_def)

text \<open>The first example: the identifier \<open>ab\<close>, the secret \<open>c\<close>, and a kernel that takes a byte at a time.\<close>

definition example_answer :: bytes where
  "example_answer = lit ''<stream:stream from=`mukite` id=`ab`>''"

definition example_os :: os where
  "example_os = \<lparr>os_sends = replicate 300 1, os_recvs = [Segment example_answer, Segment ''<handshake/>''], os_sent = []\<rparr>"

lemma handshake_example:
  "handshake_request ''ab'' ''c'' = ''<handshake>a9993e364706816aba3e25717850c26c9cd0d89d</handshake>''"
proof -
  let ?c = "SHA1Input [97, 98, 99] (SHA1Reset sha1_zero)"
  have "digest_list (fips_sha1 [97, 98, 99]) = Message_Digest (fst (SHA1Result ?c))"
    using pad_holds [OF input_holds [OF reset_holds [of sha1_zero], of "[97, 98, 99]"]]
    by (simp add: SHA1Result_def SHA1Input_def SHA1Reset_def sha1_zero_def sha1_byte_def sha1_count_def store_byte_def Let_def)
  then show ?thesis unfolding sha1_abc
    by (simp add: handshake_request_def print_08x_def hex_digit_def char_of_def bit_0)
qed

theorem handshake_is_xep0114_witness:
  "\<exists>s'. net_stream sha1_zero \<lparr>sk_socket = 5, sk_connected = True\<rparr> ''xmcomp'' ''mukite'' ''c'' example_os =
      Ret (Some (True, \<lparr>sk_socket = 5, sk_connected = True\<rparr>, s')) \<and>
    os_sent s' = stream_header ''xmcomp'' ''mukite'' @ ''<handshake>a9993e364706816aba3e25717850c26c9cd0d89d</handshake>''"
  using handshake_is_xep0114 [of "\<lparr>sk_socket = 5, sk_connected = True\<rparr>" sha1_zero "''xmcomp''" "''mukite''" "''ab''" "''c''"
      example_os "lit ''<stream:stream from=`mukite` ''" "CHR 0x27" "''>''" "''<handshake/>''"]
  by (simp add: example_os_def example_answer_def sha1_zero_def stream_header_def lit_def handshake_example nul_free_def
    c_string_def)

subsection \<open>No answer of the server, but a long name of the host\<close>

lemma length_lit [simp]: "length (lit s) = length s"
  by (simp add: lit_def)

lemma length_stream_header: "length (stream_header from to) = 131 + length from + length to"
  by (simp add: stream_header_def)

lemma stream_faults_iff:
  "faults (net_stream sha sock from to pass s) \<longleftrightarrow> sk_connected sock \<and> STANDARD_BUFFER_SIZE \<le> length (stream_header from to)"
proof -
  have a: "\<not> faults (authorize sha sk sid pass s2)" if "length sid < 1024" for sk sid s2
    using that by (simp add: authorize_def handshake_text_def)
  have r: "length answer \<le> cap" if "net_recv sk cap s1 = Some (n, answer, sk2, s2)" for sk cap s1 n answer sk2 s2
    using that by (auto simp: net_recv_def sys_recv_def split: if_splits list.splits recv_answer.splits)
  have "\<not> faults (net_stream sha sock from to pass s)"
    if ok: "sk_connected sock" "length (stream_header from to) < 1024"
  proof (cases "net_send_all sock (stream_header from to) s")
    case (Some p)
    obtain sent s1 where p: "p = (sent, s1)" by (cases p)
    show ?thesis
    proof (cases "sent \<and> net_recv sock 1023 s1 \<noteq> None")
      case True
      then obtain n answer sk2 s2 where recv: "net_recv sock 1023 s1 = Some (n, answer, sk2, s2)" by auto
      then show ?thesis
        using ok Some p True a [of _ sk2 s2] r [OF recv] stream_id_short [of answer]
        by (cases "stream_id answer") (auto simp: net_stream_def)
    qed (use ok Some p in \<open>cases "net_recv sock 1023 s1"; auto simp: net_stream_def split: bool.splits\<close>)
  qed (use ok in \<open>simp add: net_stream_def\<close>)
  then show ?thesis by (auto simp: net_stream_def)
qed


end
