(* ===== verification/Writer.thy ===== *)
theory Writer
  imports Network Ringbuffer
begin

text \<open>
  \<^verbatim>\<open>xmcomp/src/writer.c\<close>: the thread that sends what is in the outgoing ring buffer, and what becomes
  of the workers that wait for free space when its connection breaks.
\<close>

subsection \<open>The loop\<close>

record writer =
  wr_ring :: ringbuffer
  wr_socket :: socket
  wr_os :: os
  wr_enabled :: bool

text \<open>
  The outcome of a turn of the loop: the next turn, a call that does not return (the wait for data, or
  \<open>send\<close>), or the end of the thread.
\<close>

datatype outcome = Again | Waiting | Stopped

definition writer_turn :: "writer \<Rightarrow> writer \<times> outcome" where
  "writer_turn w =
     (if \<not> wr_enabled w then (w, Stopped)
      else
        (case ringbuffer_get_chunk (wr_ring w) of
           (rb, None) \<Rightarrow> (w\<lparr>wr_ring := rb\<rparr>, Waiting)
         | (rb, Some n) \<Rightarrow>
             if n = 0 then (w\<lparr>wr_ring := rb, wr_enabled := False\<rparr>, Stopped)
             else
               (case net_send (wr_socket w) (take (nat n) (drop (nat (rb_read rb)) (rb_mem rb))) (wr_os w) of
                  None \<Rightarrow> (w\<lparr>wr_ring := rb\<rparr>, Waiting)
                | Some (sent, s) \<Rightarrow>
                    (let w' = w\<lparr>wr_ring := ringbuffer_release_chunk rb sent, wr_os := s\<rparr> in
                     if sent < 0 \<or> \<not> sk_connected (wr_socket w) then (w'\<lparr>wr_enabled := False\<rparr>, Stopped)
                     else (w', Again)))))"

lemma sends_used: "net_send sock data s = Some (n, s') \<Longrightarrow> sk_connected sock \<Longrightarrow> length (os_sends s') < length (os_sends s)"
  by (auto simp: net_send_def dest!: sys_send_effect)

lemma turn_uses_answer: "writer_turn w = (w', Again) \<Longrightarrow> length (os_sends (wr_os w')) < length (os_sends (wr_os w))"
  using sends_used [of "wr_socket w" _ "wr_os w"]
  by (cases "ringbuffer_get_chunk (wr_ring w)"; cases "snd (ringbuffer_get_chunk (wr_ring w))")
    (auto simp: writer_turn_def Let_def split: if_splits option.splits)

text \<open>The thread, up to its end or to the first call that does not return.\<close>

function writer_run :: "writer \<Rightarrow> writer \<times> outcome" where
  "writer_run w = (case writer_turn w of (w', Again) \<Rightarrow> writer_run w' | r \<Rightarrow> r)"
  by pat_completeness auto
termination
  by (relation "measure (\<lambda>w. length (os_sends (wr_os w)))") (auto intro: turn_uses_answer)

declare writer_run.simps [simp del]

subsection \<open>What a turn does\<close>

lemma rb_view [simp]:
  "rb_contents (rb\<lparr>rb_stats := st\<rparr>) = rb_contents rb" "rb_wf (rb\<lparr>rb_stats := st\<rparr>) = rb_wf rb"
  by (simp_all add: rb_contents_def rb_wf_def)

lemma get_chunk_cases:
  assumes "rb_wf rb"
  shows "ringbuffer_get_chunk rb =
    (if rb_contents rb = [] then
       if rb_online rb then (rb\<lparr>rb_stats := (rb_stats rb)\<lparr>rs_underflows := rs_underflows (rb_stats rb) + 1\<rparr>\<rparr>, None)
       else (rb, Some 0)
     else (rb\<lparr>rb_stats := (rb_stats rb)\<lparr>rs_reads := rs_reads (rb_stats rb) + 1\<rparr>\<rparr>, Some (int (length (rb_chunk rb)))))"
proof -
  have w: "0 \<le> rb_read rb" "rb_read rb < rb_end rb" "0 \<le> rb_data_size rb" using assms by (simp_all add: rb_wf_def)
  show ?thesis
  proof (cases "rb_data_size rb = 0")
    case True
    then have "rb_contents rb = []" by (simp add: rb_contents_def)
    then show ?thesis using True by (simp add: ringbuffer_get_chunk_def)
  next
    case False
    define n where "n = (if rb_end rb - rb_read rb > rb_data_size rb then rb_data_size rb else rb_end rb - rb_read rb)"
    have n: "0 \<le> n" "n \<le> rb_end rb - rb_read rb" using w by (auto simp: n_def)
    have g: "ringbuffer_get_chunk rb = (rb\<lparr>rb_stats := (rb_stats rb)\<lparr>rs_reads := rs_reads (rb_stats rb) + 1\<rparr>\<rparr>, Some n)"
      using False by (simp add: ringbuffer_get_chunk_def Let_def n_def)
    then have "rb_chunk rb = take (nat n) (drop (nat (rb_read rb)) (rb_mem rb))" by (simp add: rb_chunk_def)
    then have "int (length (rb_chunk rb)) = n" using n w(1,2) by simp
    moreover have "rb_contents rb \<noteq> []" using False w by (simp add: rb_contents_def)
    ultimately show ?thesis using g by simp
  qed
qed

lemma chunk_bytes: "take (length (rb_chunk rb)) (drop (nat (rb_read rb)) (rb_mem rb)) = rb_chunk rb"
proof -
  obtain k where k: "rb_chunk rb = take k (drop (nat (rb_read rb)) (rb_mem rb))"
    by (cases "snd (ringbuffer_get_chunk rb)") (simp_all add: rb_chunk_def, metis take_0)
  show ?thesis unfolding k by (metis append_eq_conv_conj append_take_drop_id)
qed

lemma release_stats: "ringbuffer_release_chunk (rb\<lparr>rb_stats := st\<rparr>) n = (ringbuffer_release_chunk rb n)\<lparr>rb_stats := st\<rparr>"
  by (simp add: ringbuffer_release_chunk_def Let_def)

text \<open>A turn with data in the ring: what is sent is the front of the ring, and it is released.\<close>

lemma turn_sends:
  assumes "wr_enabled w" and "rb_wf (wr_ring w)" and "rb_contents (wr_ring w) \<noteq> []" and "sk_connected (wr_socket w)"
    and "os_sends (wr_os w) = a # as" and "0 \<le> a"
  shows "\<exists>w' n. writer_turn w = (w', Again) \<and> wr_enabled w' \<and> rb_wf (wr_ring w') \<and>
    n \<le> length (rb_contents (wr_ring w)) \<and> (0 < a \<longrightarrow> 0 < n) \<and>
    os_sent (wr_os w') = os_sent (wr_os w) @ take n (rb_contents (wr_ring w)) \<and>
    rb_contents (wr_ring w') = drop n (rb_contents (wr_ring w)) \<and>
    os_sends (wr_os w') = as \<and> os_recvs (wr_os w') = os_recvs (wr_os w) \<and> wr_socket w' = wr_socket w \<and>
    rb_online (wr_ring w') = rb_online (wr_ring w)"
proof -
  let ?rb = "wr_ring w" and ?c = "rb_chunk (wr_ring w)"
  let ?n = "min (nat a) (length ?c)"
  note e = rb_chunk_effect [OF assms(2), of ?n, OF min.cobounded2]
  obtain rest where rest: "rb_contents ?rb = ?c @ rest" using e by (elim conjE exE)
  have ne: "?c \<noteq> []" using e assms(3) by (elim conjE impE)
  have send: "net_send (wr_socket w) ?c (wr_os w) = Some (int ?n, (wr_os w)\<lparr>os_sends := as, os_sent := os_sent (wr_os w) @ take ?n ?c\<rparr>)"
  proof -
    have "min a (int (length ?c)) = int ?n" using assms(6) by linarith
    then show ?thesis using assms(4,5) by (simp add: net_send_def sys_send_def)
  qed
  define st where "st = (rb_stats ?rb)\<lparr>rs_reads := rs_reads (rb_stats ?rb) + 1\<rparr>"
  define w' where "w' = w\<lparr>wr_ring := (ringbuffer_release_chunk ?rb (int ?n))\<lparr>rb_stats := st\<rparr>,
      wr_os := (wr_os w)\<lparr>os_sends := as, os_sent := os_sent (wr_os w) @ take ?n ?c\<rparr>\<rparr>"
  have chunk: "ringbuffer_get_chunk ?rb = (?rb\<lparr>rb_stats := st\<rparr>, Some (int (length ?c)))"
    using assms(3) by (simp add: get_chunk_cases [OF assms(2)] st_def)
  have bytes: "take (nat (int (length ?c))) (drop (nat (rb_read (?rb\<lparr>rb_stats := st\<rparr>))) (rb_mem (?rb\<lparr>rb_stats := st\<rparr>))) = ?c"
    using chunk_bytes [of ?rb] by simp
  have "writer_turn w = (w', Again)"
    unfolding writer_turn_def chunk prod.case option.case bytes send w'_def release_stats
    using assms(1,4) ne by simp
  moreover have "rb_wf (wr_ring w')" "rb_contents (wr_ring w') = drop ?n (rb_contents ?rb)"
    "os_sent (wr_os w') = os_sent (wr_os w) @ take ?n (rb_contents ?rb)"
    using e rest by (simp_all add: w'_def)
  moreover have "?n \<le> length (rb_contents ?rb)" "0 < a \<longrightarrow> 0 < ?n" using rest ne by simp_all
  moreover have "wr_enabled w'" "os_sends (wr_os w') = as" "os_recvs (wr_os w') = os_recvs (wr_os w)"
    "wr_socket w' = wr_socket w" "rb_online (wr_ring w') = rb_online ?rb"
    using assms(1) by (simp_all add: w'_def ringbuffer_release_chunk_def Let_def)
  ultimately show ?thesis by blast
qed

text \<open>Without data the thread waits, or ends when the ring is offline.\<close>

lemma turn_without_data:
  assumes "wr_enabled w" and "rb_wf (wr_ring w)" and "rb_contents (wr_ring w) = []"
  shows "writer_turn w =
    (if rb_online (wr_ring w) then
       (w\<lparr>wr_ring := (wr_ring w)\<lparr>rb_stats := (rb_stats (wr_ring w))\<lparr>rs_underflows := rs_underflows (rb_stats (wr_ring w)) + 1\<rparr>\<rparr>\<rparr>, Waiting)
     else (w\<lparr>wr_enabled := False\<rparr>, Stopped))"
  using assms(1,3) by (simp add: writer_turn_def get_chunk_cases [OF assms(2)])

text \<open>
  When the ring is offline, that is, when no more is written, the thread sends all that is left
  and ends: each call of \<open>send\<close> takes at least a byte, so that as many calls as there are bytes are enough.
\<close>

lemma run_drains:
  "wr_enabled w \<Longrightarrow> rb_wf (wr_ring w) \<Longrightarrow> \<not> rb_online (wr_ring w) \<Longrightarrow> sk_connected (wr_socket w) \<Longrightarrow>
   \<forall>a \<in> set (os_sends (wr_os w)). 0 < a \<Longrightarrow> length (rb_contents (wr_ring w)) \<le> length (os_sends (wr_os w)) \<Longrightarrow>
   \<exists>w' k. writer_run w = (w', Stopped) \<and> \<not> wr_enabled w' \<and> os_sent (wr_os w') = os_sent (wr_os w) @ rb_contents (wr_ring w) \<and>
     rb_contents (wr_ring w') = [] \<and> wr_socket w' = wr_socket w \<and> os_recvs (wr_os w') = os_recvs (wr_os w) \<and>
     k \<le> length (rb_contents (wr_ring w)) \<and> os_sends (wr_os w') = drop k (os_sends (wr_os w)) \<and>
     rb_mem (wr_ring w') = rb_mem (wr_ring w)"
proof (induction w rule: writer_run.induct)
  case (1 w)
  show ?case
  proof (cases "rb_contents (wr_ring w) = []")
    case True
    then have "writer_run w = (w\<lparr>wr_enabled := False\<rparr>, Stopped)"
      using 1(2-4) by (subst writer_run.simps) (simp add: turn_without_data)
    then show ?thesis using True by (intro exI [of _ "w\<lparr>wr_enabled := False\<rparr>"] exI [of _ 0]) simp
  next
    case False
    then have "os_sends (wr_os w) \<noteq> []" using 1(7) by (metis le_zero_eq length_0_conv)
    then obtain a as where a: "os_sends (wr_os w) = a # as" by (cases "os_sends (wr_os w)") auto
    then have "0 < a" using 1(6) by simp
    then obtain w1 n where turn: "writer_turn w = (w1, Again)" and w1: "wr_enabled w1" "rb_wf (wr_ring w1)"
      "n \<le> length (rb_contents (wr_ring w))" "0 < n"
      "os_sent (wr_os w1) = os_sent (wr_os w) @ take n (rb_contents (wr_ring w))"
      "rb_contents (wr_ring w1) = drop n (rb_contents (wr_ring w))"
      "os_sends (wr_os w1) = as" "os_recvs (wr_os w1) = os_recvs (wr_os w)" "wr_socket w1 = wr_socket w"
      "rb_online (wr_ring w1) = rb_online (wr_ring w)"
      using turn_sends [OF 1(2,3) False 1(5) a] by auto
    have m: "rb_mem (wr_ring w1) = rb_mem (wr_ring w)"
      using turn 1(2) False by (auto simp: writer_turn_def get_chunk_cases [OF 1(3)] Let_def ringbuffer_release_chunk_def
        split: option.splits if_splits)
    have "\<exists>w' k. writer_run w1 = (w', Stopped) \<and> \<not> wr_enabled w' \<and> os_sent (wr_os w') = os_sent (wr_os w1) @ rb_contents (wr_ring w1) \<and>
        rb_contents (wr_ring w') = [] \<and> wr_socket w' = wr_socket w1 \<and> os_recvs (wr_os w') = os_recvs (wr_os w1) \<and>
        k \<le> length (rb_contents (wr_ring w1)) \<and> os_sends (wr_os w') = drop k (os_sends (wr_os w1)) \<and>
        rb_mem (wr_ring w') = rb_mem (wr_ring w1)"
      using 1(4-7) w1 a by (intro 1(1) [OF turn [symmetric] refl]) auto
    then obtain w' k where w': "writer_run w1 = (w', Stopped)" "\<not> wr_enabled w'"
      "os_sent (wr_os w') = os_sent (wr_os w1) @ rb_contents (wr_ring w1)"
      "rb_contents (wr_ring w') = []" "wr_socket w' = wr_socket w1" "os_recvs (wr_os w') = os_recvs (wr_os w1)"
      "k \<le> length (rb_contents (wr_ring w1))" "os_sends (wr_os w') = drop k (os_sends (wr_os w1))"
      "rb_mem (wr_ring w') = rb_mem (wr_ring w1)" by blast
    have "writer_run w = (w', Stopped)" using w'(1) by (subst writer_run.simps) (simp add: turn)
    moreover have "Suc k \<le> length (rb_contents (wr_ring w))" using w'(7) w1(3,4,6) by simp
    ultimately show ?thesis using w' w1 a m by (intro exI [of _ w'] exI [of _ "Suc k"]) simp
  qed
qed

text \<open>
  When the ring buffer is switched offline, the writer thread sends all that is stored, in order, and ends
  with an empty ring, if \<open>send\<close> takes at least a byte in each call; one call for a byte is enough.
\<close>

theorem offline_ring_is_drained:
  assumes "wr_enabled w" and "rb_wf (wr_ring w)" and "sk_connected (wr_socket w)"
    and "\<forall>a \<in> set (os_sends (wr_os w)). 0 < a" and "length (rb_contents (wr_ring w)) \<le> length (os_sends (wr_os w))"
  shows "\<exists>w'. writer_run (w\<lparr>wr_ring := ringbuffer_offline (wr_ring w)\<rparr>) = (w', Stopped) \<and>
    os_sent (wr_os w') = os_sent (wr_os w) @ rb_contents (wr_ring w) \<and> rb_contents (wr_ring w') = []"
proof -
  have "rb_wf (ringbuffer_offline rb) = rb_wf rb" "rb_contents (ringbuffer_offline rb) = rb_contents rb" for rb
    by (simp_all add: ringbuffer_offline_def rb_wf_def rb_contents_def)
  then show ?thesis
    using run_drains [of "w\<lparr>wr_ring := ringbuffer_offline (wr_ring w)\<rparr>"] assms
    by (auto simp: ringbuffer_offline_def)
qed

definition example_writer :: "int list \<Rightarrow> writer" where
  "example_writer answers =
     \<lparr>wr_ring = fst (ringbuffer_write (sy_rb (rb_start example_memory)) ''abc''),
      wr_socket = \<lparr>sk_socket = 5, sk_connected = True\<rparr>,
      wr_os = \<lparr>os_sends = answers, os_recvs = [], os_sent = []\<rparr>, wr_enabled = True\<rparr>"

lemma example_ring: "wr_ring (example_writer answers) =
   \<lparr>rb_mem = ''abc'' @ drop 3 example_memory, rb_read = 0, rb_write = 3, rb_data_size = 3, rb_online = True,
    rb_stats = \<lparr>rs_overflows = 0, rs_underflows = 0, rs_reads = 0, rs_writes = 1\<rparr>\<rparr>"
  by (simp add: example_writer_def example_memory_def rb_start_def ringbuffer_init_def ringbuffer_clear_def
    ringbuffer_write.simps ringbuffer_write_block_def continuous_block_size_def Let_def)

lemma example_writer_ok:
  "rb_wf (wr_ring (example_writer answers))" "rb_contents (wr_ring (example_writer answers)) = ''abc''"
  by (simp_all add: example_ring rb_wf_def rb_contents_def example_memory_def upt_rec)

theorem offline_ring_is_drained_witness:
  "\<exists>w'. writer_run ((example_writer [2, 7, 1])\<lparr>wr_ring := ringbuffer_offline (wr_ring (example_writer [2, 7, 1]))\<rparr>) = (w', Stopped) \<and>
    os_sent (wr_os w') = ''abc'' \<and> rb_contents (wr_ring w') = []"
  using offline_ring_is_drained [of "example_writer [2, 7, 1]", OF _ example_writer_ok(1)]
  unfolding example_writer_ok(2) by (simp add: example_writer_def)

subsection \<open>A broken connection\<close>

text \<open>
  When \<open>send\<close> fails, its result -1 is released from the ring like a number of bytes: the read position
  moves back by one and a byte that had been sent already, or that is not in the ring, counts as data again. At
  the start of the memory the position is then outside it, and a full ring holds more than its memory.
\<close>

theorem failed_send_unreads:
  assumes "wr_enabled w" and "rb_wf (wr_ring w)" and "rb_contents (wr_ring w) \<noteq> []" and "sk_connected (wr_socket w)"
    and "os_sends (wr_os w) = a # as" and "a < 0"
  shows "\<exists>w'. writer_turn w = (w', Stopped) \<and> rb_read (wr_ring w') = rb_read (wr_ring w) - 1 \<and>
    rb_data_size (wr_ring w') = rb_data_size (wr_ring w) + 1 \<and>
    (rb_read (wr_ring w) = 0 \<or> rb_full (wr_ring w) \<longrightarrow> \<not> rb_wf (wr_ring w'))"
proof -
  have read: "rb_read (wr_ring w) < rb_end (wr_ring w)" using assms(2) by (simp add: rb_wf_def)
  have send: "net_send (wr_socket w) data (wr_os w) = Some (-1, (wr_os w)\<lparr>os_sends := as\<rparr>)" for data
    using assms(4-6) by (simp add: net_send_def sys_send_def Let_def)
  define rb where "rb = (wr_ring w)\<lparr>rb_stats := (rb_stats (wr_ring w))\<lparr>rs_reads := rs_reads (rb_stats (wr_ring w)) + 1\<rparr>\<rparr>"
  have chunk: "ringbuffer_get_chunk (wr_ring w) = (rb, Some (int (length (rb_chunk (wr_ring w)))))" "rb_chunk (wr_ring w) \<noteq> []"
    using assms(3) rb_chunk_effect [OF assms(2), of 0] by (simp_all add: get_chunk_cases [OF assms(2)] rb_def)
  have "writer_turn w = (w\<lparr>wr_ring := ringbuffer_release_chunk rb (-1), wr_os := (wr_os w)\<lparr>os_sends := as\<rparr>, wr_enabled := False\<rparr>, Stopped)"
    unfolding writer_turn_def chunk prod.case option.case send using assms(1) chunk(2) by simp
  then show ?thesis
    using read by (auto simp: ringbuffer_release_chunk_def Let_def rb_def rb_wf_def rb_full_def)
qed

theorem failed_send_unreads_witness:
  "\<exists>w'. writer_turn (example_writer [-1]) = (w', Stopped) \<and> rb_read (wr_ring w') = -1 \<and> rb_data_size (wr_ring w') = 4 \<and>
    \<not> rb_wf (wr_ring w')"
proof -
  have "wr_enabled (example_writer [-1])" "sk_connected (wr_socket (example_writer [-1]))" "os_sends (wr_os (example_writer [-1])) = [-1]"
    by (simp_all add: example_writer_def)
  then show ?thesis
    using failed_send_unreads [of "example_writer [-1]" "-1" "[]", OF _ example_writer_ok(1)] unfolding example_writer_ok(2)
    by (auto simp: example_ring)
qed

subsection \<open>Workers that wait for free space\<close>

text \<open>
  The workers, the writer thread and \<open>main\<close>, which starts the writer after it has connected, and clears
  the ring after the thread has ended. A worker that finds the ring full waits on the condition
  \<open>free_available_cv\<close> with the rest of its stanza, until a release of the writer thread signals one of the waiting
  workers; a worker that was woken goes on when it gets the mutex. \<open>n\<close> is the number of workers.
\<close>

record link =
  ln_writer :: writer
  ln_waiting :: "(nat \<times> bytes) list"
  ln_woken :: "(nat \<times> bytes) list"

definition link_write :: "nat \<Rightarrow> bytes \<Rightarrow> link \<Rightarrow> link" where
  \<comment> \<open>\<open>ringbuffer_write\<close> of worker \<open>t\<close>, up to its return or its wait\<close>
  "link_write t bs l =
     (case ringbuffer_write (wr_ring (ln_writer l)) bs of
        (rb, rest) \<Rightarrow>
          l\<lparr>ln_writer := (ln_writer l)\<lparr>wr_ring := rb\<rparr>,
            ln_waiting := (if rest = [] then ln_waiting l else ln_waiting l @ [(t, rest)])\<rparr>)"

definition busy :: "link \<Rightarrow> nat set" where
  "busy l = fst ` set (ln_waiting l @ ln_woken l)"

definition disconnected :: "link \<Rightarrow> link" where
  \<comment> \<open>\<open>ringbuffer_clear\<close> after the two threads have ended\<close>
  "disconnected l = l\<lparr>ln_writer := (ln_writer l)\<lparr>wr_ring := ringbuffer_clear (wr_ring (ln_writer l))\<rparr>\<rparr>"

definition turn_releases :: "writer \<Rightarrow> bool" where
  \<comment> \<open>the turn reaches \<open>ringbuffer_release_chunk\<close>, which signals the condition\<close>
  "turn_releases w \<longleftrightarrow>
     wr_enabled w \<and>
     (case ringbuffer_get_chunk (wr_ring w) of
        (rb, None) \<Rightarrow> False
      | (rb, Some n) \<Rightarrow> n \<noteq> 0 \<and> net_send (wr_socket w) (take (nat n) (drop (nat (rb_read rb)) (rb_mem rb))) (wr_os w) \<noteq> None)"

inductive link_step :: "nat \<Rightarrow> link \<Rightarrow> link \<Rightarrow> bool" for n where
  put: "t < n \<Longrightarrow> t \<notin> busy l \<Longrightarrow> link_step n l (link_write t bs l)"
| resume: "ln_woken l = xs @ (t, rest) # ys \<Longrightarrow> link_step n l (link_write t rest (l\<lparr>ln_woken := xs @ ys\<rparr>))"
| send_nobody: "writer_turn (ln_writer l) = (w, out) \<Longrightarrow> \<not> turn_releases (ln_writer l) \<or> ln_waiting l = [] \<Longrightarrow>
    link_step n l (l\<lparr>ln_writer := w\<rparr>)"
| send_wakes: "writer_turn (ln_writer l) = (w, out) \<Longrightarrow> turn_releases (ln_writer l) \<Longrightarrow> ln_waiting l = xs @ x # ys \<Longrightarrow>
    link_step n l (l\<lparr>ln_writer := w, ln_waiting := xs @ ys, ln_woken := ln_woken l @ [x]\<rparr>)"
| go_offline: "link_step n l (l\<lparr>ln_writer := (ln_writer l)\<lparr>wr_ring := ringbuffer_offline (wr_ring (ln_writer l))\<rparr>\<rparr>)"
| disconnect: "\<not> wr_enabled (ln_writer l) \<Longrightarrow> link_step n l (disconnected l)"
| connect: "\<not> wr_enabled (ln_writer l) \<Longrightarrow>
    link_step n l (l\<lparr>ln_writer := (ln_writer l)\<lparr>wr_socket := sock, wr_os := s, wr_enabled := True\<rparr>\<rparr>)"

text \<open>All workers wait, none was woken, and there is nothing to send.\<close>

definition all_asleep :: "nat \<Rightarrow> link \<Rightarrow> bool" where
  "all_asleep n l \<longleftrightarrow>
     (\<forall>t < n. t \<in> fst ` set (ln_waiting l)) \<and> ln_woken l = [] \<and> rb_data_size (wr_ring (ln_writer l)) = 0"

lemma turn_of_empty_ring:
  assumes "rb_data_size (wr_ring w) = 0"
  shows "\<not> turn_releases w" and "writer_turn w = (w', out) \<Longrightarrow> rb_data_size (wr_ring w') = 0"
  using assms by (auto simp: turn_releases_def writer_turn_def ringbuffer_get_chunk_def split: if_splits)

lemma link_step_asleep: "link_step n l l' \<Longrightarrow> all_asleep n l \<Longrightarrow> all_asleep n l'"
proof (induction rule: link_step.induct)
  case (put t l bs)
  then show ?case by (auto simp: all_asleep_def busy_def)
next
  case (send_nobody l w out)
  then show ?case using turn_of_empty_ring(2) by (auto simp: all_asleep_def)
next
  case (send_wakes l w out xs x ys)
  then show ?case using turn_of_empty_ring(1) by (auto simp: all_asleep_def)
qed (auto simp: all_asleep_def disconnected_def ringbuffer_clear_def ringbuffer_offline_def)

text \<open>
  Property C26: when all the workers wait for free space and \<open>main\<close> clears the ring after a lost connection, they wait
  forever: \<open>ringbuffer_clear\<close> signals nobody, no worker is left to store anything, so the writer thread of the next
  connection has nothing to send and never signals either. No sequence of steps, with any number of new
  connections, wakes a worker or sends a byte.
\<close>

theorem workers_wait_forever:
  assumes "\<forall>t < n. t \<in> fst ` set (ln_waiting l)" and "ln_woken l = []" and "(link_step n)\<^sup>*\<^sup>* (disconnected l) l'"
  shows "(\<forall>t < n. t \<in> fst ` set (ln_waiting l')) \<and> ln_woken l' = [] \<and> rb_data_size (wr_ring (ln_writer l')) = 0"
proof -
  have "all_asleep n l'"
    using assms(3)
  proof (induction rule: rtranclp_induct)
    case base
    show ?case using assms(1,2) by (auto simp: all_asleep_def disconnected_def ringbuffer_clear_def)
  qed (rule link_step_asleep)
  then show ?thesis by (simp add: all_asleep_def)
qed

text \<open>One worker and a ring of four bytes: a call of \<open>send\<close> takes one byte, the next one fails.\<close>

definition example_link :: link where
  "example_link = \<lparr>ln_writer = (example_writer [1, -1])\<lparr>wr_ring := ringbuffer_clear (wr_ring (example_writer []))\<rparr>,
     ln_waiting = [], ln_woken = []\<rparr>"

lemmas link_compute = link_write_def writer_turn_def turn_releases_def ringbuffer_get_chunk_def ringbuffer_release_chunk_def
  net_send_def sys_send_def ringbuffer_write.simps ringbuffer_write_block_def continuous_block_size_def Let_def busy_def

definition sample_link ::
  "bytes \<Rightarrow> int \<Rightarrow> int \<Rightarrow> int \<Rightarrow> int \<Rightarrow> int \<Rightarrow> int \<Rightarrow> int list \<Rightarrow> bytes \<Rightarrow> bool \<Rightarrow> (nat \<times> bytes) list \<Rightarrow> (nat \<times> bytes) list \<Rightarrow> link" where
  "sample_link mem r w d overflows reads writes answers sent on waiting woken =
     \<lparr>ln_writer =
        \<lparr>wr_ring = \<lparr>rb_mem = mem, rb_read = r, rb_write = w, rb_data_size = d, rb_online = True,
           rb_stats = \<lparr>rs_overflows = overflows, rs_underflows = 0, rs_reads = reads, rs_writes = writes\<rparr>\<rparr>,
         wr_socket = \<lparr>sk_socket = 5, sk_connected = True\<rparr>,
         wr_os = \<lparr>os_sends = answers, os_recvs = [], os_sent = sent\<rparr>, wr_enabled = on\<rparr>,
      ln_waiting = waiting, ln_woken = woken\<rparr>"

lemma sample_start: "example_link = (sample_link ''abc.'' 0 0 0 0 0 1 [1, -1] '''' True [] [])"
  unfolding example_link_def example_ring
  by (simp add: sample_link_def example_writer_def ringbuffer_clear_def example_memory_def)

lemma sample_step_1: "link_step 1 (sample_link ''abc.'' 0 0 0 0 0 1 [1, -1] '''' True [] [])
    (sample_link ''abcd'' 0 0 4 1 0 1 [1, -1] '''' True [(0, ''ef'')] [])"
  using link_step.put [of 0 1 "(sample_link ''abc.'' 0 0 0 0 0 1 [1, -1] '''' True [] [])" "''abcdef''"]
  by (simp add: sample_link_def link_compute)

lemma sample_step_2: "link_step 1 (sample_link ''abcd'' 0 0 4 1 0 1 [1, -1] '''' True [(0, ''ef'')] [])
    (sample_link ''abcd'' 1 0 3 1 1 1 [-1] ''a'' True [] [(0, ''ef'')])"
  using link_step.send_wakes [of "(sample_link ''abcd'' 0 0 4 1 0 1 [1, -1] '''' True [(0, ''ef'')] [])" _ _ "[]" _ "[]" 1, OF surjective_pairing]
  by (simp add: sample_link_def link_compute)

lemma sample_step_3: "link_step 1 (sample_link ''abcd'' 1 0 3 1 1 1 [-1] ''a'' True [] [(0, ''ef'')])
    (sample_link ''ebcd'' 1 1 4 2 1 1 [-1] ''a'' True [(0, ''f'')] [])"
  using link_step.resume [of "(sample_link ''abcd'' 1 0 3 1 1 1 [-1] ''a'' True [] [(0, ''ef'')])" "[]" _ _ "[]" 1]
  by (simp add: sample_link_def link_compute)

lemma sample_step_4: "link_step 1 (sample_link ''ebcd'' 1 1 4 2 1 1 [-1] ''a'' True [(0, ''f'')] [])
    (sample_link ''ebcd'' 0 1 5 2 2 1 [] ''a'' False [] [(0, ''f'')])"
  using link_step.send_wakes [of "(sample_link ''ebcd'' 1 1 4 2 1 1 [-1] ''a'' True [(0, ''f'')] [])" _ _ "[]" _ "[]" 1, OF surjective_pairing]
  by (simp add: sample_link_def link_compute)

lemma sample_step_5: "link_step 1 (sample_link ''ebcd'' 0 1 5 2 2 1 [] ''a'' False [] [(0, ''f'')])
    (sample_link ''efcd'' 0 2 6 2 2 2 [] ''a'' False [] [])"
  using link_step.resume [of "(sample_link ''ebcd'' 0 1 5 2 2 1 [] ''a'' False [] [(0, ''f'')])" "[]" _ _ "[]" 1]
  by (simp add: sample_link_def link_compute)

lemma sample_step_6: "link_step 1 (sample_link ''efcd'' 0 2 6 2 2 2 [] ''a'' False [] [])
    (sample_link ''efgh'' 0 0 8 3 2 2 [] ''a'' False [(0, ''ijk'')] [])"
  using link_step.put [of 0 1 "(sample_link ''efcd'' 0 2 6 2 2 2 [] ''a'' False [] [])" "''ghijk''"]
  by (simp add: sample_link_def link_compute)

lemma sample_run: "(link_step 1)\<^sup>*\<^sup>* example_link (sample_link ''efgh'' 0 0 8 3 2 2 [] ''a'' False [(0, ''ijk'')] [])"
  unfolding sample_start
  by (rule converse_rtranclp_into_rtranclp [of "link_step 1"], rule sample_step_1,
      rule converse_rtranclp_into_rtranclp [of "link_step 1"], rule sample_step_2,
      rule converse_rtranclp_into_rtranclp [of "link_step 1"], rule sample_step_3,
      rule converse_rtranclp_into_rtranclp [of "link_step 1"], rule sample_step_4,
      rule converse_rtranclp_into_rtranclp [of "link_step 1"], rule sample_step_5, rule r_into_rtranclp, rule sample_step_6)

theorem workers_wait_forever_witness:
  "\<exists>l. (link_step 1)\<^sup>*\<^sup>* example_link l \<and> \<not> wr_enabled (ln_writer l) \<and>
     (\<forall>l'. (link_step 1)\<^sup>*\<^sup>* (disconnected l) l' \<longrightarrow> 0 \<in> fst ` set (ln_waiting l') \<and> rb_data_size (wr_ring (ln_writer l')) = 0)"
proof (intro exI conjI allI impI)
  let ?l = "(sample_link ''efgh'' 0 0 8 3 2 2 [] ''a'' False [(0, ''ijk'')] [])"
  show "(link_step 1)\<^sup>*\<^sup>* example_link ?l" by (rule sample_run)
  show "\<not> wr_enabled (ln_writer ?l)" by (simp add: sample_link_def)
  fix l'
  assume "(link_step 1)\<^sup>*\<^sup>* (disconnected ?l) l'"
  then have "(\<forall>t < 1. t \<in> fst ` set (ln_waiting l')) \<and> ln_woken l' = [] \<and> rb_data_size (wr_ring (ln_writer l')) = 0"
    by (rule workers_wait_forever [rotated 2]) (simp_all add: sample_link_def)
  then show "0 \<in> fst ` set (ln_waiting l')" "rb_data_size (wr_ring (ln_writer l')) = 0" by simp_all
qed

end
