(* ===== verification/Mukite.thy ===== *)
theory Mukite
  imports Config Writer Rooms
begin

text \<open>
  \<^verbatim>\<open>src/mukite.c\<close> and \<^verbatim>\<open>src/timer.c\<close>: how the configuration is applied to the running process, the signal
  handlers, the connection that \<open>main\<close> opens and closes around the two I/O threads, and the clock thread.
\<close>

subsection \<open>The process\<close>

abbreviation WORKERS_SIZE_LIMIT :: int where "WORKERS_SIZE_LIMIT \<equiv> 1024"
abbreviation ACLS_SIZE_LIMIT :: nat where "ACLS_SIZE_LIMIT \<equiv> 1024"

text \<open>
  An element of \<open>worker_threads.threads\<close>: the pointers to the shared objects are the same in all of them. The name of
  the host is a pointer to the configuration and a length; \<open>wk_threads\<close> counts the threads that were
  started with the element.
\<close>

record worker_slot =
  wk_enabled :: bool
  wk_hostname_length :: nat
  wk_builder_buffer_size :: int
  wk_threads :: nat

record process =
  pr_config :: config
  pr_log_level :: int
  pr_fixed_block_buffer_size :: int
  pr_network_buffer_size :: int
  pr_acl :: acl_config
  pr_size :: int                       \<comment> \<open>\<open>worker_threads.size\<close>\<close>
  pr_threads :: "nat \<Rightarrow> worker_slot"   \<comment> \<open>\<open>worker_threads.threads\<close>\<close>
  pr_running :: bool
  pr_reader_enabled :: bool

definition update_slot :: "nat \<Rightarrow> (worker_slot \<Rightarrow> worker_slot) \<Rightarrow> process \<Rightarrow> process" where
  "update_slot i f p = p\<lparr>pr_threads := (pr_threads p)(i := f (pr_threads p i))\<rparr>"

definition apply_acl :: "(bytes \<Rightarrow> bytes option) \<Rightarrow> process \<Rightarrow> process" where
  "apply_acl files p =
     (let acl = (pr_acl p)\<lparr>acl_default_role := acl_role_by_default (pr_config p)\<rparr> in
      p\<lparr>pr_acl := (case files (acl_data_file (pr_config p)) of
          None \<Rightarrow> acl
        | Some f \<Rightarrow> fst (acl_deserialize acl f ACLS_SIZE_LIMIT))\<rparr>)"

text \<open>A loop over the elements from \<open>a\<close> to \<open>b\<close>; one that starts below 0 leaves the array.\<close>

definition each_slot :: "int \<Rightarrow> int \<Rightarrow> (worker_slot \<Rightarrow> worker_slot) \<Rightarrow> process \<Rightarrow> process run" where
  "each_slot a b f p =
     (if a < b \<and> a < 0 then Fault OutOfBounds else Ret (fold (\<lambda>i. update_slot i f) [nat a..<nat b] p))"

definition new_slot :: "bytes \<Rightarrow> worker_slot \<Rightarrow> worker_slot" where
  "new_slot hostname w = w\<lparr>wk_hostname_length := length hostname, wk_enabled := False\<rparr>"

definition start_slot :: "int \<Rightarrow> worker_slot \<Rightarrow> worker_slot" where
  "start_slot buffer w =
     (let w1 = w\<lparr>wk_builder_buffer_size := buffer\<rparr> in
      if wk_enabled w1 then w1 else w1\<lparr>wk_enabled := True, wk_threads := wk_threads w1 + 1\<rparr>)"

definition apply_config :: "(bytes \<Rightarrow> bytes option) \<Rightarrow> process \<Rightarrow> process run" where
  "apply_config files p =
     (let c = pr_config p;
          p1 = apply_acl files (p\<lparr>pr_log_level := logger_level c,
                 pr_fixed_block_buffer_size := reader_block c, pr_network_buffer_size := reader_buffer c\<rparr>);
          n = min (worker_threads c) WORKERS_SIZE_LIMIT;
          p2 = p1\<lparr>pr_config := c\<lparr>worker_threads := n\<rparr>\<rparr>
      in bind_run
           (if pr_size p2 < n then each_slot (pr_size p2) n (new_slot (component_hostname c)) p2
            else each_slot n (pr_size p2) (wk_enabled_update (\<lambda>_. False)) p2)
           (\<lambda>p3. each_slot 0 n (start_slot (worker_buffer c)) (p3\<lparr>pr_size := n\<rparr>)))"

subsection \<open>Signals\<close>

definition reload_config :: "(bytes \<Rightarrow> bytes option) \<Rightarrow> bytes \<Rightarrow> process \<Rightarrow> process run" where
  "reload_config files stdin p =
     apply_config files (p\<lparr>pr_config := fst (config_read files stdin (pr_config p))\<rparr>)"

text \<open>The data file, when it can be opened, is what \<open>rooms_serialize\<close> writes to it, whatever its result.\<close>

definition serialize_data :: "'h uthash \<Rightarrow> 'h rooms \<Rightarrow> ofile option \<Rightarrow> ofile option" where
  "serialize_data H rs file = map_option (\<lambda>f. fst (rooms_serialize H rs f)) file"

definition terminate :: "'h uthash \<Rightarrow> 'h rooms \<Rightarrow> ofile option \<Rightarrow> process \<Rightarrow> ofile option \<times> process" where
  "terminate H rs file p = (serialize_data H rs file, p\<lparr>pr_running := False, pr_reader_enabled := False\<rparr>)"

subsection \<open>The connection\<close>

text \<open>An attempt to connect; without success the socket is not connected.\<close>

definition main_connect :: "resolver \<Rightarrow> sha1_context \<Rightarrow> config \<Rightarrow> os \<Rightarrow> (socket \<times> os) option run" where
  "main_connect rs sha c s =
     (case net_connect rs (network_host c) (network_port c) of
        (sock, False) \<Rightarrow> Ret (Some (sock, s))
      | (sock, True) \<Rightarrow>
          bind_run (net_stream sha sock ''xmcomp'' (component_hostname c) (component_password c) s)
            (\<lambda>r. Ret (map_option (\<lambda>(ok, sock', s'). (if ok then sock' else net_disconnect sock', s')) r)))"

text \<open>The seconds \<open>main\<close> sleeps before each new attempt, up to the first that succeeds.\<close>

definition next_delay :: "int \<Rightarrow> int" where
  "next_delay d = (if d < 60 then push_bit 1 d else d)"

fun retry_delays :: "int \<Rightarrow> bool list \<Rightarrow> int list" where
  "retry_delays d [] = []"
| "retry_delays d (connected # rest) = (if connected then [] else d # retry_delays (next_delay d) rest)"

text \<open>
  What follows the end of the reader thread: the ring goes offline, the writer thread is joined, the
  ring is cleared, and the stream and the socket are closed. \<open>None\<close>: the writer thread does not end.
\<close>

definition main_disconnect :: "writer \<Rightarrow> writer option" where
  "main_disconnect w =
     (case writer_run (w\<lparr>wr_ring := ringbuffer_offline (wr_ring w)\<rparr>) of
        (w1, Stopped) \<Rightarrow>
          map_option (\<lambda>(ok, s). w1\<lparr>wr_ring := ringbuffer_clear (wr_ring w1), wr_os := s, wr_socket := net_disconnect (wr_socket w1)\<rparr>)
            (net_unstream (wr_socket w1) (wr_os w1))
      | _ \<Rightarrow> None)"

subsection \<open>The clock thread\<close>

text \<open>
  The thread counts ticks of a tenth of a second and asks for the time again after 600 of them.
\<close>

definition timer_begin :: "int \<Rightarrow> clock \<Rightarrow> clock" where
  "timer_begin now ck = ck\<lparr>ck_start := now, ck_ticks := 0\<rparr>"

definition timer_sync :: "int \<Rightarrow> clock \<Rightarrow> clock" where
  "timer_sync now ck = ck\<lparr>ck_ticks := (now - ck_start ck) * TIMER_RESOLUTION\<rparr>"

definition timer_tick :: "clock \<Rightarrow> clock" where
  "timer_tick ck = ck\<lparr>ck_ticks := ck_ticks ck + 1\<rparr>"

definition timer_round :: "int \<Rightarrow> clock \<Rightarrow> clock" where
  "timer_round now ck = (timer_tick ^^ 600) (timer_sync now ck)"

lemma ticks_after: "(timer_tick ^^ n) ck = ck\<lparr>ck_ticks := ck_ticks ck + int n\<rparr>"
  by (induction n) (simp_all add: timer_tick_def)

text \<open>Between two synchronisations the clock is the time of the first one and the tenths that were counted.\<close>

lemma clock_within_round: "timer_time ((timer_tick ^^ n) (timer_sync now ck)) = now + int n div TIMER_RESOLUTION"
  by (simp add: ticks_after timer_time_def timer_sync_def)

subsection \<open>Applying the configuration\<close>

lemma fold_slots:
  "fold (\<lambda>i. update_slot i f) [a..<b] p =
   p\<lparr>pr_threads := (\<lambda>i. if a \<le> i \<and> i < b then f (pr_threads p i) else pr_threads p i)\<rparr>"
proof (induction b)
  case (Suc b)
  show ?case
  proof (cases "a \<le> b")
    case True
    then show ?thesis by (simp add: Suc) (auto simp: update_slot_def fun_eq_iff less_Suc_eq)
  next
    case False
    then have "(\<lambda>i. if a \<le> i \<and> i < Suc b then f (pr_threads p i) else pr_threads p i) = pr_threads p" by (auto simp: fun_eq_iff)
    then show ?thesis using False by simp
  qed
qed simp

lemma each_slot_ok:
  assumes "0 \<le> a"
  shows "each_slot a b f p =
    Ret (p\<lparr>pr_threads := (\<lambda>i. if a \<le> int i \<and> int i < b then f (pr_threads p i) else pr_threads p i)\<rparr>)"
proof -
  have "nat k \<le> i \<longleftrightarrow> k \<le> int i" "i < nat k \<longleftrightarrow> int i < k" for k i by linarith+
  then show ?thesis using assms by (simp add: each_slot_def fold_slots)
qed

definition process_ok :: "process \<Rightarrow> bool" where
  \<comment> \<open>the elements below the size, and only these, are enabled\<close>
  "process_ok p \<longleftrightarrow> 0 \<le> pr_size p \<and> (\<forall>i. wk_enabled (pr_threads p i) \<longleftrightarrow> int i < pr_size p)"

lemma apply_config_cases:
  assumes "0 \<le> pr_size p"
  shows "apply_config files p =
    (if worker_threads (pr_config p) < 0 then Fault OutOfBounds
     else
       let c = pr_config p; n = min (worker_threads c) WORKERS_SIZE_LIMIT in
       Ret ((apply_acl files (p\<lparr>pr_log_level := logger_level c, pr_fixed_block_buffer_size := reader_block c,
           pr_network_buffer_size := reader_buffer c\<rparr>))
         \<lparr>pr_config := c\<lparr>worker_threads := n\<rparr>, pr_size := n,
          pr_threads := (\<lambda>i.
            let w = pr_threads p i;
                w' = (if pr_size p \<le> int i \<and> int i < n then new_slot (component_hostname c) w
                      else if n \<le> int i \<and> int i < pr_size p then w\<lparr>wk_enabled := False\<rparr> else w)
            in if int i < n then start_slot (worker_buffer c) w' else w')\<rparr>))"
proof -
  define c where "c = pr_config p"
  define n where "n = min (worker_threads c) WORKERS_SIZE_LIMIT"
  define q where "q = apply_acl files (p\<lparr>pr_log_level := logger_level c, pr_fixed_block_buffer_size := reader_block c,
      pr_network_buffer_size := reader_buffer c\<rparr>)"
  have q: "pr_size q = pr_size p" "pr_threads q = pr_threads p" by (simp_all add: q_def apply_acl_def Let_def)
  have neg: "worker_threads c < 0 \<longleftrightarrow> n < 0" by (auto simp: n_def)
  have unfold: "apply_config files p =
      bind_run (if pr_size p < n then each_slot (pr_size p) n (new_slot (component_hostname c)) (q\<lparr>pr_config := c\<lparr>worker_threads := n\<rparr>\<rparr>)
          else each_slot n (pr_size p) (wk_enabled_update (\<lambda>_. False)) (q\<lparr>pr_config := c\<lparr>worker_threads := n\<rparr>\<rparr>))
        (\<lambda>p3. each_slot 0 n (start_slot (worker_buffer c)) (p3\<lparr>pr_size := n\<rparr>))"
    unfolding apply_config_def Let_def c_def [symmetric] n_def [symmetric] q_def [symmetric] using q by simp
  show ?thesis
  proof (cases "n < 0")
    case True
    then show ?thesis using assms neg unfold by (simp add: each_slot_def c_def)
  next
    case False
    then show ?thesis
      using assms neg q unfolding unfold Let_def c_def [symmetric] q_def [symmetric] n_def [symmetric]
      by (cases "pr_size p < n") (simp_all add: each_slot_ok cong: if_cong)
  qed
qed

text \<open>
  A number of threads below 0 in the configuration, and nothing else, makes the process write to elements
  below its array of workers.
\<close>

theorem negative_thread_count:
  "0 \<le> pr_size p \<Longrightarrow> faults (apply_config files p) \<longleftrightarrow> worker_threads (pr_config p) < 0"
  by (simp add: apply_config_cases Let_def)

text \<open>
  After the configuration was applied, the elements below the configured number of threads, at most 1024, are
  enabled and the others are not; each of them has the configured buffer size. An element that was enabled before keeps
  its thread, and with it the length that the name of the host had then; every other one gets a new thread, also
  when the thread that was started with it before has not ended.
\<close>

theorem workers_follow_config:
  assumes "process_ok p" and "0 \<le> worker_threads (pr_config p)"
  shows "\<exists>p'. apply_config files p = Ret p' \<and> process_ok p' \<and> pr_size p' = min (worker_threads (pr_config p)) 1024 \<and>
    pr_log_level p' = logger_level (pr_config p) \<and>
    (\<forall>i. int i < pr_size p' \<longrightarrow>
       wk_builder_buffer_size (pr_threads p' i) = worker_buffer (pr_config p) \<and>
       (if int i < pr_size p
        then wk_hostname_length (pr_threads p' i) = wk_hostname_length (pr_threads p i) \<and>
             wk_threads (pr_threads p' i) = wk_threads (pr_threads p i)
        else wk_hostname_length (pr_threads p' i) = length (component_hostname (pr_config p)) \<and>
             wk_threads (pr_threads p' i) = wk_threads (pr_threads p i) + 1))"
proof -
  have ok: "0 \<le> pr_size p" "\<And>i. wk_enabled (pr_threads p i) \<longleftrightarrow> int i < pr_size p" using assms(1) by (simp_all add: process_ok_def)
  define n where "n = min (worker_threads (pr_config p)) WORKERS_SIZE_LIMIT"
  have n: "0 \<le> n" "\<not> worker_threads (pr_config p) < 0" using assms(2) by (simp_all add: n_def)
  show ?thesis
    unfolding apply_config_cases [OF ok(1)] n_def [symmetric] Let_def if_not_P [OF n(2)]
    using n(1) ok(2) by (auto simp: process_ok_def new_slot_def start_slot_def apply_acl_def Let_def)
qed

definition example_process :: "int \<Rightarrow> process" where
  "example_process n =
     \<lparr>pr_config = (config_init None)\<lparr>component_hostname := ''muc.example'', worker_threads := n\<rparr>, pr_log_level = 0,
      pr_fixed_block_buffer_size = 0, pr_network_buffer_size = 0, pr_acl = \<lparr>acl_default_role = 0, acl_first = []\<rparr>,
      pr_size = 0, pr_threads = (\<lambda>_. \<lparr>wk_enabled = False, wk_hostname_length = 0, wk_builder_buffer_size = 0, wk_threads = 0\<rparr>),
      pr_running = True, pr_reader_enabled = False\<rparr>"

theorem negative_thread_count_witness: "faults (apply_config (\<lambda>_. None) (example_process (-1)))"
  using negative_thread_count [of "example_process (-1)" "\<lambda>_. None"] by (simp add: example_process_def)

theorem workers_follow_config_witness:
  "\<exists>p'. apply_config (\<lambda>_. None) (example_process 5000) = Ret p' \<and> pr_size p' = 1024 \<and>
    wk_enabled (pr_threads p' 1023) \<and> wk_hostname_length (pr_threads p' 0) = 11"
proof -
  have "process_ok (example_process 5000)" "0 \<le> worker_threads (pr_config (example_process 5000))"
    by (simp_all add: process_ok_def example_process_def)
  from workers_follow_config [OF this, of "\<lambda>_. None"] show ?thesis
    by (auto simp: process_ok_def example_process_def)
qed

subsection \<open>Connecting and leaving\<close>

text \<open>The delays double up to 64 seconds.\<close>

lemma next_delay_power: "k \<le> 6 \<Longrightarrow> next_delay (2 ^ k) = 2 ^ min (Suc k) 6"
proof (cases "k = 6")
  case False
  assume "k \<le> 6"
  then have "k \<le> 5" using False by simp
  then have "(2 :: int) ^ k \<le> 2 ^ 5" by (intro power_increasing) simp_all
  then show ?thesis using \<open>k \<le> 5\<close> by (simp add: next_delay_def push_bit_eq_mult)
qed (simp add: next_delay_def)

lemma retry_delays_double: "k \<le> 6 \<Longrightarrow> retry_delays (2 ^ k) (replicate n False) = map (\<lambda>i. 2 ^ min (k + i) 6) [0..<n]"
proof (induction n arbitrary: k)
  case (Suc n)
  have "[0..<Suc n] = 0 # map Suc [0..<n]" by (simp add: map_Suc_upt upt_conv_Cons)
  then show ?case using Suc.IH [of "min (Suc k) 6"] Suc.prems next_delay_power by (auto simp: min_def)
qed simp



end
