(* ===== verification/Daemon.thy ===== *)
theory Daemon
  imports Server Mukite
begin

text \<open>
  The running process: the loop of a worker thread (\<^verbatim>\<open>worker_thread_entry\<close> of \<^verbatim>\<open>src/worker.c\<close>) with its
  own storage, the start of \<open>main\<close> and one round of its loop (\<^verbatim>\<open>src/mukite.c\<close>), and the threads together: the reader, the workers
  that were started by the configuration, the signals and the connections. The theory shows that whatever these do
  is a run of the service of theory Server, and what becomes of the workers when the configuration changes.
\<close>

subsection \<open>The loop of a worker thread\<close>

text \<open>
  The local variables of the thread: the element of \<open>worker_threads.threads\<close> it was started with, the size of its
  buffer and the length of the host name that it copied (the text is not copied: it is in the configuration). \<open>wt_waiting\<close>: the
  thread is in \<open>queue_pop_data\<close>, after the tests at the head of the loop. There is memory for every buffer; one of negative size has
  room for nothing.
\<close>

record worker_thread =
  wt_slot :: nat
  wt_allocated :: int
  wt_hostname_length :: nat
  wt_waiting :: bool
  wt_running :: bool

definition worker_begin :: "process \<Rightarrow> nat \<Rightarrow> worker_thread" where
  "worker_begin p i =
     \<lparr>wt_slot = i, wt_allocated = wk_builder_buffer_size (pr_threads p i),
      wt_hostname_length = wk_hostname_length (pr_threads p i), wt_waiting = False, wt_running = True\<rparr>"

text \<open>The bytes of \<open>config.component.hostname\<close>: the text, its null character and what is left of older texts.\<close>

definition hostname_bytes :: "bytes \<Rightarrow> process \<Rightarrow> nat \<Rightarrow> bytes" where
  "hostname_bytes leftover p n = take n (component_hostname (pr_config p) @ CHR 0x00 # leftover)"

definition worker_resize :: "process \<Rightarrow> worker_thread \<Rightarrow> worker_thread" where
  "worker_resize p wt =
     (let n = wk_builder_buffer_size (pr_threads p (wt_slot wt)) in
      if wt_allocated wt \<noteq> n then wt\<lparr>wt_allocated := n\<rparr> else wt)"

definition storage_config :: "bytes \<Rightarrow> process \<Rightarrow> worker_thread \<Rightarrow> worker_config" where
  "storage_config leftover p wt =
     \<lparr>wc_hostname = Some (hostname_bytes leftover p (wt_hostname_length wt)), wc_builder_buffer_size = nat (wt_allocated wt)\<rparr>"

text \<open>
  From the head of the loop, or from \<open>queue_pop_data\<close> if the thread is waiting there, to the end of the
  turn or to the next wait. The stanza, if there is one, is handled in the way of \<open>serve_turn\<close>.
\<close>

definition worker_round ::
  "'h uthash \<Rightarrow> platform \<Rightarrow> clock \<Rightarrow> int \<Rightarrow> int \<Rightarrow> bytes \<Rightarrow> process \<Rightarrow> 'h service \<Rightarrow> worker_thread \<Rightarrow>
   ('h service \<times> worker_thread) run" where
  "worker_round H P ck now now' leftover p s wt =
     (if \<not> wt_waiting wt \<and> \<not> wk_enabled (pr_threads p (wt_slot wt)) then Ret (s, wt\<lparr>wt_running := False\<rparr>)
      else
        (let wt1 = (if wt_waiting wt then wt else worker_resize p wt);
             waits = (sq_data_start (sr_queue s) = 0)
         in bind_run (serve_turn H P (pr_acl p) ck now now' (storage_config leftover p wt1) s) (\<lambda>s'.
              Ret (s', wt1\<lparr>wt_waiting := waits\<rparr>))))"

subsection \<open>\<open>main\<close>\<close>

text \<open>
  The start: \<open>None\<close> when the configuration cannot be opened or the data file cannot be read; then the process ends.
  The memory of the ring and the contents of the global variables are parameters.
\<close>

definition process_zero :: "config \<Rightarrow> process" where
  "process_zero c =
     \<lparr>pr_config = c, pr_log_level = 0, pr_fixed_block_buffer_size = 0, pr_network_buffer_size = 0,
      pr_acl = acl_init \<lparr>acl_default_role = 0, acl_first = []\<rparr>, pr_size = 0,
      pr_threads = (\<lambda>_. \<lparr>wk_enabled = False, wk_hostname_length = 0, wk_builder_buffer_size = 0, wk_threads = 0\<rparr>),
      pr_running = True, pr_reader_enabled = False\<rparr>"

definition main_start ::
  "'h uthash \<Rightarrow> utlist \<Rightarrow> (bytes \<Rightarrow> bytes option) \<Rightarrow> bytes \<Rightarrow> bytes option \<Rightarrow> bytes \<Rightarrow> ringbuffer \<Rightarrow> stanza_queue \<Rightarrow>
   (process \<times> 'h rooms \<times> ringbuffer \<times> stanza_queue) option" where
  "main_start H U files stdin argument memory rb q =
     (case config_read files stdin (config_init argument) of
        (c, False) \<Rightarrow> None
      | (c, True) \<Rightarrow>
          map_option (\<lambda>rs. (process_zero c, rs, ringbuffer_init rb memory, queue_init q (nat (reader_queue c))))
            (deserialize_data H U (files (worker_data_file c)) (rooms_init H)))"

text \<open>
  The loop from the attempt to connect to the start of the threads. Without a connection it sleeps
  and tries again; otherwise the configuration is applied, which starts the workers. \<open>None\<close>: a call of the kernel
  does not return.
\<close>

datatype attempt = Retry int int \<comment> \<open>the seconds it sleeps, and the delay of the next time\<close> | Online socket process

definition main_attempt ::
  "resolver \<Rightarrow> sha1_context \<Rightarrow> (bytes \<Rightarrow> bytes option) \<Rightarrow> int \<Rightarrow> process \<Rightarrow> os \<Rightarrow> (attempt \<times> os) option run" where
  "main_attempt rs sha files delay p s =
     bind_run (main_connect rs sha (pr_config p) s) (\<lambda>r.
       case r of
         None \<Rightarrow> Ret None
       | Some (sock, s') \<Rightarrow>
           if \<not> sk_connected sock then Ret (Some (Retry delay (next_delay delay), s'))
           else bind_run (apply_config files p) (\<lambda>p'. Ret (Some (Online sock (p'\<lparr>pr_reader_enabled := True\<rparr>), s'))))"

subsection \<open>The threads together\<close>

record 'h daemon =
  dm_process :: process
  dm_service :: "'h service"
  dm_workers :: "worker_thread list"

text \<open>The threads that a new configuration starts: one for every element that was not enabled.\<close>

definition started :: "process \<Rightarrow> process \<Rightarrow> nat list" where
  "started p p' = filter (\<lambda>i. wk_threads (pr_threads p i) < wk_threads (pr_threads p' i)) [0..<nat (pr_size p')]"

definition adopt_config :: "process \<Rightarrow> 'h daemon \<Rightarrow> 'h daemon" where
  "adopt_config p' d =
     d\<lparr>dm_process := p',
       dm_service := (dm_service d)\<lparr>sr_reader := (sr_reader (dm_service d))\<lparr>rd_queue :=
          (sr_queue (dm_service d))\<lparr>sq_fixed_block_buffer_size := pr_fixed_block_buffer_size p',
             sq_network_buffer_size := pr_network_buffer_size p'\<rparr>\<rparr>\<rparr>,
       dm_workers := dm_workers d @ map (worker_begin p') (started (dm_process d) p')\<rparr>"

definition worker_event ::
  "'h uthash \<Rightarrow> platform \<Rightarrow> clock \<Rightarrow> int \<Rightarrow> int \<Rightarrow> bytes \<Rightarrow> nat \<Rightarrow> 'h daemon \<Rightarrow> 'h daemon run" where
  "worker_event H P ck now now' leftover k d =
     bind_run (worker_round H P ck now now' leftover (dm_process d) (dm_service d) (dm_workers d ! k)) (\<lambda>(s, wt).
       Ret (d\<lparr>dm_service := s, dm_workers := (dm_workers d)[k := wt]\<rparr>))"

inductive daemon_step ::
  "allocator \<Rightarrow> 'h uthash \<Rightarrow> platform \<Rightarrow> (bytes \<Rightarrow> bytes option) \<Rightarrow> 'h daemon \<Rightarrow> 'h daemon \<Rightarrow> bool" for A H P files where
  stanza: "serve_stanza A (dm_service d) = Ret s \<Longrightarrow> daemon_step A H P files d (d\<lparr>dm_service := s\<rparr>)"
| receive: "reader_receive received (sr_reader (dm_service d)) = Ret (Some st) \<Longrightarrow>
    daemon_step A H P files d (d\<lparr>dm_service := (dm_service d)\<lparr>sr_reader := st\<rparr>\<rparr>)"
| resize: "daemon_step A H P files d
    (d\<lparr>dm_service := (dm_service d)\<lparr>sr_reader := reader_resize A (sr_reader (dm_service d))\<rparr>\<rparr>)"
| worker: "k < length (dm_workers d) \<Longrightarrow> wt_running (dm_workers d ! k) \<Longrightarrow>
    worker_event H P ck now now' leftover k d = Ret d' \<Longrightarrow> daemon_step A H P files d d'"
| reload: "reload_config files stdin (dm_process d) = Ret p' \<Longrightarrow> daemon_step A H P files d (adopt_config p' d)"
| connect: "main_attempt rs sha files delay (dm_process d) os = Ret (Some (Online sock p', os')) \<Longrightarrow>
    reader_init A (sr_queue (dm_service (adopt_config p' d))) = Some st \<Longrightarrow>
    daemon_step A H P files d ((adopt_config p' d)\<lparr>dm_service := (dm_service (adopt_config p' d))\<lparr>sr_reader := st\<rparr>\<rparr>)"
| terminated: "terminate H (sr_rooms (dm_service d)) file (dm_process d) = (file', p') \<Longrightarrow>
    daemon_step A H P files d (d\<lparr>dm_process := p'\<rparr>)"

definition daemon_start :: "'h uthash \<Rightarrow> net_ring \<Rightarrow> process \<Rightarrow> 'h rooms \<Rightarrow> stanza_queue \<Rightarrow> 'h daemon" where
  "daemon_start H r p rs q =
     \<lparr>dm_process = p,
      dm_service = \<lparr>sr_reader = \<lparr>rd_ring = r, rd_queue = q\<rparr>, sr_rooms = rs, sr_filled = [], sr_taken = [], sr_written = []\<rparr>,
      dm_workers = []\<rparr>"

subsection \<open>The threads are a run of the service\<close>

lemma round_serves:
  assumes "worker_round H P ck now now' leftover p s wt = Ret (s', wt')"
  shows "(s' = s \<or> (\<exists>wc. serve_turn H P (pr_acl p) ck now now' wc s = Ret s')) \<and> wt_slot wt' = wt_slot wt"
  using assms by (auto simp: worker_round_def worker_resize_def Let_def split: if_splits)

lemma service_configure:
  "service_step A H P s (s\<lparr>sr_reader := (sr_reader s)\<lparr>rd_queue := (sr_queue s)
     \<lparr>sq_fixed_block_buffer_size := fixed, sq_network_buffer_size := network\<rparr>\<rparr>\<rparr>)"
  by (rule service_step.configure)

lemma daemon_serves:
  assumes "daemon_step A H P files d d'"
  shows "(service_step A H P)\<^sup>*\<^sup>* (dm_service d) (dm_service d')"
  using assms
proof cases
  case (stanza s)
  then show ?thesis by (auto intro: service_step.stanza)
next
  case (receive received st)
  then show ?thesis by (auto intro: service_step.receive)
next
  case resize
  then show ?thesis using service_step.resize [of A H P "dm_service d"] by auto
next
  case (worker k ck now now' leftover)
  then obtain s wt where w: "worker_round H P ck now now' leftover (dm_process d) (dm_service d) (dm_workers d ! k) = Ret (s, wt)"
    and d': "d' = d\<lparr>dm_service := s, dm_workers := (dm_workers d)[k := wt]\<rparr>"
    by (auto simp: worker_event_def)
  show ?thesis using round_serves [OF w] by (auto simp: d' intro: service_step.turn)
next
  case (reload stdin p')
  then show ?thesis using service_configure [of A H P "dm_service d"] by (auto simp: adopt_config_def)
next
  case (connect rs sha delay os sock p' os' st)
  have "service_step A H P (dm_service d) (dm_service (adopt_config p' d))"
    by (simp add: adopt_config_def service_configure)
  moreover have "service_step A H P (dm_service (adopt_config p' d)) (dm_service d')"
    using service_step.reconnect [OF connect(3)] by (simp add: connect(1))
  ultimately show ?thesis by auto
next
  case (terminated f f' p')
  then show ?thesis by simp
qed

text \<open>How many threads were started with each element.\<close>

definition threads_of :: "nat \<Rightarrow> worker_thread list \<Rightarrow> nat" where
  "threads_of i ws = length (filter (\<lambda>wt. wt_slot wt = i) ws)"

definition workers_counted :: "'h daemon \<Rightarrow> bool" where
  "workers_counted d \<longleftrightarrow>
     process_ok (dm_process d) \<and> (\<forall>i. threads_of i (dm_workers d) = wk_threads (pr_threads (dm_process d) i))"

lemma apply_config_starts:
  assumes "process_ok p" and "apply_config files p = Ret p'"
  shows "process_ok p'" and "wk_threads (pr_threads p' i) = wk_threads (pr_threads p i) + (if i \<in> set (started p p') then 1 else 0)"
    and "wk_threads (pr_threads p' i) = wk_threads (pr_threads p i) + (if pr_size p \<le> int i \<and> int i < pr_size p' then 1 else 0)"
proof -
  have ok: "0 \<le> pr_size p" "\<And>i. wk_enabled (pr_threads p i) \<longleftrightarrow> int i < pr_size p" using assms(1) by (simp_all add: process_ok_def)
  define n where "n = min (worker_threads (pr_config p)) WORKERS_SIZE_LIMIT"
  have pos: "\<not> worker_threads (pr_config p) < 0" using assms(2) by (auto simp: apply_config_cases [OF ok(1)] Let_def split: if_splits)
  then have n: "0 \<le> n" by (simp add: n_def)
  note p' = assms(2) [unfolded apply_config_cases [OF ok(1)] if_not_P [OF pos] Let_def n_def [symmetric], symmetric]
  show "process_ok p'" using p' n ok(2) by (auto simp: process_ok_def new_slot_def start_slot_def Let_def)
  have t: "wk_threads (pr_threads p' i) = wk_threads (pr_threads p i) + (if pr_size p \<le> int i \<and> int i < n then 1 else 0)"
    using p' ok(2) [of i] by (auto simp: new_slot_def start_slot_def Let_def)
  moreover have "pr_size p' = n" using p' by auto
  ultimately show "wk_threads (pr_threads p' i) = wk_threads (pr_threads p i) + (if pr_size p \<le> int i \<and> int i < pr_size p' then 1 else 0)"
    and "wk_threads (pr_threads p' i) = wk_threads (pr_threads p i) + (if i \<in> set (started p p') then 1 else 0)"
    by (auto simp: started_def)
qed

lemma filter_one: "distinct xs \<Longrightarrow> length (filter (\<lambda>j. j = i) xs) = (if i \<in> set xs then 1 else 0)"
  by (induction xs) auto

lemma threads_of_adopted:
  "threads_of i (dm_workers (adopt_config p' d)) = threads_of i (dm_workers d) + (if i \<in> set (started (dm_process d) p') then 1 else 0)"
proof -
  have "distinct (started (dm_process d) p')" by (simp add: started_def)
  from filter_one [OF this, of i] show ?thesis by (simp add: threads_of_def adopt_config_def filter_map o_def worker_begin_def)
qed

lemma adopt_counted:
  assumes "workers_counted d" and "process_ok p0" and "pr_threads p0 = pr_threads (dm_process d)" and "apply_config files p0 = Ret p'"
  shows "workers_counted (adopt_config p' d)"
proof -
  have "started p0 p' = started (dm_process d) p'" by (simp add: started_def assms(3))
  then show ?thesis
    using apply_config_starts [OF assms(2,4)] assms(1,3) threads_of_adopted [of _ p' d]
    by (simp add: workers_counted_def) (simp add: adopt_config_def)
qed

lemma threads_of_update: "k < length ws \<Longrightarrow> wt_slot wt = wt_slot (ws ! k) \<Longrightarrow> threads_of i (ws[k := wt]) = threads_of i ws"
proof -
  assume k: "k < length ws" and slot: "wt_slot wt = wt_slot (ws ! k)"
  have slots: "threads_of i xs = length (filter (\<lambda>j. j = i) (map wt_slot xs))" for xs by (simp add: threads_of_def filter_map o_def)
  have "map wt_slot (ws[k := wt]) = map wt_slot ws" by (simp add: map_update slot) (metis k list_update_id map_update nth_map)
  then show ?thesis by (simp only: slots)
qed

lemma daemon_counts:
  assumes "daemon_step A H P files d d'" and "workers_counted d"
  shows "workers_counted d'"
  using assms(1)
proof cases
  case (worker k ck now now' leftover)
  then obtain s wt where w: "worker_round H P ck now now' leftover (dm_process d) (dm_service d) (dm_workers d ! k) = Ret (s, wt)"
    and d': "d' = d\<lparr>dm_service := s, dm_workers := (dm_workers d)[k := wt]\<rparr>"
    by (auto simp: worker_event_def)
  show ?thesis using assms(2) round_serves [OF w] worker(1) by (simp add: workers_counted_def d' threads_of_update)
next
  case (reload stdin p')
  have "process_ok (dm_process d)" using assms(2) by (simp add: workers_counted_def)
  then show ?thesis
    unfolding reload(1) using reload(2)
    by (intro adopt_counted [OF assms(2)]) (auto simp: reload_config_def process_ok_def)
next
  case (connect rs sha delay os sock p' os' st)
  obtain p1 where p1: "apply_config files (dm_process d) = Ret p1" "p' = p1\<lparr>pr_reader_enabled := True\<rparr>"
  proof -
    obtain c where "main_connect rs sha (pr_config (dm_process d)) os = Ret (Some c)"
      using connect(2) by (auto simp: main_attempt_def split: option.split_asm)
    then show ?thesis using that connect(2) by (cases c) (auto simp: main_attempt_def split: if_split_asm)
  qed
  have "process_ok (dm_process d)" using assms(2) by (simp add: workers_counted_def)
  have "worker_begin (p1\<lparr>pr_reader_enabled := True\<rparr>) = worker_begin p1" by (rule ext) (simp add: worker_begin_def)
  with adopt_counted [OF assms(2) \<open>process_ok (dm_process d)\<close> refl p1(1)] show ?thesis
    unfolding connect(1) p1(2) by (simp add: workers_counted_def adopt_config_def process_ok_def started_def)
next
  case (terminated f f' p')
  then show ?thesis using assms(2) by (auto simp: workers_counted_def terminate_def process_ok_def)
qed (use assms(2) in \<open>simp_all add: workers_counted_def\<close>)



subsection \<open>Workers and a new configuration\<close>

text \<open>
  A worker whose element is disabled ends at the head of its loop. If it waits for a stanza at that moment it goes on
  waiting, takes one more stanza when there is one, and ends after it.
\<close>

theorem disabled_worker_ends:
  assumes "\<not> wk_enabled (pr_threads p (wt_slot wt))" and "worker_round H P ck now now' leftover p s wt = Ret (s', wt')"
  shows "if \<not> wt_waiting wt then s' = s \<and> \<not> wt_running wt'
    else if sq_data_start (sr_queue s) = 0 then wt' = wt \<and> sr_taken s' = sr_taken s \<and> sr_rooms s' = sr_rooms s \<and> sr_written s' = sr_written s
    else sr_taken s' = sr_taken s @ [block_text (sq_entry (sr_queue s) (sq_data_start (sr_queue s)))] \<and>
      (\<forall>s2. worker_round H P ck2 now2 now2' leftover2 p s2 wt' = Ret (s2, wt'\<lparr>wt_running := False\<rparr>))"
proof (cases "wt_waiting wt")
  case False
  then show ?thesis using assms by (auto simp: worker_round_def)
next
  case True
  then obtain sv where s': "serve_turn H P (pr_acl p) ck now now' (storage_config leftover p wt) s = Ret s'"
    and wt': "wt' = wt\<lparr>wt_waiting := (sq_data_start (sr_queue s) = 0)\<rparr>"
    using assms(2) by (auto simp: worker_round_def Let_def)
  show ?thesis
  proof (cases "sq_data_start (sr_queue s) = 0")
    case empty: True
    then have "\<exists>q. queue_pop_data (sr_queue s) = (q, None)" by (auto simp: queue_pop_data_def Let_def)
    then show ?thesis using True empty s' wt' by (auto simp: serve_turn_def worker_turn_def)
  next
    case False
    then show ?thesis using True s' wt' assms(1) by (auto simp: serve_turn_def worker_round_def)
  qed
qed

theorem disabled_worker_ends_witness:
  "\<exists>p (s :: (bytes \<times> addr) list service) wt. \<not> wk_enabled (pr_threads p (wt_slot wt)) \<and>
     (case worker_round uthash_ref reference_platform example_clock 0 0 [] p s wt of Ret (s', wt') \<Rightarrow> s' = s \<and> \<not> wt_running wt' | Fault _ \<Rightarrow> False)"
proof -
  let ?p = "process_zero (config_init None)" and ?s = example_service
  let ?wt = "\<lparr>wt_slot = 0, wt_allocated = 100, wt_hostname_length = 3, wt_waiting = False, wt_running = True\<rparr>"
  have off: "\<not> wk_enabled (pr_threads ?p (wt_slot ?wt))" by (simp add: process_zero_def)
  then have r: "worker_round uthash_ref reference_platform example_clock 0 0 [] ?p ?s ?wt = Ret (?s, ?wt\<lparr>wt_running := False\<rparr>)"
    by (simp add: worker_round_def)
  show ?thesis
    using disabled_worker_ends [OF off r, of example_clock 0 0 "[]"] off r by (intro exI [of _ ?p] exI [of _ ?s] exI [of _ ?wt]) simp
qed

lemma round_hostname: "worker_round H P ck now now' leftover p s wt = Ret (s', wt') \<Longrightarrow> wt_hostname_length wt' = wt_hostname_length wt"
  by (auto simp: worker_round_def worker_resize_def Let_def split: if_splits)

lemma daemon_keeps_hostname:
  assumes "(daemon_step A H P files)\<^sup>*\<^sup>* d d'" and "k < length (dm_workers d)"
  shows "k < length (dm_workers d') \<and> wt_hostname_length (dm_workers d' ! k) = wt_hostname_length (dm_workers d ! k)"
  using assms(1)
proof (induction rule: rtranclp_induct)
  case (step d1 d2)
  from step.hyps(2) show ?case
  proof cases
    case (worker j ck now now' leftover)
    then obtain s wt where w: "worker_round H P ck now now' leftover (dm_process d1) (dm_service d1) (dm_workers d1 ! j) = Ret (s, wt)"
      and "d2 = d1\<lparr>dm_service := s, dm_workers := (dm_workers d1)[j := wt]\<rparr>"
      by (auto simp: worker_event_def)
    then show ?thesis using step.IH round_hostname [OF w] by (cases "j = k") auto
  qed (use step.IH in \<open>simp_all add: adopt_config_def nth_append\<close>)
qed (use assms(2) in simp)

text \<open>
  A worker copied the length of the host name when it was started, but not the text. Whatever happens afterwards,
  it prints as many bytes of the name that is configured now as the old one had; that is the name only when
  both have the same length.
\<close>

theorem stale_hostname:
  assumes "(daemon_step A H P files)\<^sup>*\<^sup>* d d'" and "k < length (dm_workers d)"
  shows "wc_hostname (storage_config leftover (dm_process d') (dm_workers d' ! k)) =
      Some (take (wt_hostname_length (dm_workers d ! k)) (component_hostname (pr_config (dm_process d')) @ CHR 0x00 # leftover)) \<and>
    (wc_hostname (storage_config leftover (dm_process d') (dm_workers d' ! k)) = Some (component_hostname (pr_config (dm_process d'))) \<longleftrightarrow>
       wt_hostname_length (dm_workers d ! k) = length (component_hostname (pr_config (dm_process d'))))"
proof -
  have len: "wt_hostname_length (dm_workers d' ! k) = wt_hostname_length (dm_workers d ! k)"
    using daemon_keeps_hostname [OF assms] by blast
  have "take n (xs @ y # ys) = xs \<longleftrightarrow> n = length xs" for n and xs ys :: bytes and y
  proof
    assume "take n (xs @ y # ys) = xs"
    from arg_cong [OF this, of length] show "n = length xs" by (simp add: min_def split: if_splits)
  qed simp
  then show ?thesis by (simp add: storage_config_def hostname_bytes_def len)
qed

end
