(* ===== verification/Support.thy ===== *)
theory Support
  imports Routing
begin

text \<open>
  What every part of the program uses: the messages of the log (\<^verbatim>\<open>xmcomp/src/logger.h\<close>), the masks and handlers of
  signals (\<^verbatim>\<open>xmcomp/src/sighelper.c\<close>), and the extension of rooms that is left out of the default build
  (\<^verbatim>\<open>src/mewcat.c\<close>).
\<close>

subsection \<open>The log\<close>

definition log_level_names :: "bytes list" where
  "log_level_names = [''debug'', ''info '', ''warn '', ''error'']"

abbreviation LOG_DEBUG :: int where "LOG_DEBUG \<equiv> 0"
abbreviation LOG_INFO :: int where "LOG_INFO \<equiv> 1"
abbreviation LOG_WARN :: int where "LOG_WARN \<equiv> 2"
abbreviation LOG_ERROR :: int where "LOG_ERROR \<equiv> 3"
abbreviation LOG_FATAL :: int where "LOG_FATAL \<equiv> 666"

text \<open>
  Where a message comes from: the thread, the text of \<open>ctime\<close> (which ends in a line feed), the date and time of the build, and the
  place in the source. The build defines \<open>LOG_PTHREAD\<close>, \<open>LOG_CTIME\<close> and \<open>LOG_POS\<close>, so all of them are printed.
\<close>

record log_site =
  ls_thread :: nat
  ls_ctime :: bytes
  ls_date :: bytes
  ls_time :: bytes
  ls_path :: bytes
  ls_func :: bytes
  ls_line :: nat

definition log_name :: "int \<Rightarrow> bytes" where
  "log_name level = (if level \<ge> 0 \<and> level < 4 then log_level_names ! nat level else ''unkwn'')"

text \<open>\<open>LOG\<close>: what is printed to the standard error, if anything.\<close>

definition log_line :: "int \<Rightarrow> log_site \<Rightarrow> int \<Rightarrow> bytes \<Rightarrow> bytes option" where
  "log_line log_level site level msg =
     (if level \<ge> log_level then
        Some (log_name level @ '' ('' @ show_int level @ '')> '' @
          ''Thread['' @ show_int (int (ls_thread site)) @ ''] '' @ ls_ctime site @
          ''['' @ ls_date site @ '' '' @ ls_time site @ ''] '' @ ls_path site @ '':'' @ ls_func site @ ''():'' @
          show_int (int (ls_line site)) @ '': '' @ msg @ [CHR 0x0A])
      else None)"

definition LDEBUG :: "int \<Rightarrow> log_site \<Rightarrow> bytes \<Rightarrow> bytes option" where "LDEBUG l s = log_line l s LOG_DEBUG"
definition LINFO :: "int \<Rightarrow> log_site \<Rightarrow> bytes \<Rightarrow> bytes option" where "LINFO l s = log_line l s LOG_INFO"
definition LWARN :: "int \<Rightarrow> log_site \<Rightarrow> bytes \<Rightarrow> bytes option" where "LWARN l s = log_line l s LOG_WARN"
definition LERROR :: "int \<Rightarrow> log_site \<Rightarrow> bytes \<Rightarrow> bytes option" where "LERROR l s = log_line l s LOG_ERROR"

text \<open>\<open>LFATAL\<close> prints with the level 666 and ends the process with the status 1.\<close>

definition LFATAL :: "int \<Rightarrow> log_site \<Rightarrow> bytes \<Rightarrow> bytes option \<times> int" where
  "LFATAL l s msg = (log_line l s LOG_FATAL msg, 1)"

text \<open>
  The level of the configuration is the lowest that is printed: with a higher one, less is printed. A fatal message ends
  the process even when the level keeps it out of the log.
\<close>

lemma log_level_filters: "log_line l s level msg \<noteq> None \<Longrightarrow> l' \<le> l \<Longrightarrow> log_line l' s level msg = log_line l s level msg"
  by (auto simp: log_line_def split: if_splits)

lemma silent_end: "LFATAL 667 s msg = (None, 1)"
  by (simp add: LFATAL_def log_line_def)

lemma log_example:
  "LERROR 1 \<lparr>ls_thread = 7, ls_ctime = ''Thu'' @ [CHR 0x0A], ls_date = ''D'', ls_time = ''T'', ls_path = ''a.c'', ls_func = ''f'', ls_line = 12\<rparr>
     ''bad'' = Some (''error (3)> Thread[7] Thu'' @ [CHR 0x0A] @ ''[D T] a.c:f():12: bad'' @ [CHR 0x0A])"
  by code_simp

subsection \<open>Signals\<close>

text \<open>A mask is the set of the signals that a thread does not receive; the handlers belong to the process.\<close>

type_synonym signal_mask = "nat set"

datatype handler = Reload_Config | Serialize_Data | Terminate | Interrupt_Recv

abbreviation SIGHUP :: nat where "SIGHUP \<equiv> 1"
abbreviation SIGINT :: nat where "SIGINT \<equiv> 2"
abbreviation SIGQUIT :: nat where "SIGQUIT \<equiv> 3"
abbreviation SIGUSR1 :: nat where "SIGUSR1 \<equiv> 10"
abbreviation SIGUSR2 :: nat where "SIGUSR2 \<equiv> 12"
abbreviation SIGTERM :: nat where "SIGTERM \<equiv> 15"

definition sighelper_sigblockall :: "nat \<Rightarrow> signal_mask" where
  "sighelper_sigblockall except_signal = (if except_signal \<noteq> 0 then UNIV - {except_signal} else UNIV)"

text \<open>The mask that is in force while the handler runs is full, so handlers do not interrupt each other.\<close>

record sig_action =
  sa_handler :: handler
  sa_mask :: signal_mask

type_synonym sig_table = "nat \<Rightarrow> sig_action option"

definition sighelper_sigaction :: "nat \<Rightarrow> handler \<Rightarrow> sig_table \<Rightarrow> sig_table" where
  "sighelper_sigaction n h t = t(n \<mapsto> \<lparr>sa_handler = h, sa_mask = UNIV\<rparr>)"

definition main_handlers :: "sig_table \<Rightarrow> sig_table" where
  "main_handlers t =
     sighelper_sigaction SIGINT Terminate (sighelper_sigaction SIGQUIT Terminate (sighelper_sigaction SIGTERM Terminate
       (sighelper_sigaction SIGUSR1 Serialize_Data (sighelper_sigaction SIGHUP Reload_Config t))))"

definition reader_handlers :: "sig_table \<Rightarrow> sig_table" where
  "reader_handlers t = sighelper_sigaction SIGUSR2 Interrupt_Recv t"

datatype thread_kind = Main_Thread | Timer_Thread | Worker_Thread | Writer_Thread | Reader_Thread

text \<open>The masks once every thread has passed the first lines of its function.\<close>

fun thread_mask :: "thread_kind \<Rightarrow> signal_mask" where
  "thread_mask Main_Thread = {}"
| "thread_mask Timer_Thread = sighelper_sigblockall 0"
| "thread_mask Worker_Thread = sighelper_sigblockall 0"
| "thread_mask Writer_Thread = sighelper_sigblockall 0"
| "thread_mask Reader_Thread = sighelper_sigblockall SIGUSR2"

text \<open>The thread on which the kernel runs a handler for a signal to the process: any one that does not block the signal.\<close>

definition may_handle :: "nat \<Rightarrow> thread_kind \<Rightarrow> bool" where
  "may_handle n t \<longleftrightarrow> n \<notin> thread_mask t"

text \<open>
  Reloading, saving and terminating, which work on the data of \<open>main\<close>, run on the main thread only; \<open>recv\<close> is the only call
  of the other threads that a signal interrupts; and no handler is interrupted by another one.
\<close>

theorem handlers_run_on_main:
  assumes "main_handlers t n = Some a" and "\<forall>k. t k = None" and "may_handle n th"
  shows "th = Main_Thread \<and> sa_mask a = UNIV \<and> sa_handler a \<in> {Reload_Config, Serialize_Data, Terminate}"
proof -
  have n: "n \<in> {SIGHUP, SIGINT, SIGQUIT, SIGUSR1, SIGTERM}"
    using assms(1,2) by (auto simp: main_handlers_def sighelper_sigaction_def split: if_split_asm)
  then have "th = Main_Thread" using assms(3) by (cases th) (auto simp: may_handle_def sighelper_sigblockall_def)
  then show ?thesis using assms(1,2) by (auto simp: main_handlers_def sighelper_sigaction_def split: if_split_asm)
qed

subsection \<open>MEWCAT\<close>

text \<open>
  The hook that a build with \<open>MEWCAT\<close> calls before a stanza is sent on; a stanza is held back when it returns \<open>FALSE\<close>,
  which it never does (the filter is in a comment). So theory Routing, the build without it, is the build with it, too.
\<close>

definition mewcat_handle :: "room \<Rightarrow> addr \<Rightarrow> addr option \<Rightarrow> builder_packet \<Rightarrow> bool" where
  "mewcat_handle r sender receiver egress = True"

end
