(* ===== verification/Spec2Isabelle.thy ===== *)
theory Spec2Isabelle
  imports Route_Messages Wire Concurrency Daemon Support
begin

text \<open>
  A model of mukite, a multi-user chat (XEP-0045) component for XMPP servers, in C, with its
  I/O library xmcomp.

  \<^bold>\<open>The program.\<close> A reader thread copies the server's stream into a ring, cuts it into stanzas
  (\<^verbatim>\<open>xmcomp/src/xmlfsm.c\<close>) and hands each over in a block of the stanza queue
  (\<^verbatim>\<open>xmcomp/src/queue.c\<close>). A worker takes a block, parses it (\<^verbatim>\<open>src/packet.c\<close>) and
  routes it (\<^verbatim>\<open>src/room/room.c\<close>). Replies are printed by \<^verbatim>\<open>src/builder.c\<close> into a bounded
  buffer and stored in the outgoing ring buffer (\<^verbatim>\<open>xmcomp/src/ringbuffer.c\<close>), which a writer
  thread sends (\<^verbatim>\<open>xmcomp/src/writer.c\<close>). \<^verbatim>\<open>src/mukite.c\<close> reads the configuration
  (\<^verbatim>\<open>src/config.c\<close>), opens the stream (\<^verbatim>\<open>xmcomp/src/network.c\<close>, with the SHA-1 of
  \<^verbatim>\<open>xmcomp/sha1\<close>) and starts the threads. Rooms, affiliations and occupants are saved to and loaded from a data file
  (\<^verbatim>\<open>src/serializer.h\<close>, \<^verbatim>\<open>src/utss.h\<close>), the access list from a text file
  (\<^verbatim>\<open>src/acl.c\<close>).

  \<^bold>\<open>The theories.\<close>
  \<^item> \<open>Prelude\<close>: results of a computation (\<open>Ret\<close>, or a \<open>Fault\<close> where the C code has no defined
    behaviour), characters, \<open>strtol\<close>.
  \<^item> \<open>Buffer\<close>, \<open>Utss\<close>: \<^verbatim>\<open>xmcomp/src/buffer.c\<close> and the serialization macros. A file is
    a writer that may fail at any byte, and a reader of a list of bytes. \<open>Utss\<close> has the linked
    lists of the macros: addresses in order, a memory of cells, the counted size and the limit. The
    external \<^verbatim>\<open>utlist.h\<close> is the interface \<open>utlist_laws\<close>.
  \<^item> \<open>Jid\<close>, \<open>Acl\<close>, \<open>Participants\<close>, \<open>Affiliations\<close>, \<open>History\<close>: the data of rooms, one theory
    per directory under \<^verbatim>\<open>src/\<close>.
  \<^item> \<open>Xmlfsm\<close>, \<open>Xml_Correct\<close>: the scanner and its correctness on printed XML.
  \<^item> \<open>Packet\<close>: the incoming stanza, as slices of the block, and the cleanups that overwrite it.
  \<^item> \<open>Room\<close>, \<open>Room_Xml\<close>: the room, its data file, the nodes it reads from a stanza.
  \<^item> \<open>Builder\<close>, \<open>Sending\<close>: the printed stanza; broadcasts, bounces.
  \<^item> \<open>Routing\<close>: what a room does with a stanza, every branch of \<open>route_message\<close>, \<open>route_presence\<close> and
    \<open>route_iq\<close>. \<open>Route_Correct\<close> has what routing keeps (different nicknames, a proper list of occupants);
    \<open>Route_Rules\<close> who may enter; \<open>Route_Admin\<close> what moderators, admins and owners may change and who has
    to leave; \<open>Route_Messages\<close> who gets a message.
  \<^item> \<open>Rooms\<close>: the table of rooms and the data file. The hash table \<^verbatim>\<open>uthash\<close> is external: it is the
    interface \<open>uthash_laws\<close>.
  \<^item> \<open>Concurrency\<close>: \<open>rooms_process\<close> cut at its locks, for several workers at once: done by one worker it is the
    function of \<open>Rooms\<close>; the table stays consistent while no two workers have stanzas to the same room; and the two
    races that the code leaves open otherwise.
  \<^item> \<open>Wire\<close>: what \<open>packet_parse\<close> makes of a well-formed stanza, and that a printed message is cut off the stream as one and
    parsed back.
  \<^item> \<open>Worker\<close>: a turn of a worker, from a block of the queue to the texts that are sent, and the
    queries to the service itself.
  \<^item> \<open>Reader\<close>: the ring of received bytes, the stanzas cut out of it and the blocks they are stored in.
  \<^item> \<open>Ringbuffer\<close>, \<open>Queue\<close>: the two shared data structures, with step relations for their threads.
  \<^item> \<open>Server\<close>: the reader, the queue, the workers and the table of rooms as one step relation, whose invariant
    holds for any bytes from the server.
  \<^item> \<open>Sha1\<close>: the hash and its equivalence with FIPS 180-1; \<open>Network\<close>: the socket, the stream and the handshake of
    XEP-0114. The kernel and the server are the answers that the next calls of \<open>send\<close> and \<open>recv\<close> get.
  \<^item> \<open>Writer\<close>: the writer thread, what it does to the ring, and the workers that wait for it.
  \<^item> \<open>Config\<close>: the configuration file; \<open>Mukite\<close>: how it is applied to the worker threads, the signal handlers, how a
    connection is opened and ended, and the clock thread.
  \<^item> \<open>Daemon\<close>: the loop of a worker thread with its storage, the start of \<open>main\<close> and the round of its loop, and all threads
    together with the signals and the connections, as a run of \<open>Server\<close>.
  \<^item> \<open>Support\<close>: the lines of the log, the masks and handlers of signals, and the hook of \<^verbatim>\<open>src/mewcat.c\<close>.

  \<^bold>\<open>Bounds and fuel.\<close> The loop over affected occupants (\<open>affected_loop\<close>) gets one step more than
  there are occupants, and is proved never to run out. The other loops are total: structural,
  or with a measure of the text that is left.

  Where the number of steps depends on the environment, the answers of the kernel are a list and the loop
  (\<open>send_loop\<close>, \<open>writer_run\<close>) ends with it: a call without an answer is the result \<open>None\<close> or \<open>Waiting\<close>, and one
  answer for each byte is proved to be enough.

  \<^bold>\<open>Not modelled.\<close> The creation of threads and the delivery of signals are the kernel's: \<open>Daemon\<close> lets every step
  happen at any time, with a turn of a worker as one step (\<open>Concurrency\<close> splits it for the table of rooms, but
  not the routing inside a room). The lock of the access list. The calls of the log in the functions, whose text does not
  act on them. Memory is not freed in the model, except where an address is reused in a list or a room is removed from
  the table, and there is memory for the buffers of the workers. Condition variables have no spurious wake-ups in \<open>Writer\<close>. The functions
  that only free memory at the end of \<open>main\<close>.
\<close>

end
